(* ===== verification/Prelude.thy ===== *)
theory Prelude
  imports Main "HOL-Library.Word" "HOL-Library.List_Lexorder" "HOL-Library.Char_ord"
    "HOL-Library.Multiset"
begin

text \<open>
  Shared vocabulary of the development: Go's integer types, the outcome of a Go call, reading a
  Go map, the order in which a \<^verbatim>\<open>range\<close> loop visits a map, the decimal printer and parser of
  \<^verbatim>\<open>strconv\<close>, and the arithmetic lemmas (no wrap-around under a bound) that every component uses.
\<close>

section \<open>Collections of rewrite rules\<close>

named_theorems no_wrap \<open>unsigned arithmetic on words that stays below the modulus\<close>
named_theorems go_simps \<open>definitions that a proof may always unfold\<close>

section \<open>Integers\<close>

text \<open>
  \<^verbatim>\<open>uint64\<close> and \<^verbatim>\<open>uint\<close> (64 bits on the supported platforms) are words; \<^verbatim>\<open>int\<close> and \<^verbatim>\<open>int64\<close>
  are integers whose additions wrap through \<open>go_int\<close>.
\<close>

type_synonym u64 = "64 word"

definition go_int :: "int \<Rightarrow> int" where
  "go_int x = signed_take_bit 63 x"

lemma go_int_id: "- (2 ^ 63) \<le> x \<Longrightarrow> x < 2 ^ 63 \<Longrightarrow> go_int x = x"
  by (simp add: go_int_def signed_take_bit_int_eq_self_iff)

lemma go_int_range: "- (2 ^ 63) \<le> go_int x \<and> go_int x < 2 ^ 63"
  unfolding go_int_def
  using signed_take_bit_int_less_exp [of 63 x] signed_take_bit_int_greater_eq_minus_exp [of 63 x]
  by auto

lemma sint_u64:
  assumes "unat (w :: u64) < 2 ^ 63"
  shows "sint w = int (unat w)"
proof -
  have "sint w = signed_take_bit 63 (uint w)" by (simp add: sint_uint)
  moreover have "uint w < 2 ^ 63" using assms by (simp add: nat_less_iff flip: nat_uint_eq)
  ultimately have "sint w = uint w"
    by (simp only: signed_take_bit_int_eq_self_iff) (simp add: order_trans [of _ 0])
  then show ?thesis by simp
qed

lemma sint_u64_nonneg: "unat (w :: u64) < 2 ^ 63 \<Longrightarrow> 0 \<le> sint w"
  by (simp add: sint_u64)

subsection \<open>Arithmetic that does not wrap\<close>

lemma unat_add64 [no_wrap]:
  "unat a + unat b < 2 ^ 64 \<Longrightarrow> unat (a + b :: u64) = unat a + unat b"
  by (simp add: unat_word_ariths)

lemma unat_mult64 [no_wrap]:
  "unat a * unat b < 2 ^ 64 \<Longrightarrow> unat (a * b :: u64) = unat a * unat b"
  by (simp add: unat_word_ariths)

lemma unat_sub64 [no_wrap]:
  "unat b \<le> unat a \<Longrightarrow> unat (a - b :: u64) = unat a - unat b"
  by (simp add: unat_sub word_le_nat_alt)

lemma unat_div64 [no_wrap]: "unat (a div b :: u64) = unat a div unat b"
  by (rule unat_div)

lemma unat_mod64 [no_wrap]: "unat (a mod b :: u64) = unat a mod unat b"
  by (rule unat_mod)

lemma unat_plus_le: "unat (a + b :: u64) \<le> unat a + unat b"
  by (simp add: unat_word_ariths)

lemma unat_lt_2p64: "unat (a :: u64) < 2 ^ 64"
  using unsigned_less [of a, where ?'a = nat] by simp

lemma u64_pos_iff: "(0 :: u64) < a \<longleftrightarrow> 0 < unat a"
  by (simp add: word_less_nat_alt)

lemma u64_eq_iff: "a = b \<longleftrightarrow> unat a = unat (b :: u64)"
  by (simp add: word_unat_eq_iff)

section \<open>The outcome of a call\<close>

text \<open>
  A Go function that returns \<^verbatim>\<open>(T, error)\<close> either returns a value or an error; besides it may panic
  (index out of range, nil dereference, division by zero) or never return.
\<close>

datatype ('e, 'a) go = Ok 'a | Err 'e | Panic | Hang

fun go_bind :: "('e, 'a) go \<Rightarrow> ('a \<Rightarrow> ('e, 'b) go) \<Rightarrow> ('e, 'b) go" where
  "go_bind (Ok x) f = f x"
| "go_bind (Err e) f = Err e"
| "go_bind Panic f = Panic"
| "go_bind Hang f = Hang"

lemma go_bind_eq_Ok:
  "go_bind r f = Ok y \<longleftrightarrow> (\<exists>x. r = Ok x \<and> f x = Ok y)"
  by (cases r) auto

lemma go_bind_cong [fundef_cong]:
  "r = r' \<Longrightarrow> (\<And>x. r' = Ok x \<Longrightarrow> f x = g x) \<Longrightarrow> go_bind r f = go_bind r' g"
  by (cases r') auto

section \<open>Maps\<close>

text \<open>Reading a Go map at a missing key gives the zero value of the element type.\<close>

definition go_get :: "'v \<Rightarrow> ('k \<rightharpoonup> 'v) \<Rightarrow> 'k \<Rightarrow> 'v" where
  [go_simps]: "go_get z m k = (case m k of None \<Rightarrow> z | Some v \<Rightarrow> v)"

lemma go_get_upd [simp]: "go_get z (m(k \<mapsto> v)) k' = (if k' = k then v else go_get z m k')"
  by (simp add: go_get_def)

lemma go_get_empty [simp]: "go_get z Map.empty k = z"
  by (simp add: go_get_def)

text \<open>
  A \<^verbatim>\<open>range\<close> loop over a map visits every key once, in an order that the language leaves open. The
  model takes the order as an argument: a list that enumerates the keys.
\<close>

definition enumerates :: "'k list \<Rightarrow> ('k \<rightharpoonup> 'v) \<Rightarrow> bool" where
  "enumerates ks m \<longleftrightarrow> distinct ks \<and> set ks = dom m"

lemma enumerates_mem: "enumerates ks m \<Longrightarrow> k \<in> set ks \<longleftrightarrow> (\<exists>v. m k = Some v)"
  by (auto simp: enumerates_def)

lemma enumerates_finite: "enumerates ks m \<Longrightarrow> finite (dom m)"
  unfolding enumerates_def by (metis finite_set)

lemma enumerates_length: "enumerates ks m \<Longrightarrow> length ks = card (dom m)"
  unfolding enumerates_def by (metis distinct_card)

section \<open>Lists\<close>

lemma nth_list_upd: "xs[i := x] ! j = (if i = j \<and> i < length xs then x else xs ! j)"
  by (cases "i < length xs") (auto simp: nth_list_update list_update_beyond)

lemma find_SomeD: "find P xs = Some x \<Longrightarrow> x \<in> set xs \<and> P x"
  by (induction xs) (auto split: if_splits)

section \<open>Decimal numbers\<close>

text \<open>\<^verbatim>\<open>strconv.FormatUint(n, 10)\<close> and \<^verbatim>\<open>strconv.Itoa\<close>.\<close>

definition digit_char :: "nat \<Rightarrow> char" where
  "digit_char d = char_of (48 + d)"

fun dec :: "nat \<Rightarrow> string" where
  "dec n = (if n < 10 then [digit_char n] else dec (n div 10) @ [digit_char (n mod 10)])"

declare dec.simps [simp del]

definition itoa :: "int \<Rightarrow> string" where
  "itoa i = (if i < 0 then CHR ''-'' # dec (nat (- i)) else dec (nat i))"

definition fmt_u64 :: "u64 \<Rightarrow> string" where
  "fmt_u64 w = dec (unat w)"

definition is_digit :: "char \<Rightarrow> bool" where
  "is_digit c \<longleftrightarrow> 48 \<le> (of_char c :: nat) \<and> (of_char c :: nat) \<le> 57"

definition digit_val :: "char \<Rightarrow> nat" where
  "digit_val c = of_char c - 48"

text \<open>
  \<^verbatim>\<open>n, _ := strconv.ParseUint(s, 10, 64)\<close> with the error dropped, as every caller does: a syntax error
  leaves 0 and a range error leaves the largest value. The loop reads the bytes in order and stops at
  the first error it meets, as the library's does.
\<close>

definition max_u64 :: nat where
  [go_simps]: "max_u64 = 2 ^ 64 - 1"

fun parse_loop :: "string \<Rightarrow> nat \<Rightarrow> nat" where
  "parse_loop [] n = n"
| "parse_loop (c # cs) n =
     (if \<not> is_digit c then 0
      else if max_u64 div 10 + 1 \<le> n then max_u64
      else if max_u64 < n * 10 + digit_val c then max_u64
      else parse_loop cs (n * 10 + digit_val c))"

definition parse_uint :: "string \<Rightarrow> u64" where
  "parse_uint s = (if s = [] then 0 else word_of_nat (parse_loop s 0))"

text \<open>\<^verbatim>\<open>strings.TrimSuffix\<close>.\<close>

definition trim_suffix :: "string \<Rightarrow> string \<Rightarrow> string" where
  "trim_suffix s suf =
     (if length suf \<le> length s \<and> drop (length s - length suf) s = suf
      then take (length s - length suf) s else s)"

lemma trim_suffix_append [simp]: "trim_suffix (s @ suf) suf = s"
  by (simp add: trim_suffix_def)

lemma of_char_digit_char: "d < 10 \<Longrightarrow> (of_char (digit_char d) :: nat) = 48 + d"
  by (simp add: digit_char_def)

lemma is_digit_digit_char: "d < 10 \<Longrightarrow> is_digit (digit_char d)"
  by (simp add: is_digit_def of_char_digit_char)

lemma digit_val_digit_char: "d < 10 \<Longrightarrow> digit_val (digit_char d) = d"
  by (simp add: digit_val_def of_char_digit_char)

lemma dec_not_Nil: "dec n \<noteq> []"
  by (subst dec.simps) simp

lemma parse_loop_append_digit:
  assumes "parse_loop s a = v" and "\<forall>c \<in> set s. is_digit c" and "d < 10"
    and "v < max_u64" and "v * 10 + d \<le> max_u64"
  shows "parse_loop (s @ [digit_char d]) a = v * 10 + d"
  using assms
proof (induction s arbitrary: a)
  case Nil
  then show ?case
    by (auto simp: is_digit_digit_char digit_val_digit_char max_u64_def)
next
  case (Cons c cs)
  then show ?case by (auto split: if_splits)
qed

lemma dec_digits: "\<forall>c \<in> set (dec n). is_digit c"
proof (induction n rule: dec.induct)
  case (1 n)
  then show ?case
    by (subst dec.simps) (auto simp: is_digit_digit_char)
qed

lemma parse_loop_dec: "n \<le> max_u64 \<Longrightarrow> parse_loop (dec n) 0 = n"
proof (induction n rule: dec.induct)
  case (1 n)
  show ?case
  proof (cases "n < 10")
    case True
    then show ?thesis
      by (subst dec.simps) (auto simp: is_digit_digit_char digit_val_digit_char max_u64_def)
  next
    case False
    with "1.prems" have "parse_loop (dec (n div 10)) 0 = n div 10"
      by (intro "1.IH") auto
    moreover have "n div 10 < max_u64" and "n div 10 * 10 + n mod 10 \<le> max_u64"
      using "1.prems" by (auto simp: max_u64_def)
    ultimately have "parse_loop (dec (n div 10) @ [digit_char (n mod 10)]) 0
        = n div 10 * 10 + n mod 10"
      by (intro parse_loop_append_digit) (auto simp: dec_digits)
    with False show ?thesis by (subst dec.simps) simp
  qed
qed

lemma parse_uint_dec: "parse_uint (dec (unat w)) = w"
proof -
  have "unat w \<le> max_u64" using unat_lt_2p64 [of w] by (simp add: max_u64_def)
  then show ?thesis by (simp add: parse_uint_def dec_not_Nil parse_loop_dec)
qed

end
