(* ===== verification/Util.thy ===== *)
theory Util
  imports Prelude "HOL-Library.Sublist"
begin

text \<open>
  \<^verbatim>\<open>util/error.go\<close>, \<^verbatim>\<open>util/util.go\<close> and \<^verbatim>\<open>consts/\<close>: the error values of the program with their texts, the
  direction of a channel, and the small helpers. \<^verbatim>\<open>GetCallInfo\<close> and \<^verbatim>\<open>TimeTrack\<close> only feed the log and are
  not modelled.
\<close>

section \<open>Errors\<close>

text \<open>
  One constructor per error value of \<^verbatim>\<open>util/error.go\<close>. Go compares these values by identity, so equality of
  constructors is the \<^verbatim>\<open>==\<close> of the source. \<open>ErrForeign\<close> is an error of a library, known by its text;
  comparing it to one of ours is always false, which is why \<^verbatim>\<open>SendPay\<close> compares texts.
\<close>

datatype go_err =
    ErrRouteTooExpensive u64 u64
  | ErrSendPayTimeout | ErrTemporaryFailure | ErrWireFeeInsufficient
  | ErrNoRequiredParameter | ErrSelfNode | ErrNoPeers | ErrSameIncomingAndOutgoingNode
  | ErrNoPeerChannel | ErrNoSuchNode | ErrNoPeer | ErrFirstPeerNotReady | ErrCircularStopped
  | ErrNoGraphToLoad | ErrNoRoute
  | ErrAmountLessThanSplitAmount | ErrAmountNotMultipleOfSplitAmount | ErrDepleteUpToPercentInvalid
  | ErrNoChannel | ErrNoCandidates | ErrChannelDepleted | ErrChannelFilled
  | ErrIncomingChannelDepleted | ErrOutgoingChannelDepleted
  | ErrNoOutgoingChannel | ErrNoIncomingChannel | ErrChannelNotInNormalState
  | ErrOutgoingChannelNotInNormalState | ErrIncomingChannelNotInNormalState
  | ErrChannelNotFound | ErrOppositeChannelNotFound
  | ErrIncomingPeerDisconnected | ErrOutgoingPeerDisconnected
  | ErrForeign string

type_synonym 'a res = "(go_err, 'a) go"

fun error_text :: "go_err \<Rightarrow> string" where
  "error_text (ErrRouteTooExpensive fee_ppm max_ppm) =
     ''route too expensive. Cheapest route found was '' @ fmt_u64 fee_ppm
       @ '' ppm, but maxppm is '' @ fmt_u64 max_ppm"
| "error_text ErrSendPayTimeout = ''200:Timed out while waiting''"
| "error_text ErrTemporaryFailure = ''204:failed: WIRE_TEMPORARY_CHANNEL_FAILURE (reply from remote)''"
| "error_text ErrWireFeeInsufficient = ''204:failed: WIRE_FEE_INSUFFICIENT (reply from remote)''"
| "error_text ErrNoRequiredParameter = ''missing required parameter''"
| "error_text ErrSelfNode = ''one of the nodes is self''"
| "error_text ErrNoPeers = ''no peers yet''"
| "error_text ErrSameIncomingAndOutgoingNode = ''incoming and outgoing nodes are the same''"
| "error_text ErrNoPeerChannel = ''not a peer or peer channel''"
| "error_text ErrNoSuchNode = ''no such node''"
| "error_text ErrNoPeer = ''no peer''"
| "error_text ErrFirstPeerNotReady = ''first peer not ready''"
| "error_text ErrCircularStopped =
     ''circular has been stopped. Use 'circular-resume' to resume activity''"
| "error_text ErrNoGraphToLoad = ''no graph to load''"
| "error_text ErrNoRoute = ''no route''"
| "error_text ErrAmountLessThanSplitAmount = ''amount is less than split amount''"
| "error_text ErrAmountNotMultipleOfSplitAmount = ''amount is not a multiple of split amount''"
| "error_text ErrDepleteUpToPercentInvalid =
     ''deplete up to percent invalid, it must be between 0 and 1''"
| "error_text ErrNoChannel = ''no channel''"
| "error_text ErrNoCandidates = ''no candidates''"
| "error_text ErrChannelDepleted = ''channel is depleted''"
| "error_text ErrChannelFilled = ''channel is filled''"
| "error_text ErrIncomingChannelDepleted = ''incoming channel does not have enough remote balance''"
| "error_text ErrOutgoingChannelDepleted = ''outgoing channel does not have enough local balance''"
| "error_text ErrNoOutgoingChannel = ''no outgoing channel''"
| "error_text ErrNoIncomingChannel = ''no incoming channel''"
| "error_text ErrChannelNotInNormalState = ''channel is not in normal state''"
| "error_text ErrOutgoingChannelNotInNormalState = ''outgoing channel is not in normal state''"
| "error_text ErrIncomingChannelNotInNormalState = ''incoming channel is not in normal state''"
| "error_text ErrChannelNotFound = ''channel not found''"
| "error_text ErrOppositeChannelNotFound = ''opposite channel not found''"
| "error_text ErrIncomingPeerDisconnected = ''incoming peer is disconnected''"
| "error_text ErrOutgoingPeerDisconnected = ''outgoing peer is disconnected''"
| "error_text (ErrForeign s) = s"

definition is_route_too_expensive :: "go_err \<Rightarrow> bool" where
  [go_simps]: "is_route_too_expensive e =
     (case e of ErrRouteTooExpensive _ _ \<Rightarrow> True | _ \<Rightarrow> False)"

section \<open>Constants\<close>

definition FailurePrefix :: string where "FailurePrefix = ''f_''"
definition SuccessPrefix :: string where "SuccessPrefix = ''s_''"
definition RoutePrefix :: string where "RoutePrefix = ''r_''"
definition TimeoutPrefix :: string where "TimeoutPrefix = ''timeout_''"
definition SendpayTimeout :: nat where "SendpayTimeout = 120"

lemmas const_defs = FailurePrefix_def SuccessPrefix_def RoutePrefix_def TimeoutPrefix_def

section \<open>Helpers\<close>

fun all_true :: "bool list \<Rightarrow> bool" where
  "all_true [] = True"
| "all_true (b # bs) = (if \<not> b then False else all_true bs)"

lemma all_true_iff: "all_true bs \<longleftrightarrow> (\<forall>b \<in> set bs. b)"
  by (induction bs) auto

text \<open>Go compares strings bytewise, which is the lexicographic order on \<open>char list\<close>.\<close>

definition get_direction :: "string \<Rightarrow> string \<Rightarrow> string" where
  "get_direction frm to = (if frm < to then ''0'' else ''1'')"

definition go_min :: "u64 \<Rightarrow> u64 \<Rightarrow> u64" where
  [go_simps]: "go_min n1 n2 = (if n1 < n2 then n1 else n2)"

definition go_max :: "u64 \<Rightarrow> u64 \<Rightarrow> u64" where
  [go_simps]: "go_max n1 n2 = (if n1 > n2 then n1 else n2)"

text \<open>\<open>rnd\<close> is the value that \<^verbatim>\<open>rand.Int63()\<close> returned, converted to \<^verbatim>\<open>uint64\<close>.\<close>

definition rand_range :: "u64 \<Rightarrow> u64 \<Rightarrow> u64 \<Rightarrow> u64" where
  "rand_range rnd mn mx =
     (if mn = mx then mn else if mx < mn then 0 else mn + rnd mod (mx - mn))"

text \<open>\<^verbatim>\<open>strings.Split(s, sep)\<close> for a non-empty separator, reading from the left.\<close>

fun split_loop :: "string \<Rightarrow> string \<Rightarrow> nat \<Rightarrow> string \<Rightarrow> string list" where
  "split_loop sep [] skip acc = [rev acc]"
| "split_loop sep (c # cs) (Suc skip) acc = split_loop sep cs skip acc"
| "split_loop sep (c # cs) 0 acc =
     (if prefix sep (c # cs) then rev acc # split_loop sep cs (length sep - 1) []
      else split_loop sep cs 0 (c # acc))"

definition remove_before_character :: "string \<Rightarrow> string \<Rightarrow> string" where
  "remove_before_character s sep = (if sep = [] then s else last (split_loop sep s 0 []))"

text \<open>\<open>ks\<close> is the order in which the \<^verbatim>\<open>range\<close> loop visits the map.\<close>

fun get_map_values :: "'k list \<Rightarrow> ('k \<rightharpoonup> 'v) \<Rightarrow> 'v list" where
  "get_map_values [] m = []"
| "get_map_values (k # ks) m =
     (case m k of None \<Rightarrow> get_map_values ks m | Some v \<Rightarrow> v # get_map_values ks m)"

lemma set_get_map_values: "enumerates ks m \<Longrightarrow> set (get_map_values ks m) = ran m"
proof -
  assume *: "enumerates ks m"
  have "set (get_map_values ks m) = {v. \<exists>k \<in> set ks. m k = Some v}"
    by (induction ks) (auto split: option.splits)
  with * show ?thesis by (auto simp: ran_def enumerates_def)
qed

lemma get_direction_cases: "get_direction a b = ''0'' \<or> get_direction a b = ''1''"
  by (simp add: get_direction_def)

lemma get_direction_opposite: "a \<noteq> b \<Longrightarrow> get_direction a b \<noteq> get_direction b a"
  by (auto simp: get_direction_def)

lemma length_get_direction [simp]: "length (get_direction a b) = 1"
  by (simp add: get_direction_def)

lemma go_min_le: "go_min a b \<le> a" "go_min a b \<le> b"
  by (auto simp: go_min_def)

lemma rand_range_bounds:
  assumes "mn < mx"
  shows "mn \<le> rand_range rnd mn mx \<and> rand_range rnd mn mx < mx"
proof -
  let ?r = "rnd mod (mx - mn)"
  have le: "unat mn \<le> unat mx" using assms by (simp add: word_less_nat_alt)
  have d: "unat (mx - mn) = unat mx - unat mn" using le by (simp add: no_wrap)
  have lt: "unat mn < unat mx" using assms by (simp add: word_less_nat_alt)
  have r: "unat ?r < unat mx - unat mn" using lt by (simp add: unat_mod d)
  have "unat (mn + ?r) = unat mn + unat ?r"
    using r lt unat_lt_2p64 [of mx] by (intro unat_add64) linarith
  with r lt assms show ?thesis
    by (auto simp: rand_range_def word_le_nat_alt word_less_nat_alt)
qed

text \<open>With a one-byte separator the last piece is the text after the last separator.\<close>

lemma last_split_loop:
  "last (split_loop [x] s 0 acc) =
     (if x \<in> set s then rev (takeWhile (\<lambda>c. c \<noteq> x) (rev s)) else rev acc @ s)"
proof (induction s arbitrary: acc)
  case Nil
  then show ?case by simp
next
  case (Cons c cs)
  have ne: "split_loop [x] cs 0 a \<noteq> []" for a
    by (induction cs arbitrary: a) simp_all
  show ?case
    using Cons.IH [of "[]"] Cons.IH [of "c # acc"] ne
    by (auto simp: takeWhile_append takeWhile_eq_all_conv dest: set_takeWhileD)
qed

end
