(* ===== verification/GoFloat.thy ===== *)
theory GoFloat
  imports Prelude
begin

text \<open>
  The \<^verbatim>\<open>float64\<close> arithmetic of the program. It is used in two places only: half of a capacity
  (\<^verbatim>\<open>uint64(0.5*float64(x))\<close>) and a percentage of a channel
  (\<^verbatim>\<open>uint64(float64(total)*percent)\<close>). A finite \<^verbatim>\<open>float64\<close> is the dyadic number \<open>m / 2 ^ e\<close>, and a product is
  rounded to 53 significant bits, ties to even, as IEEE 754 prescribes. Conversion back to \<^verbatim>\<open>uint64\<close>
  truncates. The conversion of a value of \<open>2 ^ 64\<close> or more is left open by Go; the model takes the
  residue, and no property uses it.
\<close>

fun bit_len :: "nat \<Rightarrow> nat" where
  "bit_len n = (if n = 0 then 0 else Suc (bit_len (n div 2)))"

declare bit_len.simps [simp del]

definition round_to :: "nat \<Rightarrow> nat \<Rightarrow> nat" where
  "round_to k n =
     (let q = n div 2 ^ k; r = n mod 2 ^ k; half = 2 ^ (k - 1)
      in (if half < r \<or> (r = half \<and> odd q) then q + 1 else q) * 2 ^ k)"

definition round53 :: "nat \<Rightarrow> nat" where
  "round53 n = (if n < 2 ^ 53 then n else round_to (bit_len n - 53) n)"

datatype f64 = F64 int nat

definition f64_le_zero :: "f64 \<Rightarrow> bool" where
  "f64_le_zero x = (case x of F64 m e \<Rightarrow> m \<le> 0)"

definition f64_lt_zero :: "f64 \<Rightarrow> bool" where
  "f64_lt_zero x = (case x of F64 m e \<Rightarrow> m < 0)"

definition f64_gt_one :: "f64 \<Rightarrow> bool" where
  "f64_gt_one x = (case x of F64 m e \<Rightarrow> 2 ^ e < m)"

definition f64_half :: f64 where "f64_half = F64 1 1"

text \<open>The nearest doubles to 0.2 and 0.8.\<close>

definition f64_0_2 :: f64 where "f64_0_2 = F64 3602879701896397 54"
definition f64_0_8 :: f64 where "f64_0_8 = F64 3602879701896397 52"

text \<open>\<^verbatim>\<open>uint64(float64(x) * f)\<close> for a factor that is not negative.\<close>

definition mul_trunc :: "u64 \<Rightarrow> f64 \<Rightarrow> u64" where
  "mul_trunc x f = (case f of F64 m e \<Rightarrow>
     word_of_nat (round53 (round53 (unat x) * nat m) div 2 ^ e))"

text \<open>Below \<open>2 ^ 53\<close> nothing is rounded: half of a value is its integer half.\<close>

lemma round53_small [simp]: "n < 2 ^ 53 \<Longrightarrow> round53 n = n"
  by (simp add: round53_def)

lemma mul_trunc_half:
  assumes "unat x < 2 ^ 53"
  shows "unat (mul_trunc x f64_half) = unat x div 2"
  using assms
  by (simp add: mul_trunc_def f64_half_def unat_of_nat)

lemma round_to_error:
  assumes "0 < k"
  shows "round_to k n \<le> n + 2 ^ (k - 1) \<and> n \<le> round_to k n + 2 ^ (k - 1)"
proof -
  have k: "(2 :: nat) ^ k = 2 * 2 ^ (k - 1)" using assms by (cases k) auto
  let ?q = "n div 2 ^ k" and ?r = "n mod 2 ^ k"
  have n: "n = ?q * 2 ^ k + ?r" by (rule div_mult_mod_eq [symmetric])
  have r: "?r < 2 ^ k" by simp
  show ?thesis
  proof (cases "2 ^ (k - 1) < ?r \<or> (?r = 2 ^ (k - 1) \<and> odd ?q)")
    case True
    then have "round_to k n = ?q * 2 ^ k + 2 ^ k" by (simp add: round_to_def Let_def)
    moreover have "2 ^ (k - 1) \<le> ?r" using True by auto
    ultimately show ?thesis using n r k by linarith
  next
    case False
    then have "round_to k n = ?q * 2 ^ k" by (auto simp: round_to_def Let_def)
    moreover have "?r \<le> 2 ^ (k - 1)" using False by auto
    ultimately show ?thesis using n k by linarith
  qed
qed

lemma bit_len_le: "0 < n \<Longrightarrow> 2 ^ (bit_len n - 1) \<le> n"
proof (induction n rule: bit_len.induct)
  case (1 n)
  show ?case
  proof (cases "n div 2 = 0")
    case True
    then have "bit_len n = 1" using "1.prems" by (subst bit_len.simps) (simp add: bit_len.simps [of 0])
    then show ?thesis using "1.prems" by simp
  next
    case False
    then have IH: "2 ^ (bit_len (n div 2) - 1) \<le> n div 2" using "1.IH" "1.prems" by simp
    have "0 < bit_len (n div 2)" using False by (subst bit_len.simps) simp
    then have "(2 :: nat) ^ (bit_len n - 1) = 2 * 2 ^ (bit_len (n div 2) - 1)"
      using "1.prems" by (subst bit_len.simps) (simp flip: power_Suc)
    also have "\<dots> \<le> n" using IH by linarith
    finally show ?thesis .
  qed
qed

lemma less_bit_len: "n < 2 ^ bit_len n"
proof (induction n rule: bit_len.induct)
  case (1 n)
  show ?case
  proof (cases "n = 0")
    case False
    then have "n div 2 < 2 ^ bit_len (n div 2)" using "1.IH" by simp
    then have "n < 2 * 2 ^ bit_len (n div 2)" by linarith
    then show ?thesis using False by (subst bit_len.simps) simp
  qed (simp add: bit_len.simps [of 0])
qed

text \<open>Rounding to 53 bits changes a value by at most one part in \<open>2 ^ 53\<close>.\<close>

lemma half_unit:
  assumes "\<not> n < 2 ^ 53"
  shows "0 < bit_len n - 53" and "2 ^ (bit_len n - 53 - 1) \<le> n div 2 ^ 53"
proof -
  define k where "k = bit_len n - 53"
  have "\<not> bit_len n \<le> 53"
  proof
    assume "bit_len n \<le> 53"
    then have "(2 :: nat) ^ bit_len n \<le> 2 ^ 53" by (rule power_increasing) simp
    with assms less_bit_len [of n] show False by simp
  qed
  then have k: "0 < k" and e: "bit_len n - 1 = (k - 1) + 53" by (simp_all add: k_def)
  have "(2 :: nat) ^ (k - 1) * 2 ^ 53 = 2 ^ (bit_len n - 1)" by (simp only: e power_add)
  also have "\<dots> \<le> n" using assms by (intro bit_len_le) simp
  finally show "2 ^ (bit_len n - 53 - 1) \<le> n div 2 ^ 53" by (simp add: less_eq_div_iff_mult_less_eq k_def)
  show "0 < bit_len n - 53" using k by (simp add: k_def)
qed

lemma round53_near: "round53 n \<le> n + n div 2 ^ 53" "n \<le> round53 n + n div 2 ^ 53"
proof -
  have "round53 n \<le> n + n div 2 ^ 53 \<and> n \<le> round53 n + n div 2 ^ 53"
  proof (cases "n < 2 ^ 53")
    case False
    then show ?thesis using half_unit [OF False] round_to_error [OF half_unit(1) [OF False], of n]
      by (simp add: round53_def)
  qed simp
  then show "round53 n \<le> n + n div 2 ^ 53" "n \<le> round53 n + n div 2 ^ 53" by simp_all
qed

lemmas round53_le = round53_near(1) and round53_ge = round53_near(2)

lemma mul_trunc_half_le: "mul_trunc x f64_half \<le> x"
proof -
  define a where "a = round53 (unat x)"
  define b where "b = round53 a"
  have t: "unat x div 2 ^ 53 * 2 ^ 53 \<le> unat x" "a div 2 ^ 53 * 2 ^ 53 \<le> a"
    by (rule div_times_less_eq_dividend)+
  have "a \<le> unat x + unat x div 2 ^ 53" "b \<le> a + a div 2 ^ 53"
    unfolding a_def b_def by (rule round53_le)+
  then have "b \<le> 2 * unat x" using t by simp
  then have "b div 2 \<le> unat x" by simp
  moreover have "mul_trunc x f64_half = word_of_nat (b div 2)"
    by (simp add: mul_trunc_def f64_half_def a_def b_def)
  moreover have "unat x < 2 ^ 64" by (rule unat_lt_2p64)
  ultimately show ?thesis by (simp add: word_le_nat_alt unat_of_nat)
qed

end
