(* ===== verification/Channel.thy ===== *)
theory Channel
  imports Util GoFloat
begin

text \<open>
  \<^verbatim>\<open>graph/channel.go\<close>: a directed channel of the gossip graph. The embedded \<^verbatim>\<open>glightning.Channel\<close> (a library
  struct) is the record \<open>gl_channel\<close>, with the fields the program reads; \<open>channel\<close> extends it, as the Go
  struct embeds it. Amounts are in msat.
\<close>

section \<open>Data\<close>

record gl_channel =
  chan_source :: string
  chan_destination :: string
  short_channel_id :: string
  satoshis :: u64
  is_active :: bool
  last_update :: u64
  base_fee_millisatoshi :: u64
  fee_per_millionth :: u64
  chan_delay :: u64
  htlc_minimum_millisatoshis :: string
  htlc_maximum_millisatoshis :: string

record channel = gl_channel +
  liquidity :: u64
  timestamp :: int
  max_htlc_msat :: u64
  min_htlc_msat :: u64

definition parse_msat :: "string \<Rightarrow> u64" where
  "parse_msat s = parse_uint (trim_suffix s ''msat'')"

definition new_channel :: "gl_channel \<Rightarrow> u64 \<Rightarrow> int \<Rightarrow> channel" where
  "new_channel c lq ts =
     gl_channel.extend c
       (channel.fields lq ts
          (parse_msat (htlc_maximum_millisatoshis c))
          (parse_msat (htlc_minimum_millisatoshis c)))"

section \<open>Operations\<close>

text \<open>The base fee plus the proportional fee, whose division is rounded up.\<close>

definition compute_fee :: "'a gl_channel_scheme \<Rightarrow> u64 \<Rightarrow> u64" where
  "compute_fee c amount =
     (let numerator = (amount div 1000) * fee_per_millionth c;
          proportional_fee = (if numerator > 0 then (numerator - 1) div 1000 + 1 else 0)
      in base_fee_millisatoshi c + proportional_fee)"

text \<open>Go panics on an integer division by zero.\<close>

definition compute_fee_ppm :: "'a gl_channel_scheme \<Rightarrow> u64 \<Rightarrow> u64 res" where
  "compute_fee_ppm c amount =
     (if amount = 0 then Panic else Ok (compute_fee c amount * 1000000 div amount))"

definition chan_direction :: "'a gl_channel_scheme \<Rightarrow> 8 word" where
  "chan_direction c = (if chan_source c < chan_destination c then 0 else 1)"

text \<open>The hop that lightningd's \<^verbatim>\<open>sendpay\<close> takes (\<^verbatim>\<open>glightning.RouteHop\<close>).\<close>

record ln_hop =
  hop_id :: string
  hop_scid :: string
  hop_millisatoshi :: u64
  hop_cltv :: u64
  hop_direction :: "8 word"

definition get_hop :: "'a gl_channel_scheme \<Rightarrow> u64 \<Rightarrow> u64 \<Rightarrow> ln_hop" where
  "get_hop c amount delay =
     \<lparr>hop_id = chan_destination c, hop_scid = short_channel_id c, hop_millisatoshi = amount,
      hop_cltv = delay, hop_direction = chan_direction c\<rparr>"

definition can_forward :: "channel \<Rightarrow> u64 \<Rightarrow> bool" where
  "can_forward c amount \<longleftrightarrow>
     is_active c \<and> liquidity c \<ge> amount \<and> max_htlc_msat c \<ge> amount \<and> min_htlc_msat c \<le> amount"

definition half_capacity :: "'a gl_channel_scheme \<Rightarrow> u64" where
  "half_capacity c = mul_trunc (satoshis c * 1000) f64_half"

definition reset_liquidity :: "int \<Rightarrow> channel \<Rightarrow> channel" where
  "reset_liquidity now c = c\<lparr>liquidity := half_capacity c, timestamp := now\<rparr>"

text \<open>The key of a channel in \<^verbatim>\<open>Graph.Channels\<close>.\<close>

definition channel_key :: "string \<Rightarrow> string \<Rightarrow> string \<Rightarrow> string" where
  "channel_key scid frm to = scid @ ''/'' @ get_direction frm to"

definition channel_id :: "'a gl_channel_scheme \<Rightarrow> string" where
  "channel_id c = channel_key (short_channel_id c) (chan_source c) (chan_destination c)"

section \<open>Lemmas\<close>

lemma new_channel_simps [simp]:
  "chan_source (new_channel c lq ts) = chan_source c"
  "chan_destination (new_channel c lq ts) = chan_destination c"
  "short_channel_id (new_channel c lq ts) = short_channel_id c"
  "satoshis (new_channel c lq ts) = satoshis c"
  "is_active (new_channel c lq ts) = is_active c"
  "last_update (new_channel c lq ts) = last_update c"
  "base_fee_millisatoshi (new_channel c lq ts) = base_fee_millisatoshi c"
  "fee_per_millionth (new_channel c lq ts) = fee_per_millionth c"
  "chan_delay (new_channel c lq ts) = chan_delay c"
  "htlc_minimum_millisatoshis (new_channel c lq ts) = htlc_minimum_millisatoshis c"
  "htlc_maximum_millisatoshis (new_channel c lq ts) = htlc_maximum_millisatoshis c"
  "liquidity (new_channel c lq ts) = lq"
  "timestamp (new_channel c lq ts) = ts"
  "max_htlc_msat (new_channel c lq ts) = parse_msat (htlc_maximum_millisatoshis c)"
  "min_htlc_msat (new_channel c lq ts) = parse_msat (htlc_minimum_millisatoshis c)"
  by (simp_all add: new_channel_def gl_channel.defs channel.defs)

lemma channel_id_new_channel [simp]: "channel_id (new_channel c lq ts) = channel_id c"
  by (simp add: channel_id_def)

lemma channel_id_upd [simp]:
  "channel_id (c\<lparr>liquidity := x\<rparr>) = channel_id c"
  "channel_id (c\<lparr>timestamp := y\<rparr>) = channel_id c"
  "channel_id (c\<lparr>max_htlc_msat := z\<rparr>) = channel_id c"
  "channel_id (c\<lparr>min_htlc_msat := w\<rparr>) = channel_id c"
  by (simp_all add: channel_id_def)

lemma channel_key_eq_iff [simp]:
  "channel_key s a b = channel_key s' a' b' \<longleftrightarrow>
     s = s' \<and> get_direction a b = get_direction a' b'"
proof -
  have "length (''/'' @ get_direction a b) = length (''/'' @ get_direction a' b')" by simp
  then show ?thesis unfolding channel_key_def by (auto simp: append_eq_append_conv)
qed

lemma chan_direction_text:
  "get_direction (chan_source c) (chan_destination c) = (if chan_direction c = 0 then ''0'' else ''1'')"
  by (simp add: get_direction_def chan_direction_def)

section \<open>The fee\<close>

text \<open>The fee over the natural numbers, and the fee a forwarding node asks for (BOLT 7).\<close>

definition fee_nat :: "'a gl_channel_scheme \<Rightarrow> nat \<Rightarrow> nat" where
  "fee_nat c a = unat (base_fee_millisatoshi c) + ((a div 1000) * unat (fee_per_millionth c) + 999) div 1000"

definition bolt7_fee :: "'a gl_channel_scheme \<Rightarrow> nat \<Rightarrow> nat" where
  "bolt7_fee c a = unat (base_fee_millisatoshi c) + a * unat (fee_per_millionth c) div 1000000"

lemma fee_nat_mono: "a \<le> b \<Longrightarrow> fee_nat c a \<le> fee_nat c b"
  unfolding fee_nat_def by (intro add_left_mono div_le_mono add_right_mono mult_le_mono1) auto

lemma ceil_div_eq: "0 < (n :: nat) \<Longrightarrow> (n - 1) div 1000 + 1 = (n + 999) div 1000"
  by (cases n) (auto simp: add.commute)

lemma compute_fee_unat:
  assumes "(unat a div 1000) * unat (fee_per_millionth c) < 2 ^ 64"
    and "fee_nat c (unat a) < 2 ^ 64"
  shows "unat (compute_fee c a) = fee_nat c (unat a)"
proof -
  let ?n = "(a div 1000) * fee_per_millionth c"
  let ?p = "if ?n > 0 then (?n - 1) div 1000 + 1 else 0"
  have d: "unat (a div 1000) = unat a div 1000" by (simp add: unat_div)
  have n: "unat ?n = (unat a div 1000) * unat (fee_per_millionth c)"
    using assms(1) by (simp add: unat_mult64 d)
  have p: "unat ?p = (unat ?n + 999) div 1000"
  proof (cases "?n > 0")
    case True
    then have pos: "0 < unat ?n" by (simp add: u64_pos_iff)
    then have m1: "unat (?n - 1) = unat ?n - 1" by (simp add: unat_sub64)
    have "unat ((?n - 1) div 1000) = (unat ?n - 1) div 1000" by (simp add: unat_div m1)
    moreover have "(unat ?n - 1) div 1000 + 1 < 2 ^ 64"
      using unat_lt_2p64 [of ?n] div_le_dividend [of "unat ?n - 1" 1000] pos by linarith
    ultimately have "unat ((?n - 1) div 1000 + 1) = (unat ?n - 1) div 1000 + 1"
      by (simp add: unat_add64)
    moreover have "(unat ?n - 1) div 1000 + 1 = (unat ?n + 999) div 1000"
      using pos by (rule ceil_div_eq)
    ultimately show ?thesis using True by simp
  next
    case False
    then have "unat ?n = 0" by (simp add: u64_pos_iff)
    then show ?thesis using False by simp
  qed
  have "compute_fee c a = base_fee_millisatoshi c + ?p" by (simp add: compute_fee_def Let_def)
  then show ?thesis
    using assms(2) by (simp add: unat_add64 p n fee_nat_def)
qed

text \<open>The arithmetic of both fees, with \<open>x\<close> for the scaled amount times the rate and \<open>y\<close> for the rest.\<close>

lemma fee_split:
  obtains x y where "(a div 1000) * p = x" and "a mod 1000 * p = (y :: nat)"
    and "a * p = 1000 * x + y"
proof
  have "a * p = (a div 1000 * 1000 + a mod 1000) * p" by (simp only: div_mult_mod_eq)
  then show "a * p = 1000 * (a div 1000 * p) + a mod 1000 * p"
    by (simp only: add_mult_distrib mult.assoc mult.left_commute)
qed simp_all

lemma less_Suc_div: "(n :: nat) < (n div d + 1) * d" if "0 < d"
  using dividend_less_div_times [OF that, of n] by simp

lemma fee_arith_ge:
  assumes "y < 1000000"
  shows "(1000 * x + y) div 1000000 \<le> (x + 999) div (1000 :: nat)"
proof -
  define k where "k = (x + 999) div 1000"
  have "x + 999 < (k + 1) * 1000" unfolding k_def by (rule less_Suc_div) simp
  then have "1000 * x + y < (k + 1) * 1000000" using assms by simp
  then have "(1000 * x + y) div 1000000 < k + 1" by (rule less_mult_imp_div_less)
  then show ?thesis by (simp add: k_def)
qed

lemma fee_arith_le: "(x + 999) div (1000 :: nat) \<le> (1000 * x + y) div 1000000 + 1"
proof -
  define m where "m = (1000 * x + y) div 1000000"
  have "1000 * x + y < (m + 1) * 1000000" unfolding m_def by (rule less_Suc_div) simp
  then have "x + 999 < (m + 2) * 1000" by simp
  then have "(x + 999) div 1000 < m + 2" by (rule less_mult_imp_div_less)
  then show ?thesis by (simp add: m_def)
qed

lemma fee_nat_ge_bolt7:
  assumes "(a mod 1000) * unat (fee_per_millionth c) < 1000000"
  shows "bolt7_fee c a \<le> fee_nat c a"
proof -
  obtain x y where "(a div 1000) * unat (fee_per_millionth c) = x"
    and "a mod 1000 * unat (fee_per_millionth c) = y"
    and "a * unat (fee_per_millionth c) = 1000 * x + y"
    by (rule fee_split)
  then show ?thesis using assms fee_arith_ge [of y x] by (simp add: bolt7_fee_def fee_nat_def)
qed

lemma fee_nat_le_bolt7: "fee_nat c a \<le> bolt7_fee c a + 1"
proof -
  obtain x y where "(a div 1000) * unat (fee_per_millionth c) = x"
    and "a mod 1000 * unat (fee_per_millionth c) = y"
    and "a * unat (fee_per_millionth c) = 1000 * x + y"
    by (rule fee_split)
  then show ?thesis using fee_arith_le [of x y] by (simp add: bolt7_fee_def fee_nat_def)
qed

lemma fee_nat_shortfall:
  assumes "1000 dvd (a div 1000) * unat (fee_per_millionth c)"
  shows "fee_nat c a + (a mod 1000) * unat (fee_per_millionth c) div 1000000 = bolt7_fee c a"
proof -
  obtain x y where xy: "(a div 1000) * unat (fee_per_millionth c) = x"
    "a mod 1000 * unat (fee_per_millionth c) = y"
    "a * unat (fee_per_millionth c) = 1000 * x + y"
    by (rule fee_split)
  from assms xy obtain z where "x = 1000 * z" by auto
  moreover have "(1000 * (1000 * z) + y) div 1000000 = z + y div 1000000"
    by (simp add: div_mult_self2 mult.assoc [symmetric])
  ultimately show ?thesis using xy by (simp add: bolt7_fee_def fee_nat_def)
qed

section \<open>Properties\<close>

text \<open>C30. The fee that the path finder computes is exactly the base fee plus the proportional fee
  rounded up; for a rate of at most 1001 ppm it is never below the fee that a forwarding node asks for
  under BOLT 7, and it is never more than 1 msat above it.\<close>

theorem compute_fee_covers_bolt7:
  assumes "(unat a div 1000) * unat (fee_per_millionth c) < 2 ^ 64"
    and "fee_nat c (unat a) < 2 ^ 64"
    and "unat (fee_per_millionth c) \<le> 1001"
  shows "unat (compute_fee c a) = fee_nat c (unat a)
    \<and> bolt7_fee c (unat a) \<le> unat (compute_fee c a)
    \<and> unat (compute_fee c a) \<le> bolt7_fee c (unat a) + 1"
proof -
  have "(unat a mod 1000) * unat (fee_per_millionth c) \<le> 999 * 1001"
    using assms(3) by (intro mult_le_mono) auto
  then have "bolt7_fee c (unat a) \<le> fee_nat c (unat a)" by (intro fee_nat_ge_bolt7) simp
  with fee_nat_le_bolt7 [of c "unat a"] compute_fee_unat [OF assms(1,2)] show ?thesis by simp
qed

definition sample_gl :: gl_channel where
  "sample_gl = \<lparr>chan_source = ''02aa'', chan_destination = ''03bb'', short_channel_id = ''1x1x1'',
     satoshis = 1000000, is_active = True, last_update = 1660000000, base_fee_millisatoshi = 1000,
     fee_per_millionth = 500, chan_delay = 40, htlc_minimum_millisatoshis = ''1000msat'',
     htlc_maximum_millisatoshis = ''990000000msat''\<rparr>"

theorem compute_fee_covers_bolt7_witness:
  "unat (compute_fee sample_gl 200000999) = 101000
   \<and> bolt7_fee sample_gl 200000999 \<le> unat (compute_fee sample_gl 200000999)"
  using compute_fee_covers_bolt7 [of 200000999 sample_gl]
  by (simp add: sample_gl_def fee_nat_def)

text \<open>C38. When the rate divides evenly, the fee falls short of the BOLT 7 fee by the share of the last
  three digits of the amount, which the code drops before it multiplies: above 1001 ppm a route can pay a
  forwarding node less than it asks for.\<close>

theorem compute_fee_shortfall:
  assumes "(unat a div 1000) * unat (fee_per_millionth c) < 2 ^ 64"
    and "fee_nat c (unat a) < 2 ^ 64"
    and "1000 dvd (unat a div 1000) * unat (fee_per_millionth c)"
  shows "unat (compute_fee c a) + (unat a mod 1000) * unat (fee_per_millionth c) div 1000000
    = bolt7_fee c (unat a)"
  using compute_fee_unat [OF assms(1,2)] fee_nat_shortfall [OF assms(3)] by simp

theorem compute_fee_shortfall_witness:
  "unat (compute_fee (sample_gl\<lparr>fee_per_millionth := 5000\<rparr>) 200000999) + 4
     = bolt7_fee (sample_gl\<lparr>fee_per_millionth := 5000\<rparr>) 200000999"
  using compute_fee_shortfall [of 200000999 "sample_gl\<lparr>fee_per_millionth := 5000\<rparr>"]
  by (simp add: sample_gl_def fee_nat_def)

end
