(* ===== verification/Graph.thy ===== *)
theory Graph
  imports Channel
begin

text \<open>
  \<^verbatim>\<open>graph/graph.go\<close> and \<^verbatim>\<open>graph/stats.go\<close>: the gossip graph. \<^verbatim>\<open>Channels\<close> maps a channel id
  (\<^verbatim>\<open>scid/direction\<close>) to the channel, \<^verbatim>\<open>Inbound[d][s]\<close> lists the scids of the channels from \<open>s\<close> to \<open>d\<close>. The
  three locks are not modelled: every operation below runs under the write lock of what it writes, so the
  operations are atomic steps on the graph. The current time and the visiting order of a \<^verbatim>\<open>range\<close> loop are
  arguments.
\<close>

section \<open>State\<close>

type_synonym links = "string \<rightharpoonup> (string \<rightharpoonup> string list)"

record graph =
  channels :: "string \<rightharpoonup> channel"
  inbound :: links
  aliases :: "string \<rightharpoonup> string"

definition new_graph :: graph where
  "new_graph = \<lparr>channels = Map.empty, inbound = Map.empty, aliases = Map.empty\<rparr>"

definition pruning_interval :: u64 where
  "pruning_interval = 1209600"

section \<open>Operations\<close>

definition allocate :: "links \<Rightarrow> string \<Rightarrow> string \<Rightarrow> links" where
  "allocate links frm to =
     (let links = (case links frm of None \<Rightarrow> links(frm \<mapsto> Map.empty) | Some _ \<Rightarrow> links);
          inner = go_get Map.empty links frm
      in case inner to of None \<Rightarrow> links(frm \<mapsto> inner(to \<mapsto> [])) | Some _ \<Rightarrow> links)"

definition fill_htlc :: "channel \<Rightarrow> channel" where
  "fill_htlc c =
     (let c = (if max_htlc_msat c = 0
               then c\<lparr>max_htlc_msat := parse_msat (htlc_maximum_millisatoshis c)\<rparr> else c)
      in if min_htlc_msat c = 0
         then c\<lparr>min_htlc_msat := parse_msat (htlc_minimum_millisatoshis c)\<rparr> else c)"

text \<open>\<^verbatim>\<open>AddChannel\<close> writes the graph and the channel it is given.\<close>

definition add_channel :: "graph \<Rightarrow> channel \<Rightarrow> graph \<times> channel" where
  "add_channel g c =
     (let links = allocate (inbound g) (chan_destination c) (chan_source c);
          inner = go_get Map.empty links (chan_destination c);
          edge = go_get [] inner (chan_source c)
      in (g\<lparr>inbound := links(chan_destination c \<mapsto>
              inner(chan_source c \<mapsto> edge @ [short_channel_id c]))\<rparr>,
          fill_htlc c))"

definition refresh_channel :: "gl_channel \<Rightarrow> graph \<Rightarrow> graph" where
  "refresh_channel c g =
     (let cid = channel_id c
      in case channels g cid of
           None \<Rightarrow>
             (let (g', ch) = add_channel g (new_channel c (half_capacity c) 0)
              in g'\<lparr>channels := (channels g')(cid \<mapsto> ch)\<rparr>)
         | Some old \<Rightarrow>
             g\<lparr>channels := (channels g)(cid \<mapsto> new_channel c (liquidity old) (timestamp old))\<rparr>)"

definition refresh_channels :: "gl_channel list \<Rightarrow> graph \<Rightarrow> graph" where
  "refresh_channels cs g = fold refresh_channel cs g"

text \<open>The library's node entries are pairs of an id and an alias.\<close>

definition refresh_aliases :: "(string \<times> string) list \<Rightarrow> graph \<Rightarrow> graph" where
  "refresh_aliases ns g = fold (\<lambda>(i, a) g. g\<lparr>aliases := (aliases g)(i \<mapsto> a)\<rparr>) ns g"

fun find_scid :: "'a \<Rightarrow> 'a list \<Rightarrow> nat option" where
  "find_scid scid [] = None"
| "find_scid scid (e # es) =
     (if e = scid then Some 0 else map_option Suc (find_scid scid es))"

definition remove_at :: "'a list \<Rightarrow> nat \<Rightarrow> 'a list" where
  "remove_at s i = take (length s - 1) (s[i := s ! (length s - 1)])"

definition delete_channel :: "graph \<Rightarrow> channel \<Rightarrow> graph" where
  "delete_channel g c =
     (let g1 = g\<lparr>channels := (channels g)(channel_id c := None)\<rparr>;
          inner = go_get Map.empty (inbound g1) (chan_destination c);
          edge = go_get [] inner (chan_source c)
      in case find_scid (short_channel_id c) edge of
           None \<Rightarrow> g1
         | Some i \<Rightarrow> g1\<lparr>inbound := (inbound g1)(chan_destination c \<mapsto>
                        inner(chan_source c \<mapsto> remove_at edge i))\<rparr>)"

text \<open>\<open>ks\<close> is the visiting order; an entry that was deleted before it is reached is not visited.\<close>

definition prune_channels :: "string list \<Rightarrow> u64 \<Rightarrow> graph \<Rightarrow> graph" where
  "prune_channels ks now g =
     fold (\<lambda>k g. case channels g k of
              None \<Rightarrow> g
            | Some c \<Rightarrow> if last_update c + pruning_interval < now then delete_channel g c else g)
       ks g"

definition get_alias :: "graph \<Rightarrow> string \<Rightarrow> string" where
  "get_alias g nid = (case aliases g nid of Some alias \<Rightarrow> alias | None \<Rightarrow> nid)"

definition update_channel :: "string \<Rightarrow> string \<Rightarrow> u64 \<Rightarrow> int \<Rightarrow> graph \<Rightarrow> graph" where
  "update_channel cid opposite amount now g =
     (let g1 = (case channels g cid of
                  None \<Rightarrow> g
                | Some c \<Rightarrow> g\<lparr>channels := (channels g)(cid \<mapsto>
                              c\<lparr>liquidity := amount, timestamp := now\<rparr>)\<rparr>)
      in case channels g1 opposite of
           None \<Rightarrow> g1
         | Some c \<Rightarrow> g1\<lparr>channels := (channels g1)(opposite \<mapsto>
                       c\<lparr>liquidity := satoshis c * 1000 - amount, timestamp := now\<rparr>)\<rparr>)"

definition get_channel :: "graph \<Rightarrow> string \<Rightarrow> channel res" where
  "get_channel g cid = (case channels g cid of None \<Rightarrow> Err ErrNoChannel | Some c \<Rightarrow> Ok c)"

text \<open>\<open>clk k\<close> is the time that \<^verbatim>\<open>ResetLiquidity\<close> reads when it resets the channel \<open>k\<close>.\<close>

definition refresh_liquidity ::
  "string list \<Rightarrow> int \<Rightarrow> int \<Rightarrow> (string \<Rightarrow> int) \<Rightarrow> graph \<Rightarrow> graph \<times> nat" where
  "refresh_liquidity ks threshold now clk g =
     fold (\<lambda>k (g, hits). case channels g k of
              None \<Rightarrow> (g, hits)
            | Some c \<Rightarrow>
                if go_int (timestamp c + threshold) < now
                then (g\<lparr>channels := (channels g)(k \<mapsto> reset_liquidity (clk k) c)\<rparr>, Suc hits)
                else (g, hits))
       ks (g, 0)"

section \<open>Statistics\<close>

record stats =
  st_nodes :: nat
  st_channels :: nat
  st_active_channels :: nat
  st_liquid_channels :: nat
  st_max_htlc_channels :: nat

text \<open>\<open>ns\<close> and \<open>ks\<close> enumerate the nodes of \<^verbatim>\<open>Inbound\<close> and the channel ids.\<close>

definition get_stats :: "string list \<Rightarrow> string list \<Rightarrow> graph \<Rightarrow> stats" where
  "get_stats ns ks g =
     (let cs = get_map_values ks (channels g)
      in \<lparr>st_nodes = length ns, st_channels = length ks,
          st_active_channels = length (filter is_active cs),
          st_liquid_channels = length (filter (\<lambda>c. liquidity c \<ge> 200000000) cs),
          st_max_htlc_channels =
            length (filter (\<lambda>c. parse_msat (htlc_maximum_millisatoshis c) \<ge> 200000000) cs)\<rparr>)"

definition newline :: string where
  "newline = [CHR 0x0A]"

definition stats_string :: "stats \<Rightarrow> string" where
  "stats_string s =
     ''Graph stats:'' @ newline
     @ ''graph has '' @ dec (st_nodes s) @ '' nodes'' @ newline
     @ ''graph has '' @ dec (st_channels s) @ '' channels'' @ newline
     @ ''graph has '' @ dec (st_active_channels s) @ '' active channels'' @ newline
     @ ''graph has '' @ dec (st_liquid_channels s)
     @ '' channels believed to have at least 200k liquidity'' @ newline
     @ ''graph has '' @ dec (st_max_htlc_channels s) @ '' channels with at least 200k max htlc''"

section \<open>The invariant that ties the two maps together\<close>

definition edge_of :: "links \<Rightarrow> string \<Rightarrow> string \<Rightarrow> string list" where
  "edge_of l d s = go_get [] (go_get Map.empty l d) s"

definition chan_between :: "graph \<Rightarrow> string \<Rightarrow> string \<Rightarrow> string \<Rightarrow> bool" where
  "chan_between g d s scid =
     (case channels g (channel_key scid s d) of
        None \<Rightarrow> False | Some c \<Rightarrow> chan_source c = s \<and> chan_destination c = d)"

text \<open>
  The funding transaction fixes the two ends and the capacity of a channel: \<open>ends\<close> maps a channel id to
  them, and every gossip message about the channel agrees with it.
\<close>

definition gossip_ok :: "(string \<Rightarrow> string \<times> string \<times> u64) \<Rightarrow> 'a gl_channel_scheme \<Rightarrow> bool" where
  "gossip_ok ends c \<longleftrightarrow> ends (channel_id c) = (chan_source c, chan_destination c, satoshis c)"

definition graph_ok :: "(string \<Rightarrow> string \<times> string \<times> u64) \<Rightarrow> graph \<Rightarrow> bool" where
  "graph_ok ends g \<longleftrightarrow>
     (\<forall>cid c. channels g cid = Some c \<longrightarrow> cid = channel_id c \<and> gossip_ok ends c) \<and>
     (\<forall>d s scid. count (mset (edge_of (inbound g) d s)) scid = (if chan_between g d s scid then 1 else 0))"

text \<open>No channel is believed to hold more than its capacity.\<close>

definition liquidity_ok :: "graph \<Rightarrow> bool" where
  "liquidity_ok g \<longleftrightarrow> (\<forall>cid c. channels g cid = Some c \<longrightarrow> liquidity c \<le> satoshis c * 1000)"

lemma edge_of_upd:
  "edge_of (l(d \<mapsto> (go_get Map.empty l d)(s \<mapsto> es))) d' s' =
     (if d' = d \<and> s' = s then es else edge_of l d' s')"
  by (simp add: edge_of_def)

lemma allocate_edge [simp]: "edge_of (allocate l d s) d' s' = edge_of l d' s'"
  by (auto simp: edge_of_def allocate_def Let_def go_get_def split: option.splits)

lemma fill_htlc_simps [simp]:
  "channel_id (fill_htlc c) = channel_id c" "gossip_ok ends (fill_htlc c) = gossip_ok ends c"
  "chan_source (fill_htlc c) = chan_source c" "chan_destination (fill_htlc c) = chan_destination c"
  "liquidity (fill_htlc c) = liquidity c" "satoshis (fill_htlc c) = satoshis c"
  "timestamp (fill_htlc c) = timestamp c" "last_update (fill_htlc c) = last_update c"
  by (simp_all add: fill_htlc_def Let_def gossip_ok_def channel_id_def)

lemma fill_htlc_new_channel [simp]: "fill_htlc (new_channel c lq ts) = new_channel c lq ts"
  by (simp add: fill_htlc_def Let_def)

lemma gossip_ok_new_channel [simp]: "gossip_ok ends (new_channel c lq ts) = gossip_ok ends c"
  by (simp add: gossip_ok_def channel_id_def)

lemma gossip_ok_upd [simp]:
  "gossip_ok ends (c\<lparr>liquidity := x\<rparr>) = gossip_ok ends c"
  "gossip_ok ends (c\<lparr>timestamp := y\<rparr>) = gossip_ok ends c"
  by (simp_all add: gossip_ok_def channel_id_def)

lemma add_channel_edge:
  "edge_of (inbound (fst (add_channel g c))) d s =
     edge_of (inbound g) d s
       @ (if d = chan_destination c \<and> s = chan_source c then [short_channel_id c] else [])"
proof -
  have "edge_of (allocate (inbound g) (chan_destination c) (chan_source c)) d s = edge_of (inbound g) d s"
    by simp
  then show ?thesis
    by (auto simp: add_channel_def Let_def edge_of_upd edge_of_def)
qed

lemma add_channel_frame [simp]:
  "channels (fst (add_channel g c)) = channels g" "aliases (fst (add_channel g c)) = aliases g"
  "snd (add_channel g c) = fill_htlc c"
  by (simp_all add: add_channel_def Let_def)

lemma graph_okD:
  assumes "graph_ok ends g"
  shows "channels g cid = Some c \<Longrightarrow> cid = channel_id c"
    and "channels g cid = Some c \<Longrightarrow> gossip_ok ends c"
    and "count (mset (edge_of (inbound g) d s)) scid = (if chan_between g d s scid then 1 else 0)"
  using assms by (auto simp: graph_ok_def)

lemma same_channel_same_ends:
  assumes "gossip_ok ends c" and "gossip_ok ends c'" and "channel_id c = channel_id c'"
  shows "chan_source c = chan_source c' \<and> chan_destination c = chan_destination c' \<and> satoshis c = satoshis c'
     \<and> short_channel_id c = short_channel_id c'"
proof -
  have "(chan_source c, chan_destination c, satoshis c) = (chan_source c', chan_destination c', satoshis c')"
    using assms by (simp add: gossip_ok_def)
  moreover have "short_channel_id c = short_channel_id c'"
    using assms(3) by (simp add: channel_id_def)
  ultimately show ?thesis by simp
qed

text \<open>An scid is in the adjacency list exactly when the channel it names exists and joins these nodes.\<close>

lemma edge_channel:
  assumes "graph_ok ends g" and "scid \<in> set (edge_of (inbound g) d s)"
  obtains c where "channels g (channel_key scid s d) = Some c"
    and "chan_source c = s" and "chan_destination c = d" and "short_channel_id c = scid"
proof -
  have "0 < count (mset (edge_of (inbound g) d s)) scid" using assms(2) by simp
  then have "chan_between g d s scid" using graph_okD(3) [OF assms(1)] by (simp split: if_splits)
  then obtain c where c: "channels g (channel_key scid s d) = Some c" "chan_source c = s"
    "chan_destination c = d" by (auto simp: chan_between_def split: option.splits)
  moreover have "channel_key scid s d = channel_id c" using graph_okD(1) [OF assms(1) c(1)] .
  ultimately show ?thesis using that by (auto simp: channel_id_def)
qed

lemma graph_ok_new: "graph_ok ends new_graph"
  by (auto simp: graph_ok_def new_graph_def edge_of_def chan_between_def)

lemma channel_key_id:
  "channel_key scid s d = channel_id c \<longleftrightarrow>
     scid = short_channel_id c \<and> get_direction s d = get_direction (chan_source c) (chan_destination c)"
  by (simp add: channel_id_def)

text \<open>Replacing a channel by one with the same ends keeps the invariant; it is used by every in-place update.\<close>

lemma graph_ok_replace:
  assumes ok: "graph_ok ends g" and old: "channels g cid = Some c"
    and new: "gossip_ok ends c'" "channel_id c' = cid"
  shows "graph_ok ends (g\<lparr>channels := (channels g)(cid \<mapsto> c')\<rparr>)"
proof -
  have ends: "chan_source c' = chan_source c" "chan_destination c' = chan_destination c"
    using same_channel_same_ends [OF new(1) graph_okD(2) [OF ok old]] new(2) graph_okD(1) [OF ok old]
    by auto
  have "chan_between (g\<lparr>channels := (channels g)(cid \<mapsto> c')\<rparr>) d s scid = chan_between g d s scid"
    for d s scid using ends old by (auto simp: chan_between_def)
  then show ?thesis using ok new by (auto simp: graph_ok_def)
qed

lemma graph_ok_refresh_channel:
  assumes ok: "graph_ok ends g" and c: "gossip_ok ends c"
  shows "graph_ok ends (refresh_channel c g)"
proof (cases "channels g (channel_id c)")
  case None
  let ?n = "new_channel c (half_capacity c) 0"
  let ?g = "fst (add_channel g ?n)\<lparr>channels := (channels g)(channel_id c \<mapsto> ?n)\<rparr>"
  have eq: "refresh_channel c g = ?g"
    using None by (simp add: refresh_channel_def Let_def split_def)
  have "chan_between ?g d s scid =
      (chan_between g d s scid \<or> d = chan_destination c \<and> s = chan_source c \<and> scid = short_channel_id c)"
    for d s scid
    using None
    by (cases "channel_key scid s d = channel_id c") (auto simp: chan_between_def channel_id_def [symmetric],
      auto simp: channel_id_def)
  moreover have "\<not> chan_between g (chan_destination c) (chan_source c) (short_channel_id c)"
    using None by (simp add: chan_between_def channel_id_def)
  ultimately have "count (mset (edge_of (inbound ?g) d s)) scid = (if chan_between ?g d s scid then 1 else 0)"
    for d s scid using graph_okD(3) [OF ok] by (auto simp: add_channel_edge)
  then show ?thesis unfolding eq using ok c by (auto simp: graph_ok_def)
next
  case (Some old)
  then show ?thesis
    using graph_ok_replace [OF ok Some] c by (simp add: refresh_channel_def Let_def)
qed

lemma graph_ok_refresh_channels:
  "graph_ok ends g \<Longrightarrow> (\<And>c. c \<in> set cs \<Longrightarrow> gossip_ok ends c) \<Longrightarrow>
     graph_ok ends (refresh_channels cs g)"
  unfolding refresh_channels_def
  by (induction cs arbitrary: g) (auto intro: graph_ok_refresh_channel)

lemma graph_ok_case_replace:
  assumes "graph_ok ends g"
    and "\<And>c. channels g cid = Some c \<Longrightarrow> gossip_ok ends c \<Longrightarrow> cid = channel_id c \<Longrightarrow>
      gossip_ok ends (f c) \<and> channel_id (f c) = cid"
  shows "graph_ok ends (case channels g cid of None \<Rightarrow> g
    | Some c \<Rightarrow> g\<lparr>channels := (channels g)(cid \<mapsto> f c)\<rparr>)"
proof (cases "channels g cid")
  case None
  then show ?thesis using assms(1) by simp
next
  case (Some c)
  have "gossip_ok ends (f c) \<and> channel_id (f c) = cid"
    using graph_okD(1,2) [OF assms(1) Some] by (intro assms(2) Some)
  then show ?thesis using graph_ok_replace [OF assms(1) Some] Some by simp
qed

lemma graph_ok_update_channel:
  "graph_ok ends g \<Longrightarrow> graph_ok ends (update_channel cid opposite amount now g)"
  unfolding update_channel_def Let_def
  by (intro graph_ok_case_replace) simp_all

subsection \<open>Deleting\<close>

lemma find_scid_Some:
  "find_scid scid es = Some i \<Longrightarrow> i < length es \<and> es ! i = scid"
  by (induction es arbitrary: i) (auto split: if_splits)

lemma find_scid_None: "find_scid scid es = None \<longleftrightarrow> scid \<notin> set es"
  by (induction es) auto

text \<open>The swap with the last entry removes exactly one occurrence.\<close>

lemma mset_remove_at:
  assumes "i < length es"
  shows "mset (remove_at es i) = mset es - {#es ! i#}"
proof -
  let ?n = "length es - 1"
  let ?l = "es[i := es ! ?n]"
  have n: "?n < length es" using assms by simp
  then have last: "?l ! ?n = es ! ?n" using assms by (simp add: nth_list_upd)
  have "?l = take ?n ?l @ [?l ! ?n]"
    using n by (metis Suc_diff_1 length_greater_0_conv length_list_update list.size(3) not_less0
        order_refl take_Suc_conv_app_nth take_all)
  then have "mset ?l = add_mset (?l ! ?n) (mset (take ?n ?l))"
    by (metis mset.simps(1) mset.simps(2) mset_append union_mset_add_mset_right add.right_neutral)
  moreover have "mset ?l = add_mset (es ! ?n) (mset es - {#es ! i#})"
    using assms by (simp add: mset_update)
  ultimately show ?thesis using last by (simp add: remove_at_def)
qed

lemma delete_channel_channels [simp]:
  "channels (delete_channel g c) = (channels g)(channel_id c := None)"
  by (simp add: delete_channel_def Let_def split: option.split)

lemma delete_channel_edge:
  "mset (edge_of (inbound (delete_channel g c)) d s) =
     mset (edge_of (inbound g) d s) -
       (if d = chan_destination c \<and> s = chan_source c then {#short_channel_id c#} else {#})"
proof (cases "find_scid (short_channel_id c) (edge_of (inbound g) (chan_destination c) (chan_source c))")
  case None
  then have "short_channel_id c \<notin> set (edge_of (inbound g) (chan_destination c) (chan_source c))"
    by (simp add: find_scid_None)
  with None show ?thesis
    by (auto simp: delete_channel_def Let_def edge_of_def)
next
  case (Some i)
  have "inbound (delete_channel g c) = (inbound g)(chan_destination c \<mapsto>
      (go_get Map.empty (inbound g) (chan_destination c))(chan_source c \<mapsto>
        remove_at (edge_of (inbound g) (chan_destination c) (chan_source c)) i))"
    using Some by (simp add: delete_channel_def Let_def edge_of_def)
  then show ?thesis
    using find_scid_Some [OF Some] by (auto simp: edge_of_upd mset_remove_at)
qed

lemma graph_ok_delete:
  assumes ok: "graph_ok ends g" and c: "channels g (channel_id c) = Some c"
  shows "graph_ok ends (delete_channel g c)"
proof -
  have bet: "chan_between (delete_channel g c) d s scid =
      (chan_between g d s scid \<and> \<not> (d = chan_destination c \<and> s = chan_source c \<and> scid = short_channel_id c))"
    for d s scid
  proof (cases "channel_key scid s d = channel_id c")
    case True
    then have "scid = short_channel_id c" by (simp add: channel_id_def)
    with True show ?thesis using c by (auto simp: chan_between_def)
  next
    case False
    then have "\<not> (d = chan_destination c \<and> s = chan_source c \<and> scid = short_channel_id c)"
      by (auto simp: channel_id_def)
    with False show ?thesis by (simp add: chan_between_def)
  qed
  have one: "chan_between g (chan_destination c) (chan_source c) (short_channel_id c)"
    using c by (simp add: chan_between_def channel_id_def)
  have "count (mset (edge_of (inbound (delete_channel g c)) d s)) scid =
      (if chan_between (delete_channel g c) d s scid then 1 else 0)" for d s scid
    using graph_okD(3) [OF ok, of d s scid] one by (auto simp: delete_channel_edge bet)
  then show ?thesis using ok by (auto simp: graph_ok_def)
qed

definition prune_step :: "u64 \<Rightarrow> string \<Rightarrow> graph \<Rightarrow> graph" where
  "prune_step now k g = (case channels g k of
     None \<Rightarrow> g
   | Some c \<Rightarrow> if last_update c + pruning_interval < now then delete_channel g c else g)"

lemma prune_channels_fold: "prune_channels ks now g = fold (prune_step now) ks g"
  by (simp add: prune_channels_def prune_step_def [abs_def])

lemma prune_step_ok:
  assumes "graph_ok ends g"
  shows "graph_ok ends (prune_step now k g)"
proof (cases "channels g k")
  case (Some c)
  then have "channels g (channel_id c) = Some c" using graph_okD(1) [OF assms Some] by simp
  with Some show ?thesis using assms graph_ok_delete by (simp add: prune_step_def)
qed (simp add: prune_step_def assms)

lemma prune_step_channels:
  assumes "graph_ok ends g"
  shows "channels (prune_step now k g) = (channels g)(k := (case channels g k of
     None \<Rightarrow> None | Some c \<Rightarrow> if last_update c + pruning_interval < now then None else Some c))"
  using graph_okD(1) [OF assms, of k] by (auto simp: prune_step_def split: option.split)

lemma prune_fold:
  "graph_ok ends g \<Longrightarrow> graph_ok ends (fold (prune_step now) ks g) \<and>
     channels (fold (prune_step now) ks g) k = (if k \<in> set ks then (case channels g k of
        None \<Rightarrow> None | Some c \<Rightarrow> if last_update c + pruning_interval < now then None else Some c)
      else channels g k)"
proof (induction ks arbitrary: g)
  case Nil
  then show ?case by simp
next
  case (Cons x ks)
  have "graph_ok ends (prune_step now x g)" using Cons.prems by (rule prune_step_ok)
  from Cons.IH [OF this] show ?case
    by (auto simp: prune_step_channels [OF Cons.prems] split: option.splits if_splits)
qed

subsection \<open>Resetting stale beliefs\<close>

definition stale :: "int \<Rightarrow> int \<Rightarrow> channel \<Rightarrow> bool" where
  "stale threshold now c \<longleftrightarrow> go_int (timestamp c + threshold) < now"

definition liquidity_step :: "int \<Rightarrow> int \<Rightarrow> (string \<Rightarrow> int) \<Rightarrow> string \<Rightarrow> graph \<times> nat \<Rightarrow> graph \<times> nat" where
  "liquidity_step threshold now clk k gh = (case gh of (g, hits) \<Rightarrow> (case channels g k of
      None \<Rightarrow> (g, hits)
    | Some c \<Rightarrow>
        if go_int (timestamp c + threshold) < now
        then (g\<lparr>channels := (channels g)(k \<mapsto> reset_liquidity (clk k) c)\<rparr>, Suc hits)
        else (g, hits)))"

lemma refresh_liquidity_fold:
  "refresh_liquidity ks threshold now clk g = fold (liquidity_step threshold now clk) ks (g, 0)"
  unfolding refresh_liquidity_def liquidity_step_def [abs_def] by (rule refl)

lemma reset_liquidity_simps [simp]:
  "channel_id (reset_liquidity t c) = channel_id c"
  "gossip_ok ends (reset_liquidity t c) = gossip_ok ends c"
  "liquidity (reset_liquidity t c) = half_capacity c"
  "satoshis (reset_liquidity t c) = satoshis c" "timestamp (reset_liquidity t c) = t"
  by (simp_all add: reset_liquidity_def)

lemma half_capacity_le: "half_capacity c \<le> satoshis c * 1000"
  unfolding half_capacity_def by (rule mul_trunc_half_le)

lemma liquidity_step_ok:
  assumes "graph_ok ends g"
  shows "graph_ok ends (fst (liquidity_step threshold now clk k (g, h)))"
proof (cases "channels g k")
  case (Some c)
  then show ?thesis
    using graph_ok_replace [OF assms Some, of "reset_liquidity (clk k) c"] graph_okD(1,2) [OF assms Some] assms
    by (simp add: liquidity_step_def)
qed (simp add: liquidity_step_def assms)

lemma liquidity_step_eq:
  "liquidity_step threshold now clk k (g, h) =
     (g\<lparr>channels := (channels g)(k := map_option
         (\<lambda>c. if stale threshold now c then reset_liquidity (clk k) c else c) (channels g k))\<rparr>,
      h + (case channels g k of None \<Rightarrow> 0 | Some c \<Rightarrow> if stale threshold now c then 1 else 0))"
  by (auto simp: liquidity_step_def stale_def fun_upd_idem split: option.split)

lemma liquidity_fold:
  "distinct ks \<Longrightarrow>
   channels (fst (fold (liquidity_step threshold now clk) ks (g, h))) k =
     (if k \<in> set ks then map_option
        (\<lambda>c. if stale threshold now c then reset_liquidity (clk k) c else c) (channels g k)
      else channels g k)
   \<and> snd (fold (liquidity_step threshold now clk) ks (g, h)) =
       h + length (filter (stale threshold now) (get_map_values ks (channels g)))"
proof (induction ks arbitrary: g h)
  case Nil
  then show ?case by simp
next
  case (Cons x ks)
  have frame: "get_map_values ks (m(x := v)) = get_map_values ks m" for m :: "string \<rightharpoonup> channel" and v
  proof -
    have "x \<notin> set ks" using Cons.prems by simp
    then show ?thesis by (induction ks) (auto split: option.splits)
  qed
  show ?case
    using Cons by (auto simp: liquidity_step_eq frame split: option.splits)
qed

lemma liquidity_fold_ok:
  "graph_ok ends g \<Longrightarrow> graph_ok ends (fst (fold (liquidity_step threshold now clk) ks (g, h)))"
proof (induction ks arbitrary: g h)
  case (Cons k ks)
  obtain g' h' where eq: "liquidity_step threshold now clk k (g, h) = (g', h')" by fastforce
  with liquidity_step_ok [OF Cons.prems, of threshold now clk k h] have "graph_ok ends g'" by simp
  then show ?case using Cons.IH [of g' h'] by (simp add: eq)
qed simp

section \<open>A graph that was saved and loaded\<close>

text \<open>
  Only the channels are written to the graph file, and of a channel not the two parsed limits: the other fields are
  not exported or excluded from the JSON. After loading, \<^verbatim>\<open>LoadGraphFromFile\<close> adds every channel to the empty
  adjacency list, in the order \<open>ks\<close> of the map.
\<close>

definition stored :: "channel \<Rightarrow> channel" where
  "stored c = c\<lparr>max_htlc_msat := 0, min_htlc_msat := 0\<rparr>"

definition stored_graph :: "graph \<Rightarrow> graph" where
  "stored_graph g = \<lparr>channels = map_option stored \<circ> channels g, inbound = Map.empty, aliases = Map.empty\<rparr>"

definition rebuild_step :: "string \<Rightarrow> graph \<Rightarrow> graph" where
  "rebuild_step k g = (case channels g k of
     None \<Rightarrow> g
   | Some c \<Rightarrow> (let (g', c') = add_channel g c in g'\<lparr>channels := (channels g')(k \<mapsto> c')\<rparr>))"

definition rebuild :: "string list \<Rightarrow> graph \<Rightarrow> graph" where
  "rebuild ks g = fold rebuild_step ks g"

lemma stored_simps [simp]:
  "channel_id (stored c) = channel_id c" "gossip_ok ends (stored c) = gossip_ok ends c"
  "chan_source (stored c) = chan_source c" "chan_destination (stored c) = chan_destination c"
  "short_channel_id (stored c) = short_channel_id c" "liquidity (stored c) = liquidity c" "satoshis (stored c) = satoshis c"
  "timestamp (stored c) = timestamp c" "last_update (stored c) = last_update c"
  by (simp_all add: stored_def gossip_ok_def)

lemma fill_htlc_scid [simp]: "short_channel_id (fill_htlc c) = short_channel_id c"
  by (simp add: fill_htlc_def Let_def)

lemma rebuild_step_channels:
  "channels (rebuild_step k g) = (case channels g k of None \<Rightarrow> channels g | Some c \<Rightarrow> (channels g)(k \<mapsto> fill_htlc c))"
  by (simp add: rebuild_step_def split_def Let_def add_channel_def split: option.split)

lemma rebuild_step_aliases [simp]: "aliases (rebuild_step k g) = aliases g"
  by (simp add: rebuild_step_def split_def Let_def split: option.split)

lemma rebuild_aliases [simp]: "aliases (rebuild ks g) = aliases g"
  unfolding rebuild_def by (induction ks arbitrary: g) simp_all

lemma rebuild_channels:
  "distinct ks \<Longrightarrow> channels (rebuild ks g) cid =
     map_option (\<lambda>c. if cid \<in> set ks then fill_htlc c else c) (channels g cid)"
  unfolding rebuild_def
proof (induction ks arbitrary: g)
  case (Cons k ks)
  have "channels (rebuild_step k g) cid = map_option (\<lambda>c. if cid = k then fill_htlc c else c) (channels g cid)"
    by (cases "channels g k"; cases "cid = k"; cases "channels g cid") (auto simp: rebuild_step_channels)
  then show ?case using Cons by (cases "channels g cid") auto
qed (simp add: option.map_ident)

lemma rebuild_edge:
  "distinct ks \<Longrightarrow> edge_of (inbound (rebuild ks g)) d s = edge_of (inbound g) d s
     @ map short_channel_id (filter (\<lambda>c. chan_destination c = d \<and> chan_source c = s) (get_map_values ks (channels g)))"
  unfolding rebuild_def
proof (induction ks arbitrary: g)
  case (Cons k ks)
  have rest: "get_map_values ks (channels (rebuild_step k g)) = get_map_values ks (channels g)"
    using Cons.prems by (induction ks) (auto simp: rebuild_step_channels split: option.split)
  show ?case
  proof (cases "channels g k")
    case None
    then show ?thesis using Cons rest by (simp add: rebuild_step_def)
  next
    case (Some c)
    then have "edge_of (inbound (rebuild_step k g)) d s = edge_of (inbound g) d s
        @ (if d = chan_destination c \<and> s = chan_source c then [short_channel_id c] else [])"
      by (simp add: rebuild_step_def split_def Let_def add_channel_edge)
    then show ?thesis using Cons rest Some by auto
  qed
qed simp

text \<open>Whatever the order, the adjacency list of the loaded graph is again that of its channels.\<close>

lemma graph_ok_rebuild:
  assumes "graph_ok ends g" and "enumerates ks (channels g)"
  shows "graph_ok ends (rebuild ks (stored_graph g))"
proof -
  let ?m = "channels (stored_graph g)"
  have ks: "distinct ks" and mem: "k \<in> set ks \<longleftrightarrow> (\<exists>c. channels g k = Some c)" for k
    using assms(2) enumerates_mem [OF assms(2)] by (auto simp: enumerates_def)
  have id: "k = channel_id c" "gossip_ok ends c" if "channels g k = Some c" for k c
    using assms(1) that by (auto simp: graph_ok_def)
  have chans: "channels (rebuild ks (stored_graph g)) cid = map_option (fill_htlc \<circ> stored) (channels g cid)" for cid
    using mem [of cid] by (cases "channels g cid") (auto simp: rebuild_channels [OF ks] stored_graph_def)
  have edge: "edge_of (inbound (rebuild ks (stored_graph g))) d s = map short_channel_id
      (filter (\<lambda>c. chan_destination c = d \<and> chan_source c = s) (get_map_values ks ?m))" for d s
    by (simp add: rebuild_edge [OF ks]) (simp add: stored_graph_def edge_of_def)
  have between: "chan_between (rebuild ks (stored_graph g)) d s scid = chan_between g d s scid" for d s scid
    by (simp add: chan_between_def chans split: option.split)
  have "count (mset (map short_channel_id (filter (\<lambda>c. chan_destination c = d \<and> chan_source c = s)
      (get_map_values js ?m)))) scid = (if channel_key scid s d \<in> set js \<and> chan_between g d s scid then 1 else 0)"
    if "distinct js" for js d s scid
    using that
  proof (induction js)
    case (Cons j js)
    show ?case
    proof (cases "channels g j")
      case None
      then show ?thesis using Cons by (auto simp: stored_graph_def chan_between_def split: option.splits)
    next
      case (Some c)
      then have j: "j = channel_key (short_channel_id c) (chan_source c) (chan_destination c)"
        using id(1) by (simp add: channel_id_def)
      have here: "channel_key scid s d = j \<and> chan_between g d s scid \<longleftrightarrow>
          chan_destination c = d \<and> chan_source c = s \<and> short_channel_id c = scid"
      proof
        assume l: "channel_key scid s d = j \<and> chan_between g d s scid"
        then have "chan_source c = s" "chan_destination c = d" using Some by (auto simp: chan_between_def)
        with l j show "chan_destination c = d \<and> chan_source c = s \<and> short_channel_id c = scid" by simp
      next
        assume "chan_destination c = d \<and> chan_source c = s \<and> short_channel_id c = scid"
        then have "j = channel_key scid s d" "chan_source c = s" "chan_destination c = d" using j by simp_all
        with Some show "channel_key scid s d = j \<and> chan_between g d s scid" by (simp add: chan_between_def)
      qed
      have "j \<notin> set js" "distinct js" using Cons.prems by simp_all
      have "count (mset (map short_channel_id (filter (\<lambda>c. chan_destination c = d \<and> chan_source c = s)
          (get_map_values (j # js) ?m)))) scid =
          (if chan_destination c = d \<and> chan_source c = s \<and> short_channel_id c = scid then 1 else 0)
          + count (mset (map short_channel_id (filter (\<lambda>c. chan_destination c = d \<and> chan_source c = s)
              (get_map_values js ?m)))) scid"
        using Some by (simp add: stored_graph_def)
      also have "\<dots> = (if channel_key scid s d \<in> set (j # js) \<and> chan_between g d s scid then 1 else 0)"
        unfolding Cons.IH [OF \<open>distinct js\<close>] here [symmetric] using \<open>j \<notin> set js\<close> by auto
      finally show ?thesis .
    qed
  qed simp
  moreover have "chan_between g d s scid \<Longrightarrow> channel_key scid s d \<in> set ks" for d s scid
    by (auto simp: chan_between_def mem split: option.splits)
  ultimately have "count (mset (edge_of (inbound (rebuild ks (stored_graph g))) d s)) scid =
      (if chan_between g d s scid then 1 else 0)" for d s scid
    using ks edge by auto
  then show ?thesis unfolding graph_ok_def between using id by (auto simp: chans)
qed

section \<open>Reachable graphs\<close>

text \<open>
  The operations that the node runs on its graph, in any order and any number: gossip refreshes, alias
  refreshes, pruning, liquidity updates after failed payments, liquidity resets, and a restart that loads a
  saved graph.
\<close>

inductive graph_reach :: "(string \<Rightarrow> string \<times> string \<times> u64) \<Rightarrow> graph \<Rightarrow> bool"
  for ends :: "string \<Rightarrow> string \<times> string \<times> u64" where
  reach_new: "graph_reach ends new_graph"
| reach_refresh:
    "graph_reach ends g \<Longrightarrow> \<forall>c \<in> set cs. gossip_ok ends c \<Longrightarrow> graph_reach ends (refresh_channels cs g)"
| reach_aliases: "graph_reach ends g \<Longrightarrow> graph_reach ends (refresh_aliases ns g)"
| reach_prune: "graph_reach ends g \<Longrightarrow> graph_reach ends (prune_channels ks now_s g)"
| reach_update: "graph_reach ends g \<Longrightarrow> graph_reach ends (update_channel cid opposite amount now g)"
| reach_liquidity:
    "graph_reach ends g \<Longrightarrow> graph_reach ends (fst (refresh_liquidity ks threshold now clk g))"
| reach_load:
    "graph_reach ends g \<Longrightarrow> enumerates ks (channels g) \<Longrightarrow> graph_reach ends (rebuild ks (stored_graph g))"

lemma refresh_aliases_frame [simp]:
  "channels (refresh_aliases ns g) = channels g" "inbound (refresh_aliases ns g) = inbound g"
proof -
  have "channels (refresh_aliases ns g) = channels g \<and> inbound (refresh_aliases ns g) = inbound g"
    unfolding refresh_aliases_def by (induction ns arbitrary: g) auto
  then show "channels (refresh_aliases ns g) = channels g" "inbound (refresh_aliases ns g) = inbound g"
    by simp_all
qed

lemma graph_ok_frame:
  "channels g' = channels g \<Longrightarrow> inbound g' = inbound g \<Longrightarrow> graph_ok ends g' = graph_ok ends g"
  by (simp add: graph_ok_def chan_between_def)

lemma graph_reach_ok: "graph_reach ends g \<Longrightarrow> graph_ok ends g"
proof (induction rule: graph_reach.induct)
  case (reach_refresh g cs)
  then show ?case by (intro graph_ok_refresh_channels) auto
next
  case (reach_aliases g ns)
  then show ?case by (simp add: graph_ok_frame [of "refresh_aliases ns g" g])
next
  case (reach_prune g ks now_s)
  then show ?case using prune_fold [of ends g] by (simp add: prune_channels_fold)
next
  case (reach_liquidity g ks threshold now clk)
  then show ?case by (simp add: refresh_liquidity_fold liquidity_fold_ok)
qed (auto intro: graph_ok_new graph_ok_update_channel graph_ok_rebuild)

section \<open>What a refresh and an update leave in the map\<close>

lemma refresh_channel_channels:
  "channels (refresh_channel c g) = (channels g)(channel_id c \<mapsto>
     (case channels g (channel_id c) of
        None \<Rightarrow> new_channel c (half_capacity c) 0
      | Some old \<Rightarrow> new_channel c (liquidity old) (timestamp old)))"
  by (simp add: refresh_channel_def Let_def split_def split: option.split)

definition refreshed :: "gl_channel \<Rightarrow> channel option \<Rightarrow> channel" where
  "refreshed c old = (case old of
     None \<Rightarrow> new_channel c (half_capacity c) 0
   | Some ch \<Rightarrow> new_channel c (liquidity ch) (timestamp ch))"

definition latest :: "string \<Rightarrow> gl_channel list \<Rightarrow> gl_channel option" where
  "latest cid cs = find (\<lambda>c. channel_id c = cid) (rev cs)"

lemma refreshed_twice:
  "half_capacity c = half_capacity c' \<Longrightarrow> refreshed c (Some (refreshed c' old)) = refreshed c old"
  by (simp add: refreshed_def split: option.split)

lemma half_capacity_gossip:
  "gossip_ok ends c \<Longrightarrow> gossip_ok ends c' \<Longrightarrow> channel_id c = channel_id c' \<Longrightarrow>
     half_capacity c = half_capacity c'"
  using same_channel_same_ends [of ends c c'] by (simp add: half_capacity_def)

lemma refresh_fold_content:
  assumes "\<forall>c \<in> set cs. gossip_ok ends c"
  shows "channels (fold refresh_channel cs g) cid = (case latest cid cs of
      None \<Rightarrow> channels g cid
    | Some c \<Rightarrow> Some (refreshed c (channels g cid)))"
  using assms
proof (induction cs rule: rev_induct)
  case Nil
  then show ?case by (simp add: latest_def)
next
  case (snoc c cs)
  then have IH: "channels (fold refresh_channel cs g) cid = (case latest cid cs of
      None \<Rightarrow> channels g cid | Some c \<Rightarrow> Some (refreshed c (channels g cid)))" by simp
  have mem: "c' \<in> set cs \<and> channel_id c' = cid" if "latest cid cs = Some c'" for c'
    using find_SomeD [OF that [unfolded latest_def]] by simp
  show ?case
  proof (cases "channel_id c = cid")
    case True
    have "refreshed c (case latest cid cs of None \<Rightarrow> channels g cid
        | Some c \<Rightarrow> Some (refreshed c (channels g cid))) = refreshed c (channels g cid)"
      using mem snoc.prems True
      by (auto split: option.split intro!: refreshed_twice half_capacity_gossip [of ends])
    then show ?thesis
      using True IH by (simp add: refresh_channel_channels latest_def flip: refreshed_def)
  next
    case False
    then show ?thesis using IH by (simp add: refresh_channel_channels latest_def)
  qed
qed

lemma update_channel_both:
  assumes "channels g cid = Some c" and "channels g opposite = Some c'" and "cid \<noteq> opposite"
  shows "channels (update_channel cid opposite amount now g) = (channels g)
     (cid \<mapsto> c\<lparr>liquidity := amount, timestamp := now\<rparr>,
      opposite \<mapsto> c'\<lparr>liquidity := satoshis c' * 1000 - amount, timestamp := now\<rparr>)"
  using assms by (simp add: update_channel_def Let_def)

lemma u64_diff_le: "b \<le> (a :: u64) \<Longrightarrow> a - b \<le> a"
  by (simp add: word_le_nat_alt unat_sub64)

section \<open>Properties\<close>

text \<open>C16. In every reachable graph the adjacency lists and the channel map agree: \<^verbatim>\<open>Inbound[d][s]\<close> lists,
  without duplicates, exactly the scids of the stored channels from \<open>s\<close> to \<open>d\<close>.\<close>

theorem adjacency_matches_channels:
  assumes "graph_reach ends g"
  shows "distinct (edge_of (inbound g) d s) \<and>
    (scid \<in> set (edge_of (inbound g) d s) \<longleftrightarrow>
      (\<exists>c. channels g (channel_key scid s d) = Some c \<and> chan_source c = s \<and> chan_destination c = d
         \<and> short_channel_id c = scid))"
proof -
  have ok: "graph_ok ends g" using assms by (rule graph_reach_ok)
  have "count (mset (edge_of (inbound g) d s)) x \<le> 1" for x
    using graph_okD(3) [OF ok, of d s x] by simp
  then have "distinct (edge_of (inbound g) d s)"
    by (simp add: distinct_count_atmost_1 le_Suc_eq count_mset) (metis count_mset count_mset_0_iff)
  moreover have "scid \<in> set (edge_of (inbound g) d s)"
    if "channels g (channel_key scid s d) = Some c" "chan_source c = s" "chan_destination c = d" for c
  proof -
    have "chan_between g d s scid" using that by (simp add: chan_between_def)
    then have "count (mset (edge_of (inbound g) d s)) scid = 1" using graph_okD(3) [OF ok] by simp
    then show ?thesis by (metis count_mset_0_iff zero_neq_one)
  qed
  ultimately show ?thesis using edge_channel [OF ok] by metis
qed

definition sample_back :: gl_channel where
  "sample_back = sample_gl\<lparr>chan_source := ''03bb'', chan_destination := ''02aa''\<rparr>"

definition sample_ends :: "string \<Rightarrow> string \<times> string \<times> u64" where
  "sample_ends cid =
     (if cid = ''1x1x1/0'' then (''02aa'', ''03bb'', 1000000) else (''03bb'', ''02aa'', 1000000))"

definition sample_graph :: graph where
  "sample_graph = refresh_channels [sample_gl, sample_back] new_graph"

lemma sample_ids [simp]:
  "channel_id sample_gl = ''1x1x1/0''" "channel_id sample_back = ''1x1x1/1''"
  by (simp_all add: channel_id_def channel_key_def get_direction_def sample_gl_def sample_back_def)

lemma sample_gossip: "\<forall>c \<in> set [sample_gl, sample_back]. gossip_ok sample_ends c"
  by (simp add: gossip_ok_def sample_ends_def) (simp add: sample_gl_def sample_back_def)

lemma sample_reach: "graph_reach sample_ends sample_graph"
  unfolding sample_graph_def by (intro reach_refresh reach_new sample_gossip)

lemma sample_channels:
  "channels sample_graph =
     [''1x1x1/0'' \<mapsto> new_channel sample_gl (half_capacity sample_gl) 0,
      ''1x1x1/1'' \<mapsto> new_channel sample_back (half_capacity sample_back) 0]"
  by (simp add: sample_graph_def refresh_channels_def refresh_channel_channels new_graph_def)

lemma sample_half: "half_capacity sample_gl = 500000000" "half_capacity sample_back = 500000000"
  by (simp_all add: half_capacity_def mul_trunc_def f64_half_def sample_gl_def sample_back_def)

theorem adjacency_matches_channels_witness:
  "''1x1x1'' \<in> set (edge_of (inbound sample_graph) ''03bb'' ''02aa'')"
proof -
  have "channel_key ''1x1x1'' ''02aa'' ''03bb'' = ''1x1x1/0''"
    by (simp add: channel_key_def get_direction_def)
  then show ?thesis
    using adjacency_matches_channels [OF sample_reach, of "''03bb''" "''02aa''" "''1x1x1''"]
    by (auto simp: sample_channels) (auto simp: sample_gl_def)
qed

text \<open>C21. A gossip refresh stores, for every channel it mentions, the latest message about it; a channel that
  was known keeps the liquidity and the time that were learned, a new one starts at half of its capacity;
  every other channel is untouched.\<close>

theorem refresh_keeps_learned_liquidity:
  assumes "\<forall>c \<in> set cs. gossip_ok ends c"
  shows "channels (refresh_channels cs g) cid = (case latest cid cs of
      None \<Rightarrow> channels g cid
    | Some c \<Rightarrow> Some (case channels g cid of
          None \<Rightarrow> new_channel c (half_capacity c) 0
        | Some old \<Rightarrow> new_channel c (liquidity old) (timestamp old)))"
  using refresh_fold_content [OF assms, of g cid] unfolding refresh_channels_def refreshed_def .

theorem refresh_keeps_learned_liquidity_witness:
  "channels (refresh_channels [sample_gl, sample_back]
      (update_channel ''1x1x1/0'' ''1x1x1/1'' 7 99 sample_graph)) ''1x1x1/0''
     = Some (new_channel sample_gl 7 99)"
  using refresh_keeps_learned_liquidity [OF sample_gossip, where cid = "''1x1x1/0''"]
  by (simp add: latest_def update_channel_def Let_def sample_channels)

text \<open>C22. Pruning removes exactly the channels whose last gossip update is more than fourteen days old, in
  whatever order the map is visited.\<close>

theorem prune_removes_exactly_stale:
  assumes "graph_reach ends g" and "enumerates ks (channels g)"
  shows "channels (prune_channels ks now g) cid = (case channels g cid of
      None \<Rightarrow> None
    | Some c \<Rightarrow> if last_update c + 1209600 < now then None else Some c)"
  using prune_fold [OF graph_reach_ok [OF assms(1)], of now ks cid] enumerates_mem [OF assms(2), of cid]
  by (auto simp: prune_channels_fold pruning_interval_def split: option.splits)

theorem prune_removes_exactly_stale_witness:
  "channels (prune_channels [''1x1x1/1'', ''1x1x1/0''] 1700000000 sample_graph) ''1x1x1/0'' = None"
proof -
  have "enumerates [''1x1x1/1'', ''1x1x1/0''] (channels sample_graph)"
    by (auto simp: enumerates_def sample_channels)
  from prune_removes_exactly_stale [OF sample_reach this] show ?thesis
    by (simp add: sample_channels) (simp add: sample_gl_def)
qed

text \<open>A liquidity refresh resets exactly the channels whose belief is older than the threshold, to half of
  their capacity and the current time, and reports how many there were.\<close>

theorem refresh_liquidity_resets_exactly_stale:
  assumes "enumerates ks (channels g)"
  shows "channels (fst (refresh_liquidity ks threshold now clk g)) cid = map_option
      (\<lambda>c. if go_int (timestamp c + threshold) < now
           then c\<lparr>liquidity := half_capacity c, timestamp := clk cid\<rparr> else c) (channels g cid)
    \<and> snd (refresh_liquidity ks threshold now clk g)
      = length (filter (\<lambda>c. go_int (timestamp c + threshold) < now) (get_map_values ks (channels g)))"
proof -
  have "distinct ks" using assms by (simp add: enumerates_def)
  from liquidity_fold [OF this, of threshold now clk g 0 cid] enumerates_mem [OF assms, of cid]
  show ?thesis
    by (cases "channels g cid")
      (auto simp: refresh_liquidity_fold reset_liquidity_def stale_def [abs_def])
qed

theorem refresh_liquidity_resets_exactly_stale_witness:
  "snd (refresh_liquidity [''1x1x1/0'', ''1x1x1/1''] 18000 1700000000 (\<lambda>_. 1700000000) sample_graph) = 2"
proof -
  have "enumerates [''1x1x1/0'', ''1x1x1/1''] (channels sample_graph)"
    by (auto simp: enumerates_def sample_channels)
  from refresh_liquidity_resets_exactly_stale [OF this] show ?thesis
    by (simp add: sample_channels go_int_id)
qed

text \<open>After a liquidity update both directions of a channel carry the new time, the named direction the new
  amount, and the two beliefs add up to the capacity of the channel.\<close>

theorem update_channel_splits_capacity:
  assumes "channels g cid = Some c" and "channels g opposite = Some c'" and "cid \<noteq> opposite"
    and "satoshis c = satoshis c'"
  shows "\<exists>d d'. channels (update_channel cid opposite amount now g) cid = Some d
    \<and> channels (update_channel cid opposite amount now g) opposite = Some d'
    \<and> liquidity d = amount \<and> liquidity d + liquidity d' = satoshis c * 1000
    \<and> timestamp d = now \<and> timestamp d' = now
    \<and> (\<forall>k. k \<noteq> cid \<and> k \<noteq> opposite \<longrightarrow>
         channels (update_channel cid opposite amount now g) k = channels g k)"
  using assms by (simp add: update_channel_both)

theorem update_channel_splits_capacity_witness:
  "\<exists>d d'. channels (update_channel ''1x1x1/0'' ''1x1x1/1'' 7 99 sample_graph) ''1x1x1/0'' = Some d
    \<and> channels (update_channel ''1x1x1/0'' ''1x1x1/1'' 7 99 sample_graph) ''1x1x1/1'' = Some d'
    \<and> liquidity d = 7 \<and> liquidity d + liquidity d' = 1000000000"
proof -
  have "channels sample_graph ''1x1x1/0'' = Some (new_channel sample_gl (half_capacity sample_gl) 0)"
    and "channels sample_graph ''1x1x1/1'' = Some (new_channel sample_back (half_capacity sample_back) 0)"
    by (simp_all add: sample_channels)
  from update_channel_splits_capacity [OF this, of 7 99] show ?thesis
    by (fastforce simp: sample_gl_def sample_back_def)
qed

text \<open>No operation makes the program believe that a channel holds more than its capacity, as long as a
  reported amount does not exceed the capacity of the channel that failed.\<close>

theorem liquidity_within_capacity:
  assumes "graph_ok ends g" and "liquidity_ok g" and "\<forall>c \<in> set cs. gossip_ok ends c" and "distinct ks"
    and "\<forall>c. channels g cid = Some c \<or> channels g opposite = Some c \<longrightarrow> amount \<le> satoshis c * 1000"
  shows "liquidity_ok (refresh_channels cs g) \<and> liquidity_ok (prune_channels ks now_s g)
    \<and> liquidity_ok (fst (refresh_liquidity ks threshold now clk g))
    \<and> liquidity_ok (update_channel cid opposite amount now g)"
proof (intro conjI)
  note bound = assms(2) [unfolded liquidity_ok_def, rule_format]
  have keep: "satoshis c = satoshis old" if "latest k cs = Some c" "channels g k = Some old" for k c old
  proof -
    have "c \<in> set cs \<and> channel_id c = k" using find_SomeD [OF that(1) [unfolded latest_def]] by simp
    then show ?thesis
      using same_channel_same_ends [of ends c old] graph_okD(1,2) [OF assms(1) that(2)] assms(3) by simp
  qed
  show "liquidity_ok (refresh_channels cs g)"
    using bound keep by (fastforce simp: liquidity_ok_def refresh_channels_def
      refresh_fold_content [OF assms(3)] refreshed_def half_capacity_le split: option.splits)
  show "liquidity_ok (prune_channels ks now_s g)"
    using bound by (auto simp: liquidity_ok_def prune_channels_fold
      conjunct2 [OF prune_fold [OF assms(1)]] split: option.splits if_splits)
  show "liquidity_ok (fst (refresh_liquidity ks threshold now clk g))"
    using bound by (auto simp: liquidity_ok_def refresh_liquidity_fold
      conjunct1 [OF liquidity_fold [OF assms(4)]] half_capacity_le split: option.splits if_splits)
  show "liquidity_ok (update_channel cid opposite amount now g)"
    using assms(2,5)
    by (auto simp: update_channel_def Let_def u64_diff_le liquidity_ok_def split: option.splits)
qed

lemma sample_liquidity_ok: "liquidity_ok sample_graph"
  by (auto simp: liquidity_ok_def sample_channels half_capacity_le)

theorem liquidity_within_capacity_witness:
  "liquidity_ok (update_channel ''1x1x1/0'' ''1x1x1/1'' 900000000 99 sample_graph)"
proof -
  have "\<forall>c. channels sample_graph ''1x1x1/0'' = Some c \<or> channels sample_graph ''1x1x1/1'' = Some c
      \<longrightarrow> 900000000 \<le> satoshis c * 1000"
    by (auto simp: sample_channels) (simp_all add: sample_gl_def sample_back_def)
  with liquidity_within_capacity [OF graph_reach_ok [OF sample_reach] sample_liquidity_ok sample_gossip,
      of "[]" "''1x1x1/0''" "''1x1x1/1''" 900000000]
  show ?thesis by simp
qed

end
