(* ===== verification/Format.thy ===== *)
theory Format
  imports GoFloat
begin

text \<open>
  The verbs of \<^verbatim>\<open>fmt\<close> that the program uses beside plain decimal numbers: \<^verbatim>\<open>%40s\<close> and \<^verbatim>\<open>%5d\<close>, which pad on the left by
  the number of runes, and \<^verbatim>\<open>%.3f\<close> of a \<^verbatim>\<open>float64\<close> that was divided by 1000, which rounds twice: the quotient to a double
  and the double to three decimals.
\<close>

section \<open>Runes\<close>

text \<open>The bytes of the first rune of a string as \<^verbatim>\<open>unicode/utf8\<close> decodes it; an invalid byte counts as a rune of its own.\<close>

definition byte_of :: "char \<Rightarrow> nat" where
  "byte_of c = of_char c"

definition byte_in :: "nat \<Rightarrow> nat \<Rightarrow> nat \<Rightarrow> bool" where
  "byte_in lo hi b \<longleftrightarrow> lo \<le> b \<and> b \<le> hi"

text \<open>Size and range of the second byte, by the first byte.\<close>

definition lead_byte :: "nat \<Rightarrow> nat \<times> nat \<times> nat" where
  "lead_byte b =
     (if byte_in 0xC2 0xDF b then (2, 0x80, 0xBF)
      else if b = 0xE0 then (3, 0xA0, 0xBF)
      else if b = 0xED then (3, 0x80, 0x9F)
      else if byte_in 0xE1 0xEF b then (3, 0x80, 0xBF)
      else if b = 0xF0 then (4, 0x90, 0xBF)
      else if byte_in 0xF1 0xF3 b then (4, 0x80, 0xBF)
      else if b = 0xF4 then (4, 0x80, 0x8F)
      else (1, 0, 0))"

definition rune_size :: "nat list \<Rightarrow> nat" where
  "rune_size bs = (case bs of
     [] \<Rightarrow> 0
   | b # rest \<Rightarrow>
       (case lead_byte b of (k, lo, hi) \<Rightarrow>
          if k = 1 \<or> length bs < k \<or> \<not> byte_in lo hi (hd rest)
             \<or> \<not> list_all (byte_in 0x80 0xBF) (take (k - 2) (tl rest))
          then 1 else k))"

lemma rune_size_pos: "bs \<noteq> [] \<Longrightarrow> 0 < rune_size bs"
  by (cases bs) (auto simp: rune_size_def lead_byte_def)

function count_runes :: "nat list \<Rightarrow> nat" where
  "count_runes bs = (if bs = [] then 0 else Suc (count_runes (drop (rune_size bs) bs)))"
  by pat_completeness auto
termination
  by (relation "measure length") (simp_all add: rune_size_pos)

declare count_runes.simps [simp del]

definition rune_count :: "string \<Rightarrow> nat" where
  "rune_count s = count_runes (map byte_of s)"

lemma count_runes_le: "count_runes bs \<le> length bs"
proof (induction bs rule: count_runes.induct)
  case (1 bs)
  then show ?case using rune_size_pos [of bs] by (subst count_runes.simps) (cases bs; simp)
qed

lemma count_runes_ascii: "\<forall>b \<in> set bs. b < 128 \<Longrightarrow> count_runes bs = length bs"
proof (induction bs)
  case (Cons b bs)
  have "rune_size (b # bs) = 1" using Cons.prems by (simp add: rune_size_def lead_byte_def byte_in_def)
  then show ?case using Cons by (subst count_runes.simps) simp
qed (simp add: count_runes.simps)

definition ascii :: "string \<Rightarrow> bool" where
  "ascii s \<longleftrightarrow> (\<forall>c \<in> set s. byte_of c < 128)"

lemma rune_count_ascii: "ascii s \<Longrightarrow> rune_count s = length s"
  by (simp add: rune_count_def ascii_def count_runes_ascii)

lemma rune_count_le: "rune_count s \<le> length s"
  using count_runes_le [of "map byte_of s"] by (simp add: rune_count_def)

definition pad_left :: "nat \<Rightarrow> string \<Rightarrow> string" where
  "pad_left w s = replicate (w - rune_count s) (CHR '' '') @ s"

lemma length_pad_left: "ascii s \<Longrightarrow> length (pad_left w s) = max w (length s)"
  by (simp add: pad_left_def rune_count_ascii)

section \<open>Thousandths\<close>

text \<open>
  \<^verbatim>\<open>float64(x)/1000\<close>, the double nearest to the quotient, as a multiple of \<open>2 ^ -65\<close>: the quotient of \<open>x * 2 ^ 64\<close>
  with a last bit that tells whether it is exact has enough bits to be rounded to 53 of them as the exact one.
\<close>

definition quotient_1000 :: "nat \<Rightarrow> nat" where
  "quotient_1000 x = (let n = x * 2 ^ 64 in 2 * (n div 1000) + (if n mod 1000 = 0 then 0 else 1))"

definition thousandth :: "u64 \<Rightarrow> nat" where
  "thousandth x = round53 (quotient_1000 (round53 (unat x)))"

text \<open>\<^verbatim>\<open>strconv\<close> rounds the exact value of the double to three decimals, a tie to even.\<close>

definition round_decimals :: "nat \<Rightarrow> nat" where
  "round_decimals m = round_to 65 (m * 1000) div 2 ^ 65"

definition fixed3 :: "nat \<Rightarrow> string" where
  "fixed3 u = (let s = dec (u mod 1000) in dec (u div 1000) @ ''.'' @ replicate (3 - length s) (CHR ''0'') @ s)"

definition fmt_sats :: "u64 \<Rightarrow> string" where
  "fmt_sats x = fixed3 (round_decimals (thousandth x))"

text \<open>A value that is closer than half a unit to a multiple is rounded to it.\<close>

lemma round_to_near:
  assumes "0 < k" and "n < q * 2 ^ k + 2 ^ (k - 1)" and "q * 2 ^ k < n + 2 ^ (k - 1)"
  shows "round_to k n = q * 2 ^ k"
proof -
  have k: "(2 :: nat) ^ k = 2 * 2 ^ (k - 1)" using assms(1) by (cases k) auto
  define a where "a = n div 2 ^ k"
  define r where "r = n mod 2 ^ k"
  define p where "p = (2 :: nat) ^ (k - 1)"
  have n: "n = a * (2 * p) + r" and r: "r < 2 * p" and p: "0 < p"
    using div_mult_mod_eq [of n "2 ^ k"] k by (simp_all add: a_def r_def p_def)
  have lt: "n < q * (2 * p) + p" "q * (2 * p) < n + p" using assms(2,3) k by (simp_all add: p_def)
  have "a = q \<and> r < p \<or> Suc a = q \<and> p < r"
  proof -
    have "a < Suc q"
    proof (rule ccontr)
      assume "\<not> a < Suc q"
      then have "Suc q * (2 * p) \<le> a * (2 * p)" by (intro mult_right_mono) simp_all
      then show False using n lt p by simp
    qed
    moreover have "q < Suc (Suc a)"
    proof (rule ccontr)
      assume "\<not> q < Suc (Suc a)"
      then have "Suc (Suc a) * (2 * p) \<le> q * (2 * p)" by (intro mult_right_mono) simp_all
      then show False using n r lt p by simp
    qed
    ultimately consider "a = q" | "q = Suc a" by linarith
    then show ?thesis using n lt by cases auto
  qed
  then show ?thesis
    unfolding round_to_def Let_def a_def [symmetric] r_def [symmetric] p_def [symmetric] by auto
qed

lemma quotient_1000_near:
  "quotient_1000 x * 1000 \<le> x * 2 ^ 65 + 1000" "x * 2 ^ 65 \<le> quotient_1000 x * 1000 + 1000"
proof -
  define n where "n = x * 2 ^ 64"
  define d r where "d = n div 1000" and "r = n mod 1000"
  have n: "n = d * 1000 + r" and r: "r < 1000" by (simp_all add: d_def r_def)
  have "quotient_1000 x = 2 * d + (if r = 0 then 0 else 1)" by (simp add: quotient_1000_def n_def d_def r_def Let_def)
  moreover have "x * 2 ^ 65 = 2 * n" by (simp add: n_def)
  ultimately have "quotient_1000 x * 1000 \<le> x * 2 ^ 65 + 1000 \<and> x * 2 ^ 65 \<le> quotient_1000 x * 1000 + 1000"
    using n r by (cases "r = 0") simp_all
  then show "quotient_1000 x * 1000 \<le> x * 2 ^ 65 + 1000" "x * 2 ^ 65 \<le> quotient_1000 x * 1000 + 1000" by simp_all
qed

lemma round_thousandth:
  assumes "unat x < 2 ^ 52"
  shows "round_decimals (thousandth x) = unat x"
proof -
  define a where "a = unat x"
  define v where "v = quotient_1000 a"
  have a: "a < 4503599627370496" using assms by (simp add: a_def)
  have m: "thousandth x = round53 v" using a by (simp add: thousandth_def v_def a_def)
  have v: "v * 1000 \<le> a * 2 ^ 65 + 1000" "a * 2 ^ 65 \<le> v * 1000 + 1000"
    unfolding v_def by (rule quotient_1000_near)+
  have d: "v div 2 ^ 53 * 2 ^ 53 \<le> v" by (rule div_times_less_eq_dividend)
  have e: "round53 v \<le> v + v div 2 ^ 53" "v \<le> round53 v + v div 2 ^ 53"
    by (rule round53_le, rule round53_ge)
  have "round_to 65 (round53 v * 1000) = a * 2 ^ 65"
  proof (rule round_to_near)
    show "round53 v * 1000 < a * 2 ^ 65 + 2 ^ (65 - 1)" using v d e a by simp
    show "a * 2 ^ 65 < round53 v * 1000 + 2 ^ (65 - 1)" using v d e a by simp
  qed simp
  then show ?thesis by (simp add: round_decimals_def m a_def)
qed

text \<open>So the text is exact, the decimal point three digits from the right of the number.\<close>

lemma fmt_sats_exact: "unat x < 2 ^ 52 \<Longrightarrow> fmt_sats x = fixed3 (unat x)"
  by (simp add: fmt_sats_def round_thousandth)

lemma digit_chars:
  "digit_char 0 = CHR ''0''" "digit_char 1 = CHR ''1''" "digit_char 2 = CHR ''2''" "digit_char 3 = CHR ''3''"
  "digit_char 4 = CHR ''4''" "digit_char 5 = CHR ''5''" "digit_char 6 = CHR ''6''" "digit_char 7 = CHR ''7''"
  "digit_char 8 = CHR ''8''" "digit_char 9 = CHR ''9''"
  by code_simp+

lemma dec_two: "10 \<le> n \<Longrightarrow> n < 100 \<Longrightarrow> dec n = [digit_char (n div 10), digit_char (n mod 10)]"
proof -
  assume n: "10 \<le> n" "n < 100"
  then have "n div 10 < 10" by presburger
  then show ?thesis using n by (simp add: dec.simps [of n] dec.simps [of "n div 10"])
qed

lemma dec_three:
  "100 \<le> n \<Longrightarrow> n < 1000 \<Longrightarrow> dec n = [digit_char (n div 100), digit_char (n div 10 mod 10), digit_char (n mod 10)]"
  by (subst dec.simps) (simp add: dec_two div_mult2_eq [symmetric])

lemma three_digits:
  assumes "r < 1000"
  shows "replicate (3 - length (dec r)) (CHR ''0'') @ dec r =
    [digit_char (r div 100), digit_char (r div 10 mod 10), digit_char (r mod 10)]"
proof -
  have zero: "CHR ''0'' = digit_char 0" by (simp add: digit_chars)
  consider "r < 10" | "10 \<le> r" "r < 100" | "100 \<le> r" by linarith
  then show ?thesis
  proof cases
    case 1
    then have "dec r = [digit_char r]" by (simp add: dec.simps [of r])
    then show ?thesis using 1 by (simp add: zero numeral_3_eq_3)
  next
    case 2
    then show ?thesis by (simp add: dec_two zero)
  next
    case 3
    then show ?thesis using assms by (simp add: dec_three)
  qed
qed

text \<open>Without its point the text reads back as the number.\<close>

lemma fixed3_digits:
  "filter (\<lambda>c. c \<noteq> CHR ''.'') (fixed3 u) =
    ((dec (u div 1000) @ [digit_char (u mod 1000 div 100)]) @ [digit_char (u mod 1000 div 10 mod 10)])
      @ [digit_char (u mod 1000 mod 10)]"
proof -
  define r where "r = u mod 1000"
  have r: "r < 1000" by (simp add: r_def)
  have nodot: "filter (\<lambda>c. c \<noteq> CHR ''.'') s = s" if "\<forall>c \<in> set s. is_digit c" for s
    using that by (auto simp: filter_id_conv is_digit_def)
  have "\<forall>c \<in> set (replicate (3 - length (dec r)) (CHR ''0'') @ dec r). is_digit c"
    using three_digits [OF r] r by (auto intro!: is_digit_digit_char)
  moreover have "digit_char d \<noteq> CHR ''.''" if "d < 10" for d
    using is_digit_digit_char [OF that] by (auto simp: is_digit_def)
  ultimately show ?thesis
    using nodot [OF dec_digits] three_digits [OF r] r by (simp add: fixed3_def Let_def r_def [symmetric])
qed

lemma parse_fixed3:
  assumes "u \<le> max_u64"
  shows "parse_loop (filter (\<lambda>c. c \<noteq> CHR ''.'') (fixed3 u)) 0 = u"
proof -
  define q r where "q = u div 1000" and "r = u mod 1000"
  have u: "u = q * 1000 + r" and r: "r < 1000" by (simp_all add: q_def r_def)
  let ?a = "q * 10 + r div 100" and ?b = "q * 100 + r div 10"
  have max: "u \<le> 18446744073709551615" using assms by (simp add: max_u64_def)
  have "r div 100 = r div 10 div 10" by (simp add: div_mult2_eq [symmetric])
  then have d: "r div 100 * 10 + r div 10 mod 10 = r div 10" "r div 10 * 10 + r mod 10 = r" by simp_all
  then have b: "?a * 10 + r div 10 mod 10 = ?b" "?b * 10 + r mod 10 = u" using u by simp_all
  have side: "\<forall>c \<in> set (dec q). is_digit c" "q < max_u64" "?a < max_u64" "?b < max_u64"
      "?a \<le> max_u64" "?b \<le> max_u64"
    using u r max dec_digits [of q] by (simp_all add: max_u64_def)
  have 0: "parse_loop (dec q) 0 = q" using u assms by (intro parse_loop_dec) simp
  have 1: "parse_loop (dec q @ [digit_char (r div 100)]) 0 = ?a"
    by (rule parse_loop_append_digit [OF 0]) (use side r in simp_all)
  have 2: "parse_loop ((dec q @ [digit_char (r div 100)]) @ [digit_char (r div 10 mod 10)]) 0 = ?b"
    unfolding b(1) [symmetric]
    by (rule parse_loop_append_digit [OF 1]) (use side r d in \<open>simp_all add: is_digit_digit_char\<close>)
  have "parse_loop (((dec q @ [digit_char (r div 100)]) @ [digit_char (r div 10 mod 10)]) @ [digit_char (r mod 10)]) 0
      = ?b * 10 + r mod 10"
    by (rule parse_loop_append_digit [OF 2]) (use side r assms b(2) in \<open>simp_all add: is_digit_digit_char\<close>)
  then show ?thesis by (simp only: fixed3_digits b(2) flip: q_def r_def)
qed

text \<open>C25. The fee in the message of a rebalance is exact: \<^verbatim>\<open>%.3f\<close> of the quotient by 1000 in floating point has an
  integer part, a point and three decimals, and without the point it reads back as the fee in msat, for every fee
  below \<open>2 ^ 52\<close> msat (45,000 BTC), although neither the quotient nor its decimals are computed exactly.\<close>

theorem fee_text_exact:
  assumes "unat fee < 2 ^ 52"
  shows "fmt_sats fee = fixed3 (unat fee) \<and> parse_uint (filter (\<lambda>c. c \<noteq> CHR ''.'') (fmt_sats fee)) = fee"
proof -
  have "parse_loop (filter (\<lambda>c. c \<noteq> CHR ''.'') (fixed3 (unat fee))) 0 = unat fee"
    using assms by (intro parse_fixed3) (simp add: max_u64_def)
  moreover have "filter (\<lambda>c. c \<noteq> CHR ''.'') (fixed3 (unat fee)) \<noteq> []" by (simp only: fixed3_digits) simp
  ultimately show ?thesis using fmt_sats_exact [OF assms] by (simp add: parse_uint_def)
qed

theorem fee_text_exact_witness: "fmt_sats 1234567 = ''1234.567''"
proof -
  have "fixed3 1234567 = ''1234.567''" by (simp add: fixed3_def dec.simps digit_chars del: One_nat_def)
  then show ?thesis using fee_text_exact [of 1234567, THEN conjunct1] by simp
qed

end
