(* ===== verification/Route.thy ===== *)
theory Route
  imports Graph Format
begin

text \<open>
  \<^verbatim>\<open>graph/route.go\<close> and \<^verbatim>\<open>graph/prettyRoute.go\<close>: a route is a list of hops; \<^verbatim>\<open>Prepend\<close> and \<^verbatim>\<open>Append\<close> put our own
  channels at its ends, and \<^verbatim>\<open>Append\<close> recomputes amounts and delays from the end. The \<^verbatim>\<open>Graph\<close> pointer of a route
  only serves to look up aliases: it is an argument of \<open>new_pretty_route\<close>. The two renderings
  \<^verbatim>\<open>String\<close> and \<^verbatim>\<open>Simple\<close> feed the log.
\<close>

section \<open>Routes\<close>

definition INITIAL_DELAY :: u64 where
  "INITIAL_DELAY = 144"

record route_hop =
  hop_channel :: channel
  hop_msat :: u64
  hop_delay :: u64

record route =
  rt_destination :: string
  rt_source :: string
  rt_amount :: u64
  rt_hops :: "route_hop list"

definition new_route :: "string \<Rightarrow> string \<Rightarrow> u64 \<Rightarrow> route_hop list \<Rightarrow> route" where
  "new_route src dst amount hops =
     \<lparr>rt_destination = dst, rt_source = src, rt_amount = amount, rt_hops = hops\<rparr>"

text \<open>\<^verbatim>\<open>r.Hops[0]\<close> panics on an empty route.\<close>

definition route_fee :: "route \<Rightarrow> u64 res" where
  "route_fee r = (case rt_hops r of [] \<Rightarrow> Panic | h # _ \<Rightarrow> Ok (hop_msat h - rt_amount r))"

definition route_fee_ppm :: "route \<Rightarrow> u64 res" where
  "route_fee_ppm r = go_bind (route_fee r)
     (\<lambda>fee. if rt_amount r = 0 then Panic else Ok ((fee * 1000000) div rt_amount r))"

definition prepend :: "channel \<Rightarrow> route \<Rightarrow> route res" where
  "prepend c r = (case rt_hops r of
     [] \<Rightarrow> Panic
   | first # _ \<Rightarrow>
       Ok (r\<lparr>rt_hops := \<lparr>hop_channel = c, hop_msat = hop_msat first, hop_delay = hop_delay first\<rparr>
                        # rt_hops r\<rparr>))"

text \<open>The loop runs from the last hop but one to the first, so each hop reads its updated successor.\<close>

fun recompute_fee_and_delay :: "route_hop list \<Rightarrow> route_hop list" where
  "recompute_fee_and_delay [] = []"
| "recompute_fee_and_delay [h] = [h]"
| "recompute_fee_and_delay (h # h' # hs) =
     (let rest = recompute_fee_and_delay (h' # hs); hop = hd rest;
          amount_to_forward = hop_msat hop
      in h\<lparr>hop_msat := amount_to_forward + compute_fee (hop_channel hop) amount_to_forward,
           hop_delay := hop_delay hop + chan_delay (hop_channel hop)\<rparr> # rest)"

definition append_hop :: "channel \<Rightarrow> route \<Rightarrow> route" where
  "append_hop c r = r\<lparr>rt_hops := recompute_fee_and_delay
     (rt_hops r @ [\<lparr>hop_channel = c, hop_msat = rt_amount r, hop_delay = INITIAL_DELAY\<rparr>])\<rparr>"

definition to_lightning_route :: "route \<Rightarrow> ln_hop list" where
  "to_lightning_route r =
     map (\<lambda>hop. \<lparr>hop_id = chan_destination (hop_channel hop),
                 hop_scid = short_channel_id (hop_channel hop),
                 hop_millisatoshi = hop_msat hop, hop_cltv = hop_delay hop,
                 hop_direction = chan_direction (hop_channel hop)\<rparr>) (rt_hops r)"

section \<open>Routes for display\<close>

record pretty_hop =
  ph_id :: string
  ph_alias :: string
  ph_scid :: string
  ph_msat :: u64
  ph_delay :: u64
  ph_fee :: u64
  ph_fee_ppm :: u64

record pretty_route =
  pr_payment_hash :: string
  pr_source_id :: string
  pr_destination_id :: string
  pr_source_alias :: string
  pr_destination_alias :: string
  pr_amount :: u64
  pr_fee :: u64
  pr_fee_ppm :: u64
  pr_hops :: "pretty_hop list"

definition pretty_hop_of :: "graph \<Rightarrow> route_hop \<Rightarrow> u64 \<Rightarrow> u64 \<Rightarrow> pretty_hop" where
  "pretty_hop_of g h fee ppm =
     \<lparr>ph_id = chan_source (hop_channel h), ph_alias = get_alias g (chan_source (hop_channel h)),
      ph_scid = short_channel_id (hop_channel h), ph_msat = hop_msat h, ph_delay = hop_delay h,
      ph_fee = fee, ph_fee_ppm = ppm\<rparr>"

text \<open>The hops after the first; the fee of a hop is what the previous hop carries on top of it.\<close>

fun pretty_tail :: "graph \<Rightarrow> route_hop \<Rightarrow> route_hop list \<Rightarrow> pretty_hop list res" where
  "pretty_tail g prev [] = Ok []"
| "pretty_tail g prev (h # hs) =
     (let fee = hop_msat prev - hop_msat h
      in if hop_msat h = 0 then Panic
         else go_bind (pretty_tail g h hs)
           (\<lambda>rest. Ok (pretty_hop_of g h fee (fee * 1000000 div hop_msat h) # rest)))"

definition new_pretty_route :: "graph \<Rightarrow> route \<Rightarrow> string \<Rightarrow> pretty_route res" where
  "new_pretty_route g r payment_hash = (case rt_hops r of
     [] \<Rightarrow> Panic
   | first # rest \<Rightarrow>
       go_bind (pretty_tail g first rest) (\<lambda>hops.
       go_bind (route_fee r) (\<lambda>fee.
       go_bind (route_fee_ppm r) (\<lambda>ppm.
         Ok \<lparr>pr_payment_hash = payment_hash, pr_source_id = rt_source r,
             pr_destination_id = rt_destination r,
             pr_source_alias = get_alias g (rt_source r),
             pr_destination_alias = get_alias g (rt_destination r),
             pr_amount = rt_amount r div 1000, pr_fee = fee, pr_fee_ppm = ppm,
             pr_hops = pretty_hop_of g first 0 0 # hops\<rparr>))))"

text \<open>\<^verbatim>\<open>Simple\<close>: the line that is logged for every route that is tried.\<close>

definition simple_hop :: "pretty_hop \<Rightarrow> string" where
  "simple_hop h = ''- '' @ ph_alias h @ '' ('' @ itoa (uint (ph_fee_ppm h)) @ ''PPM) ''"

definition simple_route :: "pretty_route \<Rightarrow> string" where
  "simple_route r =
     ''Sending '' @ itoa (uint (pr_amount r)) @ '' sats from ['' @ pr_source_alias r @ ''] to ['' @ pr_destination_alias r
     @ ''] over '' @ itoa (int (length (pr_hops r))) @ '' hops, costing '' @ itoa (uint (pr_fee r)) @ ''msat (''
     @ itoa (uint (pr_fee_ppm r)) @ ''PPM)'' @ '' via '' @ concat (map simple_hop (pr_hops r))"

text \<open>\<^verbatim>\<open>String\<close>: a line for every hop, in columns; \<open>i\<close> is the index of the hop.\<close>

definition hop_line :: "nat \<Rightarrow> pretty_hop \<Rightarrow> string" where
  "hop_line i h =
     ''Hop '' @ pad_left 2 (itoa (int i + 1)) @ '': '' @ pad_left 40 (ph_alias h) @ '', fee: '' @ pad_left 8 (fmt_sats (ph_fee h))
     @ '', ppm: '' @ pad_left 5 (fmt_u64 (ph_fee_ppm h)) @ '', scid: '' @ ph_scid h @ '', delay: '' @ fmt_u64 (ph_delay h)
     @ newline"

definition route_string :: "pretty_route \<Rightarrow> string" where
  "route_string r =
     ''Route from: '' @ pr_source_alias r @ '' to: '' @ pr_destination_alias r @ newline
     @ ''Amount: '' @ fmt_u64 (pr_amount r) @ newline
     @ ''Fee: '' @ fmt_u64 (pr_fee r) @ ''msat'' @ newline
     @ ''Fee PPM: '' @ fmt_u64 (pr_fee_ppm r) @ newline
     @ ''Hops: '' @ itoa (int (length (pr_hops r))) @ newline
     @ concat (map (\<lambda>(i, h). hop_line i h) (enumerate 0 (pr_hops r)))"

section \<open>Amounts and delays along a route\<close>

text \<open>
  What a finished route must satisfy towards lightningd: every hop carries what its successor carries plus
  the fee of the successor's channel, and its timelock exceeds the successor's by that channel's delay.
\<close>

fun forwards :: "route_hop list \<Rightarrow> bool" where
  "forwards (h # n # hs) \<longleftrightarrow>
     hop_msat h = hop_msat n + compute_fee (hop_channel n) (hop_msat n)
     \<and> hop_delay h = hop_delay n + chan_delay (hop_channel n) \<and> forwards (n # hs)"
| "forwards _ \<longleftrightarrow> True"

fun hop_path :: "string \<Rightarrow> route_hop list \<Rightarrow> string \<Rightarrow> bool" where
  "hop_path u [] d \<longleftrightarrow> u = d"
| "hop_path u (h # hs) d \<longleftrightarrow>
     chan_source (hop_channel h) = u \<and> hop_path (chan_destination (hop_channel h)) hs d"

lemma hop_path_append:
  "hop_path u (xs @ ys) d \<longleftrightarrow> (\<exists>m. hop_path u xs m \<and> hop_path m ys d)"
  by (induction xs arbitrary: u) auto

lemma recompute_Nil_iff [simp]: "recompute_fee_and_delay hs = [] \<longleftrightarrow> hs = []"
  by (cases hs rule: recompute_fee_and_delay.cases) (simp_all add: Let_def)

lemma recompute_channels [simp]:
  "map hop_channel (recompute_fee_and_delay hs) = map hop_channel hs"
  by (induction hs rule: recompute_fee_and_delay.induct) (auto simp: Let_def)

lemma recompute_length [simp]: "length (recompute_fee_and_delay hs) = length hs"
  using recompute_channels [of hs] by (metis length_map)

lemma recompute_last: "hs \<noteq> [] \<Longrightarrow> last (recompute_fee_and_delay hs) = last hs"
  by (induction hs rule: recompute_fee_and_delay.induct) (auto simp: Let_def)

lemma recompute_forwards: "forwards (recompute_fee_and_delay hs)"
proof (induction hs rule: recompute_fee_and_delay.induct)
  case (3 h h' hs)
  then show ?case
    by (cases "recompute_fee_and_delay (h' # hs)") (auto simp: Let_def)
qed simp_all

lemma hop_path_channels:
  "map hop_channel hs = map hop_channel hs' \<Longrightarrow> hop_path u hs d = hop_path u hs' d"
proof (induction hs arbitrary: u hs')
  case (Cons h hs)
  then obtain h' t where hs': "hs' = h' # t" by (cases hs') auto
  with Cons.prems have "hop_channel h = hop_channel h'" "map hop_channel hs = map hop_channel t" by auto
  with Cons.IH [of t] show ?case by (simp add: hs')
qed simp

text \<open>In modular arithmetic the fees of the hops telescope.\<close>

lemma pretty_tail_fees:
  "pretty_tail g prev hs = Ok ps \<Longrightarrow>
     sum_list (map ph_fee ps) = hop_msat prev - hop_msat (last (prev # hs))"
proof (induction hs arbitrary: prev ps)
  case (Cons h hs)
  then obtain rest where r: "pretty_tail g h hs = Ok rest"
    and ps: "map ph_fee ps = (hop_msat prev - hop_msat h) # map ph_fee rest"
    by (auto simp: Let_def go_bind_eq_Ok pretty_hop_of_def split: if_splits)
  then show ?case using Cons.IH [OF r] by (simp add: algebra_simps)
qed simp

lemma pretty_tail_length: "pretty_tail g prev hs = Ok ps \<Longrightarrow> length ps = length hs"
  by (induction hs arbitrary: prev ps) (auto simp: Let_def go_bind_eq_Ok split: if_splits)


section \<open>Properties\<close>

text \<open>However the route looked before, after \<^verbatim>\<open>Append\<close> it ends with the given channel, which delivers the
  amount of the route with the final timelock, and every hop carries exactly what its successor needs: its
  amount plus its channel's fee, and its timelock plus its channel's delay.\<close>

theorem append_recomputes_route:
  "forwards (rt_hops (append_hop c r))
   \<and> map hop_channel (rt_hops (append_hop c r)) = map hop_channel (rt_hops r) @ [c]
   \<and> last (rt_hops (append_hop c r)) = \<lparr>hop_channel = c, hop_msat = rt_amount r, hop_delay = INITIAL_DELAY\<rparr>"
  by (simp add: append_hop_def recompute_forwards recompute_last)

text \<open>In the route that is printed and stored, the fees of the single hops add up to the fee of the
  whole route.\<close>

theorem pretty_fees_add_up:
  assumes "new_pretty_route g r payment_hash = Ok p"
    and "hop_msat (last (rt_hops r)) = rt_amount r"
  shows "sum_list (map ph_fee (pr_hops p)) = pr_fee p \<and> length (pr_hops p) = length (rt_hops r)"
proof -
  obtain first rest where hops: "rt_hops r = first # rest"
    using assms(1) by (cases "rt_hops r") (auto simp: new_pretty_route_def)
  then obtain ps where ps: "pretty_tail g first rest = Ok ps" and "pr_hops p = pretty_hop_of g first 0 0 # ps"
    and "pr_fee p = hop_msat first - rt_amount r"
    using assms(1) by (auto simp: new_pretty_route_def go_bind_eq_Ok route_fee_def)
  then show ?thesis
    using pretty_tail_fees [OF ps] pretty_tail_length [OF ps] assms(2)
    by (simp add: hops pretty_hop_of_def)
qed

definition sample_route :: route where
  "sample_route = append_hop (new_channel sample_back 500000000 0)
     (new_route ''02aa'' ''02aa'' 1000000
        [\<lparr>hop_channel = new_channel sample_gl 500000000 0, hop_msat = 0, hop_delay = 0\<rparr>])"

theorem pretty_fees_add_up_witness:
  "\<exists>p. new_pretty_route sample_graph sample_route ''00'' = Ok p
     \<and> sum_list (map ph_fee (pr_hops p)) = pr_fee p \<and> pr_fee p = 1500"
proof -
  have hops: "rt_hops sample_route =
      [\<lparr>hop_channel = new_channel sample_gl 500000000 0, hop_msat = 1001500, hop_delay = 184\<rparr>,
       \<lparr>hop_channel = new_channel sample_back 500000000 0, hop_msat = 1000000, hop_delay = 144\<rparr>]"
    "rt_amount sample_route = 1000000"
    by (simp_all add: sample_route_def append_hop_def new_route_def Let_def compute_fee_def
        sample_back_def sample_gl_def INITIAL_DELAY_def)
  then have "\<exists>p. new_pretty_route sample_graph sample_route ''00'' = Ok p \<and> pr_fee p = 1500"
    by (simp add: new_pretty_route_def Let_def route_fee_def route_fee_ppm_def pretty_hop_of_def)
  then show ?thesis using pretty_fees_add_up [of sample_graph sample_route "''00''"] hops by force
qed

end
