(* ===== verification/Store.thy ===== *)
theory Store
  imports Route "HOL-Library.AList"
begin

text \<open>
  \<^verbatim>\<open>node/db.go\<close>: the key-value store over badger, with the listing of the stored statistics. Badger,
  \<^verbatim>\<open>encoding/json\<close> and \<^verbatim>\<open>crypto/sha256\<close> are libraries: their operations are the fields of a record \<open>library\<close>, over a type \<open>'d\<close>
  of database states. What the properties rely on is \<open>badger_ok\<close>. Any set and any delete may fail (while
  \<^verbatim>\<open>DropPrefix\<close> runs badger refuses all writes, for one); each is one transaction, and one that fails changes nothing, so
  it returns no state. \<^verbatim>\<open>DropPrefix\<close> is no transaction: it returns a state also when it fails.
\<close>

section \<open>The libraries\<close>

record sendpay_failure =
  sf_code :: int
  sf_hash :: string
  sf_msat :: u64
  sf_channel :: string
  sf_direction :: int

record sendpay_success =
  ss_hash :: string
  ss_msat :: u64

text \<open>A library call returns an error or a value.\<close>

type_synonym 'a ext = "go_err + 'a"

fun ext_bind :: "'a ext \<Rightarrow> ('a \<Rightarrow> 'b ext) \<Rightarrow> 'b ext" where
  "ext_bind (Inl e) f = Inl e"
| "ext_bind (Inr x) f = f x"

lemma ext_bind_eq_Inr: "ext_bind r f = Inr y \<longleftrightarrow> (\<exists>x. r = Inr x \<and> f x = Inr y)"
  by (cases r) auto

record 'd library =
  bd_set :: "string \<Rightarrow> string \<Rightarrow> int \<Rightarrow> 'd \<Rightarrow> 'd ext"
  bd_get :: "string \<Rightarrow> 'd \<Rightarrow> string ext"
  bd_delete :: "string \<Rightarrow> 'd \<Rightarrow> 'd ext"
  bd_scan :: "string \<Rightarrow> 'd \<Rightarrow> string ext list"
  bd_drop :: "string list \<Rightarrow> 'd \<Rightarrow> go_err option \<times> 'd"
  json_failure :: "sendpay_failure \<Rightarrow> string ext"
  json_success :: "sendpay_success \<Rightarrow> string ext"
  json_route :: "pretty_route \<Rightarrow> string ext"
  unjson_failure :: "string \<Rightarrow> sendpay_failure ext"
  unjson_success :: "string \<Rightarrow> sendpay_success ext"
  unjson_route :: "string \<Rightarrow> pretty_route ext"
  sha256 :: "8 word list \<Rightarrow> 8 word list"

definition ErrKeyNotFound :: go_err where
  "ErrKeyNotFound = ErrForeign ''Key not found''"

text \<open>
  The documented behaviour of badger transactions: a read sees the last committed write, a deleted or never
  written key is not found, and a write touches no other key. A key with a time to live is as good as deleted
  once it expires, which is a step of its own (\<open>Payment\<close>).
\<close>

definition badger_ok :: "'d library \<Rightarrow> bool" where
  "badger_ok B \<longleftrightarrow>
     (\<forall>k v ttl db db'. bd_set B k v ttl db = Inr db' \<longrightarrow>
        bd_get B k db' = Inr v \<and> (\<forall>k'. k' \<noteq> k \<longrightarrow> bd_get B k' db' = bd_get B k' db)) \<and>
     (\<forall>k db db'. bd_delete B k db = Inr db' \<longrightarrow>
        bd_get B k db' = Inl ErrKeyNotFound \<and> (\<forall>k'. k' \<noteq> k \<longrightarrow> bd_get B k' db' = bd_get B k' db))"

section \<open>Operations\<close>

text \<open>In nanoseconds.\<close>

definition FOURTEEN_DAYS :: int where
  "FOURTEEN_DAYS = 14 * 24 * 3600 * 1000000000"

definition store_set :: "'d library \<Rightarrow> string \<Rightarrow> string \<Rightarrow> 'd \<Rightarrow> 'd ext" where
  "store_set B key val db = bd_set B key val FOURTEEN_DAYS db"

definition store_get :: "'d library \<Rightarrow> string \<Rightarrow> 'd \<Rightarrow> string ext" where
  "store_get B key db = bd_get B key db"

definition store_delete :: "'d library \<Rightarrow> string \<Rightarrow> 'd \<Rightarrow> 'd ext" where
  "store_delete B key db = bd_delete B key db"

text \<open>The loop of the three listings: the first error ends it and drops what was read before.\<close>

fun decode_items :: "(string \<Rightarrow> 'a ext) \<Rightarrow> string ext list \<Rightarrow> 'a list \<Rightarrow> 'a list ext" where
  "decode_items unjson [] acc = Inr acc"
| "decode_items unjson (item # items) acc =
     ext_bind item (\<lambda>v. ext_bind (unjson v) (\<lambda>x. decode_items unjson items (acc @ [x])))"

definition list_failures :: "'d library \<Rightarrow> 'd \<Rightarrow> sendpay_failure list ext" where
  "list_failures B db = decode_items (unjson_failure B) (bd_scan B FailurePrefix db) []"

definition list_successes :: "'d library \<Rightarrow> 'd \<Rightarrow> sendpay_success list ext" where
  "list_successes B db = decode_items (unjson_success B) (bd_scan B SuccessPrefix db) []"

definition list_routes :: "'d library \<Rightarrow> 'd \<Rightarrow> pretty_route list ext" where
  "list_routes B db = decode_items (unjson_route B) (bd_scan B RoutePrefix db) []"

text \<open>\<open>json\<close> is the result of \<^verbatim>\<open>json.Marshal(value)\<close>.\<close>

definition save_to_db :: "'d library \<Rightarrow> bool \<Rightarrow> string \<Rightarrow> string ext \<Rightarrow> 'd \<Rightarrow> 'd ext" where
  "save_to_db B save_stats key json db =
     (if \<not> save_stats then Inr db
      else ext_bind json (\<lambda>b. store_set B key b db))"

section \<open>Laws\<close>

lemma store_get_set:
  assumes "badger_ok B" and "store_set B k v db = Inr db'"
  shows "store_get B k' db' = (if k' = k then Inr v else store_get B k' db)"
  using assms unfolding badger_ok_def store_set_def store_get_def by auto

lemma store_get_delete:
  assumes "badger_ok B" and "store_delete B k db = Inr db'"
  shows "store_get B k' db' = (if k' = k then Inl ErrKeyNotFound else store_get B k' db)"
  using assms unfolding badger_ok_def store_delete_def store_get_def by auto

lemma save_to_db_get:
  assumes "badger_ok B" and "save_to_db B s k json db = Inr db'" and "k' \<noteq> k"
  shows "store_get B k' db' = store_get B k' db"
  using assms by (auto simp: save_to_db_def ext_bind_eq_Inr store_get_set split: if_splits)

lemma decode_items_Inr:
  "decode_items unjson items acc = Inr xs \<longleftrightarrow>
     (\<exists>ys. xs = acc @ ys \<and> list_all2 (\<lambda>item x. \<exists>v. item = Inr v \<and> unjson v = Inr x) items ys)"
proof (induction items arbitrary: acc)
  case (Cons item items)
  then show ?case by (auto simp: ext_bind_eq_Inr list_all2_Cons1)
qed auto

text \<open>A database of the shape badger promises, for the witnesses: keys in order, no expiry.\<close>

definition map_library :: "(string \<times> string) list library" where
  "map_library = \<lparr>
     bd_set = \<lambda>k v ttl db. Inr (AList.update k v db),
     bd_get = \<lambda>k db. case map_of db k of None \<Rightarrow> Inl ErrKeyNotFound | Some v \<Rightarrow> Inr v,
     bd_delete = \<lambda>k db. Inr (AList.delete k db),
     bd_scan = \<lambda>p db. map (\<lambda>k. Inr (the (map_of db k))) (remdups (filter (prefix p) (map fst db))),
     bd_drop = \<lambda>ps db. (None, filter (\<lambda>(k, v). \<not> (\<exists>p \<in> set ps. prefix p k)) db),
     json_failure = \<lambda>x. Inr ''failure'', json_success = \<lambda>x. Inr ''success'', json_route = \<lambda>x. Inr ''route'',
     unjson_failure = \<lambda>s. Inl (ErrForeign ''json''), unjson_success = \<lambda>s. Inl (ErrForeign ''json''),
     unjson_route = \<lambda>s. Inl (ErrForeign ''json''), sha256 = rev\<rparr>"

lemma map_library_ok: "badger_ok map_library"
  by (auto simp: badger_ok_def map_library_def update_conv' delete_conv')

end
