(* ===== verification/PQueue.thy ===== *)
theory PQueue
  imports Prelude
begin

text \<open>
  \<^verbatim>\<open>graph/pq.go\<close>: the priority queue of the path finder, a slice of items ordered as a binary heap by
  Go's \<^verbatim>\<open>container/heap\<close>. The five methods of \<^verbatim>\<open>heap.Interface\<close> and the library's \<^verbatim>\<open>up\<close>, \<^verbatim>\<open>down\<close>, \<^verbatim>\<open>Init\<close>,
  \<^verbatim>\<open>Push\<close>, \<^verbatim>\<open>Pop\<close> and \<^verbatim>\<open>Fix\<close> are modelled on lists. The locale \<open>min_queue\<close> is the interface that the
  path finder relies on; it is interpreted on this heap.
\<close>

section \<open>Items and the heap interface\<close>

record pq_value =
  pq_node :: string
  pq_amount :: u64
  pq_delay :: u64
  pq_hops :: int

record pq_item =
  item_value :: pq_value
  item_priority :: int
  item_index :: int

type_synonym pqueue = "pq_item list"

definition pq_less :: "pqueue \<Rightarrow> nat \<Rightarrow> nat \<Rightarrow> bool" where
  "pq_less q i j \<longleftrightarrow> item_priority (q ! i) < item_priority (q ! j)"

definition pq_swap :: "nat \<Rightarrow> nat \<Rightarrow> pqueue \<Rightarrow> pqueue" where
  "pq_swap i j q =
     q[i := (q ! j)\<lparr>item_index := int i\<rparr>, j := (q ! i)\<lparr>item_index := int j\<rparr>]"

definition pq_push :: "pqueue \<Rightarrow> pq_item \<Rightarrow> pqueue" where
  "pq_push q x = q @ [x\<lparr>item_index := int (length q)\<rparr>]"

definition pq_pop :: "pqueue \<Rightarrow> pq_item \<times> pqueue" where
  "pq_pop q = ((q ! (length q - 1))\<lparr>item_index := - 1\<rparr>, take (length q - 1) q)"

section \<open>The heap of the Go library\<close>

function up :: "pqueue \<Rightarrow> nat \<Rightarrow> pqueue" where
  "up q j =
     (let i = (j - 1) div 2
      in if i = j \<or> \<not> pq_less q j i then q else up (pq_swap i j q) i)"
  by pat_completeness auto
termination
  by (relation "measure snd") auto

function down_loop :: "pqueue \<Rightarrow> nat \<Rightarrow> nat \<Rightarrow> pqueue \<times> nat" where
  "down_loop q i n =
     (let j1 = 2 * i + 1
      in if n \<le> j1 then (q, i)
         else let j = (if j1 + 1 < n \<and> pq_less q (j1 + 1) j1 then j1 + 1 else j1)
              in if \<not> pq_less q j i then (q, i) else down_loop (pq_swap i j q) j n)"
  by pat_completeness auto
termination
  by (relation "measure (\<lambda>(q, i, n). n - i)") (auto split: if_splits)

declare up.simps [simp del] down_loop.simps [simp del]

definition down :: "pqueue \<Rightarrow> nat \<Rightarrow> nat \<Rightarrow> pqueue \<times> bool" where
  "down q i0 n = (let (q', i) = down_loop q i0 n in (q', i0 < i))"

definition heap_init :: "pqueue \<Rightarrow> pqueue" where
  "heap_init q = fold (\<lambda>i q. fst (down q i (length q))) (rev [0..<length q div 2]) q"

definition heap_push :: "pqueue \<Rightarrow> pq_value \<Rightarrow> int \<Rightarrow> pqueue" where
  "heap_push q v p =
     (let q' = pq_push q \<lparr>item_value = v, item_priority = p, item_index = 0\<rparr>
      in up q' (length q' - 1))"

definition heap_pop :: "pqueue \<Rightarrow> pq_item \<times> pqueue" where
  "heap_pop q = (let n = length q - 1 in pq_pop (fst (down (pq_swap 0 n q) 0 n)))"

definition heap_fix :: "pqueue \<Rightarrow> nat \<Rightarrow> pqueue" where
  "heap_fix q i = (let (q', moved) = down q i (length q) in if moved then q' else up q' i)"

text \<open>\<^verbatim>\<open>update\<close> changes the item at position \<open>i\<close> (its \<^verbatim>\<open>index\<close>) and restores the order.\<close>

definition pq_update :: "pqueue \<Rightarrow> nat \<Rightarrow> pq_value \<Rightarrow> int \<Rightarrow> pqueue" where
  "pq_update q i v p =
     heap_fix (q[i := (q ! i)\<lparr>item_value := v, item_priority := p\<rparr>]) i"

section \<open>Invariants\<close>

definition item_key :: "pq_item \<Rightarrow> pq_value \<times> int" where
  "item_key it = (item_value it, item_priority it)"

definition pq_elems :: "pqueue \<Rightarrow> (pq_value \<times> int) multiset" where
  "pq_elems q = mset (map item_key q)"

definition pr :: "pqueue \<Rightarrow> nat \<Rightarrow> int" where
  "pr q k = item_priority (q ! k)"

definition par :: "nat \<Rightarrow> nat" where
  "par k = (k - 1) div 2"

definition heap_upto :: "nat \<Rightarrow> pqueue \<Rightarrow> bool" where
  "heap_upto n q \<longleftrightarrow> (\<forall>k. 0 < k \<and> k < n \<longrightarrow> pr q (par k) \<le> pr q k)"

definition is_heap :: "pqueue \<Rightarrow> bool" where
  "is_heap q \<longleftrightarrow> heap_upto (length q) q"

definition index_ok :: "pqueue \<Rightarrow> bool" where
  "index_ok q \<longleftrightarrow> (\<forall>k < length q. item_index (q ! k) = int k)"

lemma par_eq_iff: "0 < k \<Longrightarrow> par k = i \<longleftrightarrow> k = 2 * i + 1 \<or> k = 2 * i + 2"
  unfolding par_def by presburger

lemma par_less: "0 < k \<Longrightarrow> par k < k"
  unfolding par_def by presburger

lemma length_pq_swap [simp]: "length (pq_swap i j q) = length q"
  by (simp add: pq_swap_def)

lemma pr_swap:
  "i < length q \<Longrightarrow> j < length q \<Longrightarrow>
     pr (pq_swap i j q) k = (if k = i then pr q j else if k = j then pr q i else pr q k)"
  by (auto simp: pr_def pq_swap_def nth_list_update)

lemma elems_swap:
  assumes "i < length q" and "j < length q"
  shows "pq_elems (pq_swap i j q) = pq_elems q"
proof -
  have "map item_key (pq_swap i j q) =
      (map item_key q)[i := map item_key q ! j, j := map item_key q ! i]"
    using assms by (simp add: pq_swap_def map_update item_key_def)
  also have "mset \<dots> = mset (map item_key q)" using assms by (intro mset_swap) simp_all
  finally show ?thesis by (simp only: pq_elems_def)
qed

lemma index_swap: "index_ok q \<Longrightarrow> index_ok (pq_swap i j q)"
  by (auto simp: index_ok_def pq_swap_def nth_list_upd)

lemma pq_less_pr: "pq_less q i j \<longleftrightarrow> pr q i < pr q j"
  by (simp add: pq_less_def pr_def)

subsection \<open>Moving up\<close>

lemma up_frame [simp]: "length (up q j) = length q"
proof (induction q j rule: up.induct)
  case (1 q j)
  then show ?case by (subst up.simps) (simp add: Let_def)
qed

lemma up_elems: "j < length q \<Longrightarrow> pq_elems (up q j) = pq_elems q"
proof (induction q j rule: up.induct)
  case (1 q j)
  then show ?case by (subst up.simps) (auto simp: Let_def elems_swap)
qed

lemma up_index: "index_ok q \<Longrightarrow> index_ok (up q j)"
proof (induction q j rule: up.induct)
  case (1 q j)
  then show ?case by (subst up.simps) (auto simp: Let_def index_swap)
qed

definition up_inv :: "nat \<Rightarrow> pqueue \<Rightarrow> nat \<Rightarrow> bool" where
  "up_inv n q j \<longleftrightarrow>
     (\<forall>k. 0 < k \<and> k < n \<and> k \<noteq> j \<longrightarrow> pr q (par k) \<le> pr q k) \<and>
     (\<forall>k. 0 < j \<and> 0 < k \<and> k < n \<and> par k = j \<longrightarrow> pr q (par j) \<le> pr q k)"

lemma up_inv_swap:
  assumes inv: "up_inv n q j" and j: "0 < j" "j < n" "n \<le> length q"
    and less: "pr q j < pr q (par j)"
  shows "up_inv n (pq_swap (par j) j q) (par j)"
proof -
  let ?i = "par j"
  have i: "?i < j" using j par_less by simp
  then have sw: "pr (pq_swap ?i j q) k = (if k = ?i then pr q j else if k = j then pr q ?i else pr q k)"
    for k using j by (intro pr_swap) auto
  show ?thesis
    unfolding up_inv_def
  proof (intro conjI allI impI)
    fix k assume k: "0 < k \<and> k < n \<and> k \<noteq> ?i"
    show "pr (pq_swap ?i j q) (par k) \<le> pr (pq_swap ?i j q) k"
    proof (cases "k = j")
      case True then show ?thesis using less i by (simp add: sw)
    next
      case False
      have base: "pr q (par k) \<le> pr q k" using inv k False by (auto simp: up_inv_def)
      show ?thesis
        using inv k False j less base by (auto simp: sw up_inv_def)
    qed
  next
    fix k assume k: "0 < ?i \<and> 0 < k \<and> k < n \<and> par k = ?i"
    have p: "par ?i < ?i" using k par_less by simp
    have up: "pr q (par ?i) \<le> pr q ?i" using inv k i j by (auto simp: up_inv_def)
    show "pr (pq_swap ?i j q) (par ?i) \<le> pr (pq_swap ?i j q) k"
    proof (cases "k = j")
      case True then show ?thesis using up p i by (simp add: sw)
    next
      case False
      then have "pr q ?i \<le> pr q k" using inv k by (auto simp: up_inv_def)
      moreover have "k \<noteq> ?i" using k par_less [of k] by auto
      ultimately show ?thesis using up p i False by (simp add: sw)
    qed
  qed
qed

lemma up_heap: "up_inv n q j \<Longrightarrow> j < n \<Longrightarrow> n \<le> length q \<Longrightarrow> heap_upto n (up q j)"
proof (induction q j rule: up.induct)
  case (1 q j)
  show ?case
  proof (cases "(j - 1) div 2 = j \<or> \<not> pq_less q j ((j - 1) div 2)")
    case True
    then have "up q j = q" by (subst up.simps) (simp add: Let_def)
    moreover have "0 < j \<Longrightarrow> pr q (par j) \<le> pr q j"
      using True by (auto simp: par_def pq_less_pr)
    ultimately show ?thesis using "1.prems" by (auto simp: heap_upto_def up_inv_def)
  next
    case False
    then have j: "0 < j" and less: "pr q j < pr q (par j)"
      by (auto simp: par_def pq_less_pr intro: ccontr)
    have step: "up q j = up (pq_swap (par j) j q) (par j)"
      using False by (subst up.simps) (simp add: Let_def par_def)
    show ?thesis
      unfolding step
      using False "1.prems" par_less [OF j] up_inv_swap [OF "1.prems"(1) j "1.prems"(2,3) less]
      by (intro "1.IH") (auto simp: par_def)
  qed
qed

subsection \<open>Moving down\<close>

lemma down_frame [simp]: "length (fst (down_loop q i n)) = length q"
proof (induction q i n rule: down_loop.induct)
  case (1 q i n)
  then show ?case by (subst down_loop.simps) (simp add: Let_def)
qed

lemma down_elems:
  "i < n \<Longrightarrow> n \<le> length q \<Longrightarrow> pq_elems (fst (down_loop q i n)) = pq_elems q"
proof (induction q i n rule: down_loop.induct)
  case (1 q i n)
  then show ?case by (subst down_loop.simps) (auto simp: Let_def elems_swap)
qed

lemma down_index: "index_ok q \<Longrightarrow> index_ok (fst (down_loop q i n))"
proof (induction q i n rule: down_loop.induct)
  case (1 q i n)
  then show ?case by (subst down_loop.simps) (auto simp: Let_def index_swap)
qed

text \<open>Positions from \<open>n\<close> on, and positions before \<open>i\<close>, are not touched.\<close>

lemma down_outside:
  "n \<le> k \<or> k < i \<Longrightarrow> fst (down_loop q i n) ! k = q ! k"
proof (induction q i n rule: down_loop.induct)
  case (1 q i n)
  then show ?case
    by (subst down_loop.simps) (auto simp: Let_def pq_swap_def nth_list_upd)
qed

text \<open>The heap order at positions from \<open>m\<close> on, apart from the children of \<open>i\<close>.\<close>

definition down_inv :: "nat \<Rightarrow> nat \<Rightarrow> pqueue \<Rightarrow> nat \<Rightarrow> bool" where
  "down_inv m n q i \<longleftrightarrow>
     (\<forall>k. 0 < k \<and> k < n \<and> m \<le> par k \<and> par k \<noteq> i \<longrightarrow> pr q (par k) \<le> pr q k) \<and>
     (\<forall>k. m < i \<and> m \<le> par i \<and> 0 < k \<and> k < n \<and> par k = i \<longrightarrow> pr q (par i) \<le> pr q k)"

definition heap_between :: "nat \<Rightarrow> nat \<Rightarrow> pqueue \<Rightarrow> bool" where
  "heap_between m n q \<longleftrightarrow>
     (\<forall>k. 0 < k \<and> k < n \<and> m \<le> par k \<longrightarrow> pr q (par k) \<le> pr q k)"

lemma heap_upto_between: "heap_upto n q \<longleftrightarrow> heap_between 0 n q"
  by (simp add: heap_upto_def heap_between_def)

definition least_child :: "pqueue \<Rightarrow> nat \<Rightarrow> nat \<Rightarrow> nat" where
  "least_child q i n =
     (if 2 * i + 2 < n \<and> pq_less q (2 * i + 2) (2 * i + 1) then 2 * i + 2 else 2 * i + 1)"

lemma least_child:
  assumes "2 * i + 1 < n"
  shows "0 < least_child q i n" "least_child q i n < n" "par (least_child q i n) = i"
    "i < least_child q i n"
    "\<lbrakk>0 < k; k < n; par k = i\<rbrakk> \<Longrightarrow> pr q (least_child q i n) \<le> pr q k"
  using assms by (auto simp: least_child_def par_eq_iff pq_less_pr)

lemma down_inv_swap:
  assumes inv: "down_inv m n q i" and c: "2 * i + 1 < n" "n \<le> length q" and m: "m \<le> i"
    and less: "pr q (least_child q i n) < pr q i"
  shows "down_inv m n (pq_swap i (least_child q i n) q) (least_child q i n)"
proof -
  let ?j = "least_child q i n"
  note lc = least_child [OF c(1), where q = q]
  have sw: "pr (pq_swap i ?j q) k = (if k = i then pr q ?j else if k = ?j then pr q i else pr q k)"
    for k using lc(2,4) c by (intro pr_swap) auto
  show ?thesis
    unfolding down_inv_def
  proof (intro conjI allI impI)
    fix k assume k: "0 < k \<and> k < n \<and> m \<le> par k \<and> par k \<noteq> ?j"
    show "pr (pq_swap i ?j q) (par k) \<le> pr (pq_swap i ?j q) k"
    proof (cases "par k = i")
      case True
      then show ?thesis using lc k less par_less [of k] by (auto simp: sw)
    next
      case False
      then have "pr q (par k) \<le> pr q k" using inv k by (auto simp: down_inv_def)
      moreover have "k = i \<Longrightarrow> pr q (par i) \<le> pr q ?j"
        using inv k lc m par_less [of k] by (auto simp: down_inv_def)
      moreover have "k \<noteq> ?j" using False lc by auto
      ultimately show ?thesis using k False by (auto simp: sw)
    qed
  next
    fix k assume k: "m < ?j \<and> m \<le> par ?j \<and> 0 < k \<and> k < n \<and> par k = ?j"
    then have "pr q ?j \<le> pr q k" using inv lc m by (auto simp: down_inv_def)
    moreover have "k \<noteq> i" "k \<noteq> ?j" using k par_less [of k] lc(4) by auto
    ultimately show "pr (pq_swap i ?j q) (par ?j) \<le> pr (pq_swap i ?j q) k"
      using lc by (simp add: sw)
  qed
qed

lemma down_step:
  "2 * i + 1 < n \<Longrightarrow> down_loop q i n =
     (if pr q (least_child q i n) < pr q i
      then down_loop (pq_swap i (least_child q i n) q) (least_child q i n) n else (q, i))"
  by (subst down_loop.simps) (simp add: Let_def least_child_def pq_less_pr)

lemma down_stop: "n \<le> 2 * i + 1 \<Longrightarrow> down_loop q i n = (q, i)"
  by (subst down_loop.simps) simp

lemma down_heap:
  "down_inv m n q i \<Longrightarrow> n \<le> length q \<Longrightarrow> m \<le> i \<Longrightarrow> heap_between m n (fst (down_loop q i n))"
proof (induction "n - i" arbitrary: q i rule: less_induct)
  case less
  show ?case
  proof (cases "2 * i + 1 < n")
    case False
    then have "down_loop q i n = (q, i)" by (simp add: down_stop)
    moreover have "par k \<noteq> i" if "0 < k" "k < n" for k
      using that False by (auto simp: par_eq_iff)
    ultimately show ?thesis using less.prems by (auto simp: heap_between_def down_inv_def)
  next
    case c: True
    note lc = least_child [OF c, where q = q]
    show ?thesis
    proof (cases "pr q (least_child q i n) < pr q i")
      case True
      have "heap_between m n
          (fst (down_loop (pq_swap i (least_child q i n) q) (least_child q i n) n))"
        using lc less.prems down_inv_swap [OF less.prems(1) c less.prems(2,3) True]
        by (intro less.hyps) auto
      then show ?thesis using True c by (simp add: down_step)
    next
      case False
      then have "pr q (par k) \<le> pr q k" if "0 < k" "k < n" "par k = i" for k
        using lc(5) [OF that] that by simp
      with False show ?thesis using less.prems c
        by (auto simp: down_step heap_between_def down_inv_def)
    qed
  qed
qed

lemma down_moved:
  "i \<le> snd (down_loop q i n) \<and> (snd (down_loop q i n) = i \<longrightarrow> fst (down_loop q i n) = q)"
proof (induction "n - i" arbitrary: q i rule: less_induct)
  case less
  show ?case
  proof (cases "2 * i + 1 < n \<and> pr q (least_child q i n) < pr q i")
    case True
    then have "i < least_child q i n" using least_child(4) by blast
    with True less.hyps [of "least_child q i n" "pq_swap i (least_child q i n) q"]
    show ?thesis by (fastforce simp: down_step)
  next
    case False
    then show ?thesis by (cases "2 * i + 1 < n") (auto simp: down_step down_stop)
  qed
qed

lemma fst_down [simp]: "fst (down q i n) = fst (down_loop q i n)"
  by (simp add: down_def Let_def split_def)

subsection \<open>The root is minimal\<close>

lemma heap_root:
  "heap_upto n q \<Longrightarrow> k < n \<Longrightarrow> pr q 0 \<le> pr q k"
proof (induction k rule: less_induct)
  case (less k)
  show ?case
  proof (cases "k = 0")
    case False
    then have "pr q 0 \<le> pr q (par k)"
      using less.IH [of "par k"] less.prems par_less [of k] by simp
    also have "\<dots> \<le> pr q k" using less.prems False by (auto simp: heap_upto_def)
    finally show ?thesis .
  qed simp
qed

lemma root_le_elems:
  assumes "is_heap q" and "(v, p) \<in># pq_elems q"
  shows "pr q 0 \<le> p"
proof -
  from assms(2) obtain k where "k < length q" and "p = pr q k"
    by (auto simp: pq_elems_def item_key_def in_set_conv_nth pr_def)
  with assms(1) show ?thesis by (auto simp: is_heap_def intro: heap_root)
qed

subsection \<open>Push, pop, init, fix\<close>

lemma pq_push_elems: "pq_elems (pq_push q x) = add_mset (item_key x) (pq_elems q)"
  by (simp add: pq_elems_def pq_push_def item_key_def)

lemma heap_push_elems: "pq_elems (heap_push q v p) = add_mset (v, p) (pq_elems q)"
proof -
  let ?q = "pq_push q \<lparr>item_value = v, item_priority = p, item_index = 0\<rparr>"
  have "0 < length ?q" by (simp add: pq_push_def)
  then have "pq_elems (up ?q (length ?q - 1)) = pq_elems ?q" by (intro up_elems) simp
  then show ?thesis by (simp add: heap_push_def Let_def pq_push_elems item_key_def)
qed

lemma heap_push_heap: "is_heap q \<Longrightarrow> is_heap (heap_push q v p)"
proof -
  assume h: "is_heap q"
  let ?q = "pq_push q \<lparr>item_value = v, item_priority = p, item_index = 0\<rparr>"
  have len: "length ?q = Suc (length q)" by (simp add: pq_push_def)
  have pr: "pr ?q k = pr q k" if "k < length q" for k
    using that by (simp add: pq_push_def pr_def nth_append)
  have "pr ?q (par k) \<le> pr ?q k" if "0 < k" "k < length q" for k
    using h that par_less [of k] by (auto simp: pr is_heap_def heap_upto_def)
  moreover have "\<not> par k = length q" if "0 < k" "k < Suc (length q)" for k
    using that par_less [of k] by linarith
  ultimately have "up_inv (length ?q) ?q (length q)"
    by (auto simp: up_inv_def len less_Suc_eq)
  then have "heap_upto (length ?q) (up ?q (length q))" by (rule up_heap) (simp_all add: len)
  then show ?thesis by (simp add: heap_push_def is_heap_def len Let_def)
qed

lemma heap_push_index: "index_ok q \<Longrightarrow> index_ok (heap_push q v p)"
  unfolding heap_push_def Let_def
  by (intro up_index) (auto simp: pq_push_def index_ok_def nth_append less_Suc_eq)

lemma length_heap_push [simp]: "length (heap_push q v p) = Suc (length q)"
  by (simp add: heap_push_def Let_def pq_push_def)

text \<open>What \<^verbatim>\<open>heap.Pop\<close> returns and leaves, before the order is looked at.\<close>

lemma heap_pop_shape:
  assumes "q \<noteq> []"
  defines "n \<equiv> length q - 1"
  defines "d \<equiv> fst (down_loop (pq_swap 0 n q) 0 n)"
  shows "item_key (fst (heap_pop q)) = item_key (q ! 0)"
    and "snd (heap_pop q) = take n d"
    and "length d = length q"
    and "pq_elems d = pq_elems q"
    and "d ! n = (q ! 0)\<lparr>item_index := int n\<rparr>"
proof -
  have n: "n < length q" using assms(1) by (simp add: n_def)
  show len: "length d = length q" by (simp add: d_def)
  show last: "d ! n = (q ! 0)\<lparr>item_index := int n\<rparr>"
    using n unfolding d_def by (simp add: down_outside pq_swap_def nth_list_upd)
  show "snd (heap_pop q) = take n d"
    using len by (simp add: heap_pop_def pq_pop_def Let_def n_def d_def)
  have "fst (heap_pop q) = (d ! n)\<lparr>item_index := - 1\<rparr>"
    using len by (simp add: heap_pop_def pq_pop_def Let_def n_def d_def)
  then show "item_key (fst (heap_pop q)) = item_key (q ! 0)"
    using last by (simp add: item_key_def)
  show "pq_elems d = pq_elems q"
  proof (cases "0 < n")
    case True
    then show ?thesis using n unfolding d_def by (subst down_elems) (auto intro!: elems_swap)
  next
    case False
    then show ?thesis using n unfolding d_def
      by (subst down_loop.simps) (simp add: elems_swap)
  qed
qed

lemma heap_pop_elems:
  assumes "q \<noteq> []"
  shows "pq_elems q = add_mset (item_key (fst (heap_pop q))) (pq_elems (snd (heap_pop q)))"
proof -
  let ?n = "length q - 1"
  let ?d = "fst (down_loop (pq_swap 0 ?n q) 0 ?n)"
  note s = heap_pop_shape [OF assms]
  have "?d = take ?n ?d @ [?d ! ?n]"
    using assms s(3) by (metis Suc_diff_1 diff_less length_greater_0_conv lessI take_Suc_conv_app_nth
        take_all_iff order_refl zero_less_one)
  then have "pq_elems ?d = pq_elems (take ?n ?d @ [?d ! ?n])" by simp
  also have "\<dots> = add_mset (item_key (?d ! ?n)) (pq_elems (take ?n ?d))"
    by (simp only: pq_elems_def map_append mset_append list.map mset.simps) simp
  finally have "pq_elems ?d = add_mset (item_key (?d ! ?n)) (pq_elems (take ?n ?d))" .
  then show ?thesis using s by (simp add: item_key_def)
qed

lemma heap_upto_take: "heap_upto n q \<Longrightarrow> heap_upto n (take n q)"
proof -
  assume h: "heap_upto n q"
  have "pr (take n q) k = pr q k" if "k < n" for k using that by (simp add: pr_def)
  with h show ?thesis
    unfolding heap_upto_def by (metis less_trans par_less)
qed

lemma heap_up_inv:
  assumes "heap_upto n q" and "i < n"
  shows "up_inv n q i"
proof -
  have "pr q (par i) \<le> pr q k" if "0 < i" "0 < k" "k < n" "par k = i" for k
  proof -
    have "pr q (par i) \<le> pr q i" using assms that by (simp add: heap_upto_def)
    also have "\<dots> \<le> pr q k" using assms that by (auto simp: heap_upto_def)
    finally show ?thesis .
  qed
  with assms show ?thesis by (auto simp: up_inv_def heap_upto_def)
qed

lemma heap_pop_heap:
  assumes "is_heap q" and "q \<noteq> []"
  shows "is_heap (snd (heap_pop q))"
proof -
  let ?n = "length q - 1"
  let ?q = "pq_swap 0 ?n q"
  have n: "?n < length q" using assms(2) by simp
  have sw: "pr ?q k = pr q k" if "0 < k" "k < ?n" for k
    using that n pr_swap [of 0 q ?n k] by (cases q) auto
  have "pr ?q (par k) \<le> pr ?q k" if "0 < k" "k < ?n" "par k \<noteq> 0" for k
    using that assms(1) par_less [of k] sw [of k] sw [of "par k"]
    by (simp add: is_heap_def heap_upto_def)
  then have "down_inv 0 ?n ?q 0" by (auto simp: down_inv_def)
  then have "heap_between 0 ?n (fst (down_loop ?q 0 ?n))"
    using n by (intro down_heap) simp_all
  then have "heap_upto ?n (take ?n (fst (down_loop ?q 0 ?n)))"
    by (simp only: heap_upto_between [symmetric] heap_upto_take)
  then show ?thesis using heap_pop_shape [OF assms(2)] by (simp add: is_heap_def)
qed

lemma heap_pop_index:
  assumes "index_ok q" and "q \<noteq> []"
  shows "index_ok (snd (heap_pop q))"
proof -
  have "index_ok (fst (down_loop (pq_swap 0 (length q - 1) q) 0 (length q - 1)))"
    using assms(1) by (intro down_index index_swap)
  then show ?thesis using heap_pop_shape [OF assms(2)] by (auto simp: index_ok_def)
qed

lemma heap_pop_least:
  assumes "is_heap q" and "(v, p) \<in># pq_elems q"
  shows "snd (item_key (fst (heap_pop q))) \<le> p"
proof -
  have "q \<noteq> []" using assms(2) by (auto simp: pq_elems_def)
  then show ?thesis
    using root_le_elems [OF assms] heap_pop_shape(1) by (simp add: item_key_def pr_def)
qed

lemma length_heap_pop: "q \<noteq> [] \<Longrightarrow> length (snd (heap_pop q)) = length q - 1"
  using heap_pop_shape [of q] by simp

lemma heap_between_extend:
  assumes "heap_between (Suc i) n q" and "n \<le> length q"
  shows "heap_between i n (fst (down_loop q i n))"
  using assms by (intro down_heap) (auto simp: down_inv_def heap_between_def)

lemma heap_init_steps:
  "m \<le> length q \<Longrightarrow> heap_between m (length q) q \<Longrightarrow>
   heap_between 0 (length q) (fold (\<lambda>i q. fst (down q i (length q))) (rev [0..<m]) q)
   \<and> length (fold (\<lambda>i q. fst (down q i (length q))) (rev [0..<m]) q) = length q
   \<and> pq_elems (fold (\<lambda>i q. fst (down q i (length q))) (rev [0..<m]) q) = pq_elems q"
proof (induction m arbitrary: q)
  case 0
  then show ?case by simp
next
  case (Suc m)
  let ?q = "fst (down_loop q m (length q))"
  have "heap_between m (length q) ?q" using Suc.prems by (intro heap_between_extend) simp_all
  then show ?case
    using Suc.IH [of ?q] Suc.prems by (simp add: down_elems)
qed

lemma heap_init_heap: "is_heap (heap_init q) \<and> pq_elems (heap_init q) = pq_elems q"
proof -
  have "\<not> length q div 2 \<le> par k" if "0 < k" "k < length q" for k
    using that unfolding par_def by linarith
  then have "heap_between (length q div 2) (length q) q"
    by (auto simp: heap_between_def)
  then show ?thesis
    using heap_init_steps [of "length q div 2" q]
    by (simp add: heap_init_def is_heap_def heap_upto_between)
qed

lemma heap_fix_heap:
  assumes h: "is_heap q" and i: "i < length q"
  shows "is_heap (heap_fix (q[i := (q ! i)\<lparr>item_value := v, item_priority := p\<rparr>]) i)"
proof -
  let ?q = "q[i := (q ! i)\<lparr>item_value := v, item_priority := p\<rparr>]"
  let ?n = "length q"
  have pr: "pr ?q k = (if k = i then p else pr q k)" for k
    using i by (simp add: pr_def nth_list_upd)
  have ord: "pr q (par k) \<le> pr q k" if "0 < k" "k < ?n" for k
    using h that by (simp add: is_heap_def heap_upto_def)
  have trans: "pr q (par i) \<le> pr q k" if "0 < i" "0 < k" "k < ?n" "par k = i" for k
    using that i ord [of i] ord [of k] by simp
  have fix_eq: "heap_fix ?q i =
      (if i < snd (down_loop ?q i ?n) then fst (down_loop ?q i ?n) else up ?q i)"
    using down_moved [of i ?q ?n]
    by (auto simp: heap_fix_def down_def Let_def split_def)
  show ?thesis
  proof (cases "0 < i \<and> p < pr q (par i)")
    case True
    have "down_loop ?q i ?n = (?q, i)"
    proof (cases "2 * i + 1 < ?n")
      case c: True
      note lc = least_child [OF c, where q = ?q]
      have "pr q (par i) \<le> pr q (least_child ?q i ?n)" using trans [OF _ lc(1,2,3)] True by simp
      with True lc(4) have "\<not> pr ?q (least_child ?q i ?n) < pr ?q i" by (simp add: pr)
      then show ?thesis using c by (simp add: down_step)
    qed (simp add: down_stop)
    moreover have "par i \<noteq> i" using True par_less [of i] by simp
    then have "up_inv ?n ?q i"
      unfolding up_inv_def using ord trans True by (auto simp: pr) (metis less_le_trans order.strict_implies_order)
    ultimately show ?thesis using i up_heap [of ?n ?q i] by (simp add: fix_eq is_heap_def)
  next
    case False
    moreover have "0 < i \<Longrightarrow> par i \<noteq> i" using par_less [of i] by simp
    ultimately have "down_inv 0 ?n ?q i" using ord trans i by (auto simp: down_inv_def pr)
    then have hb: "heap_upto ?n (fst (down_loop ?q i ?n))"
      unfolding heap_upto_between by (intro down_heap) simp_all
    show ?thesis
    proof (cases "i < snd (down_loop ?q i ?n)")
      case True
      then show ?thesis using hb by (simp add: fix_eq is_heap_def)
    next
      case False
      then have "fst (down_loop ?q i ?n) = ?q" using down_moved [of i ?q ?n] by simp
      with hb i have "up_inv ?n ?q i" by (intro heap_up_inv) simp_all
      then show ?thesis using False i up_heap [of ?n ?q i] by (simp add: fix_eq is_heap_def)
    qed
  qed
qed

section \<open>The queue the path finder relies on\<close>

text \<open>
  The contract of a minimum queue: its content is a multiset of values with priorities, a push adds one,
  a pop takes out one of least priority. The path finder uses these laws only.
\<close>

locale min_queue =
  fixes invar :: "'q \<Rightarrow> bool"
    and elems :: "'q \<Rightarrow> ('v \<times> int) multiset"
    and push :: "'q \<Rightarrow> 'v \<Rightarrow> int \<Rightarrow> 'q"
    and pop :: "'q \<Rightarrow> ('v \<times> int) \<times> 'q"
  assumes push_invar: "invar q \<Longrightarrow> invar (push q v p)"
    and push_elems: "elems (push q v p) = add_mset (v, p) (elems q)"
    and pop_invar: "invar q \<Longrightarrow> elems q \<noteq> {#} \<Longrightarrow> invar (snd (pop q))"
    and pop_elems: "elems q \<noteq> {#} \<Longrightarrow> elems q = add_mset (fst (pop q)) (elems (snd (pop q)))"
    and pop_least: "invar q \<Longrightarrow> (v, p) \<in># elems q \<Longrightarrow> snd (fst (pop q)) \<le> p"
begin

lemma pop_or_rest:
  assumes "elems q \<noteq> {#}"
  shows "x \<in># elems q \<longleftrightarrow> x = fst (pop q) \<or> x \<in># elems (snd (pop q))"
proof -
  have "set_mset (elems q) = insert (fst (pop q)) (set_mset (elems (snd (pop q))))"
    by (subst pop_elems [OF assms]) simp
  then show ?thesis by auto
qed

lemma pop_mem: "elems q \<noteq> {#} \<Longrightarrow> fst (pop q) \<in># elems q"
  by (simp add: pop_or_rest)

lemma pop_subset: "elems q \<noteq> {#} \<Longrightarrow> x \<in># elems (snd (pop q)) \<Longrightarrow> x \<in># elems q"
  by (simp add: pop_or_rest)

lemma pop_rest_ge:
  "invar q \<Longrightarrow> elems q \<noteq> {#} \<Longrightarrow> (v, p) \<in># elems (snd (pop q)) \<Longrightarrow> snd (fst (pop q)) \<le> p"
  by (rule pop_least [OF _ pop_subset])

lemma size_pop: "elems q \<noteq> {#} \<Longrightarrow> size (elems q) = Suc (size (elems (snd (pop q))))"
  by (subst pop_elems) simp_all

end

definition pop_key :: "pqueue \<Rightarrow> (pq_value \<times> int) \<times> pqueue" where
  "pop_key q = (item_key (fst (heap_pop q)), snd (heap_pop q))"

definition pq_ok :: "pqueue \<Rightarrow> bool" where
  "pq_ok q \<longleftrightarrow> is_heap q \<and> index_ok q"

lemma pq_elems_empty_iff [simp]: "pq_elems q = {#} \<longleftrightarrow> q = []"
  by (simp add: pq_elems_def)

interpretation pq: min_queue pq_ok pq_elems heap_push pop_key
  by unfold_locales
    (auto simp: pq_ok_def pop_key_def heap_push_heap heap_push_index heap_push_elems heap_pop_heap
      heap_pop_index heap_pop_elems [symmetric] intro!: heap_pop_least)

section \<open>Properties\<close>

text \<open>C17. Popping the heap returns an item of least priority, removes exactly that item, and keeps the
  heap order and the index that every item carries.\<close>

theorem heap_pop_correct:
  assumes "pq_ok q" and "q \<noteq> []"
  shows "pq_elems q = add_mset (item_key (fst (heap_pop q))) (pq_elems (snd (heap_pop q)))
    \<and> (\<forall>(v, p) \<in># pq_elems q. item_priority (fst (heap_pop q)) \<le> p)
    \<and> pq_ok (snd (heap_pop q))"
  using assms heap_pop_elems [of q] heap_pop_least [of q] heap_pop_heap [of q] heap_pop_index [of q]
  by (auto simp: pq_ok_def item_key_def)

definition sample_queue :: pqueue where
  "sample_queue =
     heap_push (heap_push (heap_push [] (pq_value.make ''c'' 3 0 1) 30)
       (pq_value.make ''a'' 1 0 1) 10) (pq_value.make ''b'' 2 0 1) 20"

lemma sample_queue_eval:
  "sample_queue =
     [\<lparr>item_value = pq_value.make ''a'' 1 0 1, item_priority = 10, item_index = 0\<rparr>,
      \<lparr>item_value = pq_value.make ''c'' 3 0 1, item_priority = 30, item_index = 1\<rparr>,
      \<lparr>item_value = pq_value.make ''b'' 2 0 1, item_priority = 20, item_index = 2\<rparr>]"
  by (simp add: sample_queue_def heap_push_def pq_push_def up.simps pq_less_def pq_swap_def Let_def)

lemma sample_queue_ok: "pq_ok sample_queue"
  unfolding sample_queue_def
  by (intro pq.push_invar) (simp add: pq_ok_def is_heap_def heap_upto_def index_ok_def)

theorem heap_pop_correct_witness:
  "item_priority (fst (heap_pop sample_queue)) \<le> 10 \<and> pq_ok (snd (heap_pop sample_queue))"
  using heap_pop_correct [OF sample_queue_ok] by (simp add: sample_queue_eval pq_elems_def item_key_def)

text \<open>\<^verbatim>\<open>update\<close> on an item of the queue, whether its priority grows or shrinks, leaves a heap: \<^verbatim>\<open>heap.Fix\<close>
  restores the order.\<close>

theorem pq_update_heap:
  assumes "is_heap q" and "i < length q"
  shows "is_heap (pq_update q i v p)"
  unfolding pq_update_def using assms by (rule heap_fix_heap)

theorem pq_update_heap_witness:
  "is_heap (pq_update sample_queue 0 (pq_value.make ''a'' 1 0 1) 50)"
  using pq_update_heap [of sample_queue 0] sample_queue_ok
  by (simp add: sample_queue_eval pq_ok_def)

end
