(* ===== verification/Pathfinder.thy ===== *)
theory Pathfinder
  imports Route PQueue
begin

text \<open>
  \<^verbatim>\<open>graph/pathfinder.go\<close>: Dijkstra's algorithm from the destination back to the source, with amounts that grow
  by the fees along the way and a limit on the number of hops. The search state is the record \<open>search\<close>: the
  \<^verbatim>\<open>distance\<close> and \<^verbatim>\<open>hop\<close> maps and the heap. The order in which an iteration visits the neighbours of a node is
  the argument \<open>ord\<close>, by iteration number and node.
\<close>

section \<open>The search\<close>

definition max_distance :: int where
  "max_distance = 2 ^ 31"

record search =
  dist :: "string \<rightharpoonup> int"
  hopm :: "string \<rightharpoonup> route_hop"
  queue :: pqueue

definition dist_of :: "search \<Rightarrow> string \<Rightarrow> int" where
  "dist_of st v = go_get 0 (dist st) v"

text \<open>One channel of the edge from \<open>v\<close> to the node \<open>u\<close> of the popped item.\<close>

definition relax :: "graph \<Rightarrow> pq_value \<Rightarrow> string \<Rightarrow> string \<Rightarrow> search \<Rightarrow> search" where
  "relax g item v scid st =
     (let u = pq_node item; amount = pq_amount item; delay = pq_delay item; hops = pq_hops item
      in case channels g (channel_key scid v u) of
           None \<Rightarrow> st
         | Some channel \<Rightarrow>
             if \<not> can_forward channel amount then st
             else let channel_fee = compute_fee channel amount;
                      new_distance = go_int (dist_of st u + sint channel_fee)
                  in if new_distance < dist_of st v
                     then \<lparr>dist = (dist st)(v \<mapsto> new_distance),
                           hopm = (hopm st)(v \<mapsto> \<lparr>hop_channel = channel,
                                      hop_msat = amount + channel_fee,
                                      hop_delay = delay + chan_delay channel\<rparr>),
                           queue = heap_push (queue st)
                             \<lparr>pq_node = v, pq_amount = amount + channel_fee,
                              pq_delay = delay + chan_delay channel, pq_hops = hops + 1\<rparr>
                             new_distance\<rparr>
                     else st)"

definition relax_edge :: "graph \<Rightarrow> (string \<rightharpoonup> bool) \<Rightarrow> pq_value \<Rightarrow> string \<Rightarrow> search \<Rightarrow> search" where
  "relax_edge g exclude item v st =
     (if go_get False exclude v then st
      else fold (relax g item v) (edge_of (inbound g) (pq_node item) v) st)"

definition relax_all ::
  "graph \<Rightarrow> (string \<rightharpoonup> bool) \<Rightarrow> pq_value \<Rightarrow> string list \<Rightarrow> search \<Rightarrow> search" where
  "relax_all g exclude item vs st = fold (relax_edge g exclude item) vs st"

subsection \<open>Termination\<close>

text \<open>
  Every pushed item has one hop more than the popped one, and items at the limit push nothing: the multiset
  of the remaining hops decreases, whatever the fees are.
\<close>

definition hops_left :: "int \<Rightarrow> pqueue \<Rightarrow> nat multiset" where
  "hops_left max_hops q = image_mset (\<lambda>(v, p). nat (max_hops - pq_hops v)) (pq_elems q)"

lemma relax_queue:
  "\<exists>M. pq_elems (queue (relax g item v scid st)) = pq_elems (queue st) + M
     \<and> (\<forall>(w, p) \<in># M. pq_hops w = pq_hops item + 1)"
proof (cases "queue (relax g item v scid st) = queue st")
  case True
  then show ?thesis by (intro exI [of _ "{#}"]) simp
next
  case False
  then obtain w p where "queue (relax g item v scid st) = heap_push (queue st) w p"
    and "pq_hops w = pq_hops item + 1"
    by (auto simp: relax_def Let_def split: option.splits if_splits)
  then show ?thesis by (intro exI [of _ "{#(w, p)#}"]) (simp add: heap_push_elems)
qed

lemma fold_queue:
  assumes "\<And>x st. \<exists>M. pq_elems (queue (f x st)) = pq_elems (queue st) + M
     \<and> (\<forall>(w, p) \<in># M. pq_hops w = k)"
  shows "\<exists>M. pq_elems (queue (fold f xs st)) = pq_elems (queue st) + M \<and> (\<forall>(w, p) \<in># M. pq_hops w = k)"
proof (induction xs arbitrary: st)
  case Nil
  then show ?case by (intro exI [of _ "{#}"]) simp
next
  case (Cons x xs)
  obtain M where M: "pq_elems (queue (f x st)) = pq_elems (queue st) + M"
    "\<forall>(w, p) \<in># M. pq_hops w = k" using assms by blast
  obtain N where N: "pq_elems (queue (fold f xs (f x st))) = pq_elems (queue (f x st)) + N"
    "\<forall>(w, p) \<in># N. pq_hops w = k" using Cons.IH by blast
  from M N show ?case by (intro exI [of _ "M + N"]) (auto simp: add.assoc)
qed

lemma relax_all_queue:
  "\<exists>M. pq_elems (queue (relax_all g exclude item vs st)) = pq_elems (queue st) + M
     \<and> (\<forall>(w, p) \<in># M. pq_hops w = pq_hops item + 1)"
  unfolding relax_all_def
proof (rule fold_queue)
  fix v st
  show "\<exists>M. pq_elems (queue (relax_edge g exclude item v st)) = pq_elems (queue st) + M
     \<and> (\<forall>(w, p) \<in># M. pq_hops w = pq_hops item + 1)"
  proof (cases "go_get False exclude v")
    case True
    then show ?thesis by (intro exI [of _ "{#}"]) (simp add: relax_edge_def)
  next
    case False
    then show ?thesis unfolding relax_edge_def using fold_queue [OF relax_queue] by simp
  qed
qed

definition pop_smaller :: "int \<Rightarrow> (pqueue \<times> pqueue) set" where
  "pop_smaller max_hops = inv_image (mult less_than) (hops_left max_hops)"

lemma wf_pop_smaller: "wf (pop_smaller max_hops)"
  unfolding pop_smaller_def by (intro wf_inv_image wf_mult wf_less_than)

lemma hops_left_pop:
  "q \<noteq> [] \<Longrightarrow> hops_left max_hops q =
     add_mset (nat (max_hops - pq_hops (item_value (fst (heap_pop q))))) (hops_left max_hops (snd (heap_pop q)))"
  unfolding hops_left_def by (subst heap_pop_elems) (simp_all add: item_key_def)

lemma pop_smaller_push:
  assumes "q \<noteq> []" and "pq_elems q' = pq_elems (snd (heap_pop q)) + M"
    and "\<forall>(w, p) \<in># M. nat (max_hops - pq_hops w) < nat (max_hops - pq_hops (item_value (fst (heap_pop q))))"
  shows "(q', q) \<in> pop_smaller max_hops"
proof -
  let ?k = "nat (max_hops - pq_hops (item_value (fst (heap_pop q))))"
  let ?f = "\<lambda>(v, p). nat (max_hops - pq_hops v)"
  have "(hops_left max_hops (snd (heap_pop q)) + image_mset ?f M,
      hops_left max_hops (snd (heap_pop q)) + {#?k#}) \<in> mult less_than"
    using assms(3) by (intro one_step_implies_mult) auto
  moreover have "hops_left max_hops q' = hops_left max_hops (snd (heap_pop q)) + image_mset ?f M"
    using assms(2) by (simp add: hops_left_def)
  ultimately show ?thesis by (simp add: pop_smaller_def hops_left_pop [OF assms(1)])
qed

lemma pop_smaller_pop: "q \<noteq> [] \<Longrightarrow> (snd (heap_pop q), q) \<in> pop_smaller max_hops"
  by (rule pop_smaller_push [where M = "{#}"]) simp_all

lemma pop_smaller_relax:
  assumes "q \<noteq> []" and "pq_hops (item_value (fst (heap_pop q))) < max_hops"
  shows "(queue (relax_all g exclude (item_value (fst (heap_pop q))) vs (st\<lparr>queue := snd (heap_pop q)\<rparr>)), q)
    \<in> pop_smaller max_hops"
proof -
  obtain M where M: "pq_elems (queue (relax_all g exclude (item_value (fst (heap_pop q))) vs
      (st\<lparr>queue := snd (heap_pop q)\<rparr>))) = pq_elems (snd (heap_pop q)) + M"
    "\<forall>(w, p) \<in># M. pq_hops w = pq_hops (item_value (fst (heap_pop q))) + 1"
    using relax_all_queue [of g exclude "item_value (fst (heap_pop q))" vs "st\<lparr>queue := snd (heap_pop q)\<rparr>"]
    by auto
  show ?thesis using assms M by (intro pop_smaller_push [OF assms(1) M(1)]) auto
qed

subsection \<open>The main loop\<close>

function search_loop ::
  "graph \<Rightarrow> (string \<rightharpoonup> bool) \<Rightarrow> string \<Rightarrow> int \<Rightarrow> (nat \<Rightarrow> string \<Rightarrow> string list) \<Rightarrow> nat \<Rightarrow> search \<Rightarrow> search" where
  "search_loop g exclude src max_hops ord n st =
     (if queue st = [] then st
      else let it = fst (heap_pop (queue st)); item = item_value it; u = pq_node item;
               st = st\<lparr>queue := snd (heap_pop (queue st))\<rparr>
           in if item_priority it > dist_of st u
              then search_loop g exclude src max_hops ord (Suc n) st
              else if u = src then st
              else if pq_hops item \<ge> max_hops
              then search_loop g exclude src max_hops ord (Suc n) st
              else search_loop g exclude src max_hops ord (Suc n)
                     (relax_all g exclude item (ord n u) st))"
  by pat_completeness auto
termination
proof (relation "inv_image (same_fst (\<lambda>_. True) pop_smaller)
    (\<lambda>(g, exclude, src, max_hops, ord, n, st). (max_hops, queue st))")
  show "wf (inv_image (same_fst (\<lambda>_. True) pop_smaller)
    (\<lambda>(g, exclude, src, max_hops, ord, n, st). (max_hops, queue st)))"
    by (intro wf_inv_image wf_same_fst wf_pop_smaller)
qed (auto simp: same_fst_def pop_smaller_pop intro!: pop_smaller_relax)

declare search_loop.simps [simp del]

definition search_start :: "graph \<Rightarrow> string \<Rightarrow> u64 \<Rightarrow> search" where
  "search_start g dst amount =
     \<lparr>dist = (\<lambda>u. case inbound g u of None \<Rightarrow> None | Some _ \<Rightarrow> Some max_distance)(dst \<mapsto> 0),
      hopm = Map.empty,
      queue = heap_init [\<lparr>item_value = \<lparr>pq_node = dst, pq_amount = amount, pq_delay = 0, pq_hops = 0\<rparr>,
                          item_priority = 0, item_index = 0\<rparr>]\<rparr>"

text \<open>
  The hops are read off the \<^verbatim>\<open>hop\<close> map from the source. A missing entry is a hop without a channel, whose
  destination cannot be read; a cycle would never reach the destination.
\<close>

partial_function (option) build_hops ::
  "(string \<rightharpoonup> route_hop) \<Rightarrow> string \<Rightarrow> string \<Rightarrow> route_hop list \<Rightarrow> route_hop list res option" where
  "build_hops m dst u acc =
     (if u = dst then Some (Ok acc)
      else case m u of
             None \<Rightarrow> Some Panic
           | Some h \<Rightarrow> build_hops m dst (chan_destination (hop_channel h)) (acc @ [h]))"

declare build_hops.simps [code]

definition dijkstra ::
  "graph \<Rightarrow> (nat \<Rightarrow> string \<Rightarrow> string list) \<Rightarrow> string \<Rightarrow> string \<Rightarrow> u64 \<Rightarrow> (string \<rightharpoonup> bool) \<Rightarrow> int
     \<Rightarrow> route_hop list res" where
  "dijkstra g ord src dst amount exclude max_hops =
     (if inbound g dst = None then Err ErrNoSuchNode
      else if inbound g src = None then Err ErrNoSuchNode
      else let st = search_loop g exclude src max_hops ord 0 (search_start g dst amount)
           in if dist_of st src = max_distance then Err ErrNoRoute
              else case build_hops (hopm st) dst src [] of None \<Rightarrow> Hang | Some r \<Rightarrow> r)"

definition get_route ::
  "graph \<Rightarrow> (nat \<Rightarrow> string \<Rightarrow> string list) \<Rightarrow> string \<Rightarrow> string \<Rightarrow> u64 \<Rightarrow> (string \<rightharpoonup> bool) \<Rightarrow> int
     \<Rightarrow> route res" where
  "get_route g ord src dst amount exclude max_hops =
     go_bind (dijkstra g ord src dst amount exclude (go_int (max_hops - 2)))
       (\<lambda>hops. Ok (new_route src dst amount hops))"

end
