(* ===== verification/Node.thy ===== *)
theory Node
  imports Store Pathfinder
begin

text \<open>
  \<^verbatim>\<open>node/node.go\<close>, \<^verbatim>\<open>node/peers.go\<close>, \<^verbatim>\<open>node/control.go\<close> and \<^verbatim>\<open>refreshPeers\<close> of \<^verbatim>\<open>node/cron.go\<close>: the state of the node and
  what the rebalancing code asks about its peers. Peers and their channels are values of the lightning
  library; the records hold the fields that the program reads or writes. \<open>ord\<close> is the order in which a
  \<^verbatim>\<open>range\<close> loop visits the map of peers. The lightning connection and the plugin handle are left
  out of the node; its locks are the theory \<open>Locks\<close>, its open web sockets the theory \<open>Websocket\<close>.
\<close>

section \<open>State\<close>

record peer_channel =
  pc_scid :: string
  pc_state :: string
  pc_to_us :: u64
  pc_total :: u64

record peer =
  peer_id :: string
  peer_connected :: bool
  peer_channels :: "peer_channel list"

record liquidity_update =
  lu_amount :: u64
  lu_scid :: string
  lu_direction :: int

record 'd node =
  n_id :: string
  n_stopped :: bool
  n_save_stats :: bool
  n_liquidity_refresh :: int
  n_peers :: "string \<rightharpoonup> peer"
  n_graph :: graph
  n_db :: 'd
  n_updates :: "liquidity_update list"

text \<open>The capacity of \<^verbatim>\<open>LiquidityUpdateChan\<close>.\<close>

definition update_capacity :: nat where
  "update_capacity = 16"

text \<open>\<^verbatim>\<open>NewNode\<close> followed by the parts of \<^verbatim>\<open>Init\<close> that set fields; the options are arguments.\<close>

definition new_node :: "string \<Rightarrow> bool \<Rightarrow> int \<Rightarrow> graph \<Rightarrow> 'd \<Rightarrow> 'd node" where
  "new_node own save_stats refresh_minutes g db =
     \<lparr>n_id = own, n_stopped = False, n_save_stats = save_stats, n_liquidity_refresh = refresh_minutes * 60,
      n_peers = Map.empty, n_graph = g, n_db = db, n_updates = []\<rparr>"

section \<open>Peers\<close>

definition refresh_peers :: "peer list \<Rightarrow> 'd node \<Rightarrow> 'd node" where
  "refresh_peers ps n = n\<lparr>n_peers := fold (\<lambda>p m. m(peer_id p \<mapsto> p)) ps (n_peers n)\<rparr>"

text \<open>An unknown peer is a nil pointer, and a peer without channels an empty slice: both panic.\<close>

definition get_best_peer_channel ::
  "string \<Rightarrow> (peer_channel \<Rightarrow> u64) \<Rightarrow> 'd node \<Rightarrow> peer_channel res" where
  "get_best_peer_channel pid metric n = (case n_peers n pid of
     None \<Rightarrow> Panic
   | Some p \<Rightarrow> (case peer_channels p of
       [] \<Rightarrow> Panic
     | c # cs \<Rightarrow> Ok (fold (\<lambda>ch best. if metric ch > metric best then ch else best) (c # cs) c)))"

text \<open>The two nested \<^verbatim>\<open>range\<close> loops that look for a short channel id.\<close>

fun find_channel :: "string \<Rightarrow> peer_channel list \<Rightarrow> peer_channel option" where
  "find_channel scid [] = None"
| "find_channel scid (c # cs) = (if pc_scid c = scid then Some c else find_channel scid cs)"

fun find_peer_channel ::
  "string list \<Rightarrow> string \<Rightarrow> (string \<rightharpoonup> peer) \<Rightarrow> (peer \<times> peer_channel) option" where
  "find_peer_channel [] scid peers = None"
| "find_peer_channel (i # ord) scid peers =
     (case peers i of
        None \<Rightarrow> find_peer_channel ord scid peers
      | Some p \<Rightarrow> (case find_channel scid (peer_channels p) of
          None \<Rightarrow> find_peer_channel ord scid peers
        | Some c \<Rightarrow> Some (p, c)))"

definition get_peer_channel_from_graph_channel ::
  "string list \<Rightarrow> channel \<Rightarrow> 'd node \<Rightarrow> peer_channel res" where
  "get_peer_channel_from_graph_channel ord gc n =
     (case find_peer_channel ord (short_channel_id gc) (n_peers n) of
        None \<Rightarrow> Err ErrNoPeerChannel | Some (p, c) \<Rightarrow> Ok c)"

definition has_peer :: "string \<Rightarrow> 'd node \<Rightarrow> bool" where
  "has_peer pid n \<longleftrightarrow> n_peers n pid \<noteq> None"

definition get_channel_peer_from_scid :: "string list \<Rightarrow> string \<Rightarrow> 'd node \<Rightarrow> peer res" where
  "get_channel_peer_from_scid ord scid n =
     (case find_peer_channel ord scid (n_peers n) of
        None \<Rightarrow> Err ErrNoPeerChannel | Some (p, c) \<Rightarrow> Ok p)"

definition is_peer_connected :: "string list \<Rightarrow> peer_channel \<Rightarrow> 'd node \<Rightarrow> bool" where
  "is_peer_connected ord ch n = (case get_channel_peer_from_scid ord (pc_scid ch) n of
     Ok p \<Rightarrow> peer_connected p | _ \<Rightarrow> False)"

definition get_graph_channel_from_peer_channel ::
  "peer_channel \<Rightarrow> string \<Rightarrow> 'd node \<Rightarrow> channel res" where
  "get_graph_channel_from_peer_channel ch direction n =
     get_channel (n_graph n) (pc_scid ch @ ''/'' @ direction)"

definition get_outgoing_channel_from_scid :: "string list \<Rightarrow> string \<Rightarrow> 'd node \<Rightarrow> channel res" where
  "get_outgoing_channel_from_scid ord scid n =
     go_bind (get_channel_peer_from_scid ord scid n) (\<lambda>p.
       case get_channel (n_graph n) (scid @ ''/'' @ get_direction (n_id n) (peer_id p)) of
         Err ErrNoChannel \<Rightarrow> Err ErrNoOutgoingChannel
       | r \<Rightarrow> r)"

definition get_incoming_channel_from_scid :: "string list \<Rightarrow> string \<Rightarrow> 'd node \<Rightarrow> channel res" where
  "get_incoming_channel_from_scid ord scid n =
     go_bind (get_channel_peer_from_scid ord scid n) (\<lambda>p.
       case get_channel (n_graph n) (scid @ ''/'' @ get_direction (peer_id p) (n_id n)) of
         Err ErrNoChannel \<Rightarrow> Err ErrNoIncomingChannel
       | r \<Rightarrow> r)"

text \<open>The loop changes the first channel with the short channel id and stops.\<close>

fun add_to_us :: "string \<Rightarrow> u64 \<Rightarrow> peer_channel list \<Rightarrow> peer_channel list" where
  "add_to_us scid d [] = []"
| "add_to_us scid d (c # cs) =
     (if pc_scid c = scid then c\<lparr>pc_to_us := pc_to_us c + d\<rparr> # cs else c # add_to_us scid d cs)"

definition update_channel_balance ::
  "string \<Rightarrow> string \<Rightarrow> string \<Rightarrow> string \<Rightarrow> u64 \<Rightarrow> 'd node \<Rightarrow> 'd node res" where
  "update_channel_balance out_peer in_peer out_scid in_scid amount n =
     (case n_peers n out_peer of
        None \<Rightarrow> Panic
      | Some po \<Rightarrow>
          let peers1 = (n_peers n)(out_peer \<mapsto>
                po\<lparr>peer_channels := add_to_us out_scid (- (amount * 1000)) (peer_channels po)\<rparr>)
          in case peers1 in_peer of
               None \<Rightarrow> Panic
             | Some pi \<Rightarrow> Ok (n\<lparr>n_peers := peers1(in_peer \<mapsto>
                 pi\<lparr>peer_channels := add_to_us in_scid (amount * 1000) (peer_channels pi)\<rparr>)\<rparr>))"

definition set_connected :: "bool \<Rightarrow> string \<Rightarrow> 'd node \<Rightarrow> 'd node" where
  "set_connected b pid n = (case n_peers n pid of
     None \<Rightarrow> n | Some p \<Rightarrow> n\<lparr>n_peers := (n_peers n)(pid \<mapsto> p\<lparr>peer_connected := b\<rparr>)\<rparr>)"

definition on_connect :: "string \<Rightarrow> 'd node \<Rightarrow> 'd node" where
  "on_connect pid n = set_connected True pid n"

definition on_disconnect :: "string \<Rightarrow> 'd node \<Rightarrow> 'd node" where
  "on_disconnect pid n = set_connected False pid n"

section \<open>Stop and resume\<close>

definition set_stopped :: "bool \<Rightarrow> 'd node \<Rightarrow> 'd node" where
  "set_stopped b n = n\<lparr>n_stopped := b\<rparr>"

definition stop_call :: "'d node \<Rightarrow> string \<times> 'd node" where
  "stop_call n =
     (''circular has been stopped. New commands will not fire htlcs until resumed'', set_stopped True n)"

definition resume_call :: "'d node \<Rightarrow> string \<times> 'd node" where
  "resume_call n = (''circular has been resumed'', set_stopped False n)"

section \<open>Well-formed peers\<close>

text \<open>Peers are filed under their own id, and a short channel id names one channel.\<close>

definition peers_ok :: "(string \<rightharpoonup> peer) \<Rightarrow> bool" where
  "peers_ok peers \<longleftrightarrow>
     (\<forall>i p. peers i = Some p \<longrightarrow> peer_id p = i \<and> distinct (map pc_scid (peer_channels p))) \<and>
     (\<forall>i j p q c d. peers i = Some p \<longrightarrow> peers j = Some q \<longrightarrow> c \<in> set (peer_channels p) \<longrightarrow>
        d \<in> set (peer_channels q) \<longrightarrow> pc_scid c = pc_scid d \<longrightarrow> i = j)"

lemma peers_okD:
  assumes "peers_ok peers"
  shows "peers i = Some p \<Longrightarrow> peer_id p = i"
    and "peers i = Some p \<Longrightarrow> distinct (map pc_scid (peer_channels p))"
    and "peers i = Some p \<Longrightarrow> peers j = Some q \<Longrightarrow> c \<in> set (peer_channels p) \<Longrightarrow>
      d \<in> set (peer_channels q) \<Longrightarrow> pc_scid c = pc_scid d \<Longrightarrow> i = j"
  using assms unfolding peers_ok_def by blast+

lemma find_channel_Some: "find_channel scid cs = Some c \<Longrightarrow> c \<in> set cs \<and> pc_scid c = scid"
  by (induction cs) (auto split: if_splits)

lemma find_channel_None: "find_channel scid cs = None \<longleftrightarrow> scid \<notin> pc_scid ` set cs"
  by (induction cs) auto

lemma find_channel_iff:
  "distinct (map pc_scid cs) \<Longrightarrow> find_channel scid cs = Some c \<longleftrightarrow> c \<in> set cs \<and> pc_scid c = scid"
  by (induction cs) auto

lemma find_peer_channel_Some:
  "find_peer_channel ord scid peers = Some (p, c) \<Longrightarrow>
     \<exists>i \<in> set ord. peers i = Some p \<and> c \<in> set (peer_channels p) \<and> pc_scid c = scid"
  by (induction ord) (auto dest: find_channel_Some split: option.splits)

lemma find_peer_channel_None:
  "find_peer_channel ord scid peers = None \<Longrightarrow> i \<in> set ord \<Longrightarrow> peers i = Some p \<Longrightarrow>
     scid \<notin> pc_scid ` set (peer_channels p)"
  by (induction ord) (auto simp: find_channel_None split: option.splits)

text \<open>The search does not depend on the order in which the map is visited.\<close>

lemma find_peer_channel_iff:
  assumes "peers_ok peers" and "enumerates ord peers"
  shows "find_peer_channel ord scid peers = Some (p, c) \<longleftrightarrow>
    peers (peer_id p) = Some p \<and> c \<in> set (peer_channels p) \<and> pc_scid c = scid"
proof
  assume "find_peer_channel ord scid peers = Some (p, c)"
  then show "peers (peer_id p) = Some p \<and> c \<in> set (peer_channels p) \<and> pc_scid c = scid"
    using find_peer_channel_Some peers_okD(1) [OF assms(1)] by metis
next
  assume r: "peers (peer_id p) = Some p \<and> c \<in> set (peer_channels p) \<and> pc_scid c = scid"
  then have mem: "peer_id p \<in> set ord" using assms(2) enumerates_mem by metis
  show "find_peer_channel ord scid peers = Some (p, c)"
  proof (cases "find_peer_channel ord scid peers")
    case None
    then show ?thesis using find_peer_channel_None [OF None mem] r by auto
  next
    case (Some x)
    then obtain q d where x: "x = (q, d)" by (cases x)
    obtain j where j: "peers j = Some q" "d \<in> set (peer_channels q)" "pc_scid d = scid"
      using find_peer_channel_Some Some x by metis
    then have "j = peer_id p" using peers_okD(3) [OF assms(1), of j q "peer_id p" p d c] r by auto
    then have "q = p" using j r by simp
    moreover have "distinct (map pc_scid (peer_channels p))" using peers_okD(2) [OF assms(1)] r by blast
    ultimately have "d = c" using j r by (metis find_channel_iff option.inject)
    with Some x \<open>q = p\<close> show ?thesis by simp
  qed
qed

lemma get_channel_eq_Ok: "get_channel g cid = Ok c \<longleftrightarrow> channels g cid = Some c"
  by (simp add: get_channel_def split: option.split)


section \<open>Our own channels\<close>

text \<open>The gossip about our channels agrees with our peers: the channel with the short channel id of a peer
  channel runs between us and that peer.\<close>

definition peers_agree :: "(string \<Rightarrow> string \<times> string \<times> u64) \<Rightarrow> 'd node \<Rightarrow> bool" where
  "peers_agree ends n \<longleftrightarrow>
     (\<forall>i p c. n_peers n i = Some p \<longrightarrow> c \<in> set (peer_channels p) \<longrightarrow>
        (\<exists>cap. ends (channel_key (pc_scid c) (n_id n) i) = (n_id n, i, cap)) \<and>
        (\<exists>cap. ends (channel_key (pc_scid c) i (n_id n)) = (i, n_id n, cap)))"

text \<open>A short channel id of ours: the channel with this peer, in both directions.\<close>

definition own_scid :: "(string \<Rightarrow> string \<times> string \<times> u64) \<Rightarrow> string \<Rightarrow> string \<Rightarrow> string \<Rightarrow> bool" where
  "own_scid ends me scid i \<longleftrightarrow> (\<exists>cap. ends (channel_key scid me i) = (me, i, cap))
     \<and> (\<exists>cap. ends (channel_key scid i me) = (i, me, cap))"

lemma own_scid_unique:
  assumes "own_scid ends me scid i" and "own_scid ends me scid j"
  shows "i = j"
proof (cases "get_direction me i = get_direction me j")
  case True
  then have "channel_key scid me i = channel_key scid me j" by (simp del: channel_key_eq_iff add: channel_key_def)
  with assms show ?thesis unfolding own_scid_def by (metis prod.inject)
next
  case False
  then have "get_direction me i = get_direction j me \<or> get_direction i me = get_direction me j"
    by (auto simp: get_direction_def split: if_splits)
  then have "channel_key scid me i = channel_key scid j me \<or> channel_key scid i me = channel_key scid me j"
    by (simp add: channel_key_def del: channel_key_eq_iff)
  with assms show ?thesis unfolding own_scid_def by (metis prod.inject)
qed

lemma peers_agree_own: "peers_agree ends n \<longleftrightarrow>
  (\<forall>i. pred_option (\<lambda>p. \<forall>c \<in> set (peer_channels p). own_scid ends (n_id n) (pc_scid c) i) (n_peers n i))"
  by (auto simp: peers_agree_def own_scid_def split: option.split simp: pred_option_def)

lemma own_channel_ends:
  assumes "graph_reach ends g" and "channels g (scid @ ''/'' @ get_direction a b) = Some c"
    and "ends (channel_key scid a b) = (a, b, cap)"
  shows "short_channel_id c = scid \<and> chan_source c = a \<and> chan_destination c = b"
proof -
  have key: "scid @ ''/'' @ get_direction a b = channel_key scid a b" by (simp add: channel_key_def)
  have "channel_key scid a b = channel_id c" and "gossip_ok ends c"
    using graph_okD(1,2) [OF graph_reach_ok [OF assms(1)]] assms(2) key by metis+
  then have ab: "chan_source c = a" "chan_destination c = b" using assms(3) by (simp_all add: gossip_ok_def)
  with \<open>channel_key scid a b = channel_id c\<close> show ?thesis
    by (simp add: channel_id_def channel_key_eq_iff)
qed

lemma get_channel_peer_iff:
  assumes "peers_ok (n_peers n)" and "enumerates ord (n_peers n)"
  shows "get_channel_peer_from_scid ord scid n = Ok p \<longleftrightarrow>
    n_peers n (peer_id p) = Some p \<and> (\<exists>c \<in> set (peer_channels p). pc_scid c = scid)"
  unfolding get_channel_peer_from_scid_def
  using find_peer_channel_iff [OF assms, of scid p]
  by (auto split: option.split) (use find_peer_channel_iff [OF assms] in force)+


lemma outgoing_channel_cases:
  assumes "get_outgoing_channel_from_scid ord scid n = Ok c"
  obtains p where "get_channel_peer_from_scid ord scid n = Ok p"
    and "channels (n_graph n) (scid @ ''/'' @ get_direction (n_id n) (peer_id p)) = Some c"
  using assms
  by (auto simp: get_outgoing_channel_from_scid_def go_bind_eq_Ok get_channel_def split: option.splits)

lemma incoming_channel_cases:
  assumes "get_incoming_channel_from_scid ord scid n = Ok c"
  obtains p where "get_channel_peer_from_scid ord scid n = Ok p"
    and "channels (n_graph n) (scid @ ''/'' @ get_direction (peer_id p) (n_id n)) = Some c"
  using assms
  by (auto simp: get_incoming_channel_from_scid_def go_bind_eq_Ok get_channel_def split: option.splits)

text \<open>Looking up our channels only ever fails with an error.\<close>

lemma own_channel_lookup_returns:
  "(\<exists>c. get_outgoing_channel_from_scid ord scid n = Ok c) \<or>
     get_outgoing_channel_from_scid ord scid n \<in> {Err ErrNoPeerChannel, Err ErrNoOutgoingChannel}"
  "(\<exists>c. get_incoming_channel_from_scid ord scid n = Ok c) \<or>
     get_incoming_channel_from_scid ord scid n \<in> {Err ErrNoPeerChannel, Err ErrNoIncomingChannel}"
  by (auto simp: get_outgoing_channel_from_scid_def get_incoming_channel_from_scid_def
      get_channel_peer_from_scid_def get_channel_def split: option.splits)

section \<open>The balances of our channels\<close>

text \<open>What is added to the balance of a channel of the peer \<open>i\<close>.\<close>

definition moved :: "string \<Rightarrow> string \<Rightarrow> string \<Rightarrow> string \<Rightarrow> u64 \<Rightarrow> string \<Rightarrow> peer_channel \<Rightarrow> peer_channel" where
  "moved out_peer in_peer out_scid in_scid amount i c =
     c\<lparr>pc_to_us := pc_to_us c
         - (if i = out_peer \<and> pc_scid c = out_scid then amount * 1000 else 0)
         + (if i = in_peer \<and> pc_scid c = in_scid then amount * 1000 else 0)\<rparr>"

lemma add_to_us_absent: "scid \<notin> pc_scid ` set cs \<Longrightarrow> add_to_us scid d cs = cs"
  by (induction cs) auto

lemma add_to_us_map:
  "distinct (map pc_scid cs) \<Longrightarrow> add_to_us scid d cs =
     map (\<lambda>c. c\<lparr>pc_to_us := pc_to_us c + (if pc_scid c = scid then d else 0)\<rparr>) cs"
proof (induction cs)
  case (Cons c cs)
  show ?case
  proof (cases "pc_scid c = scid")
    case True
    then have "map (\<lambda>c. c\<lparr>pc_to_us := pc_to_us c + (if pc_scid c = scid then d else 0)\<rparr>) cs = cs"
      using Cons.prems by (intro map_idI) (force simp: image_iff)
    then show ?thesis using True by simp
  next
    case False
    then show ?thesis using Cons by simp
  qed
qed simp

lemma add_to_us_scids [simp]: "map pc_scid (add_to_us scid d cs) = map pc_scid cs"
  by (induction cs) auto

lemma update_channel_balance_eq:
  assumes "peers_ok (n_peers n)" and "n_peers n out_peer \<noteq> None" and "n_peers n in_peer \<noteq> None"
  shows "update_channel_balance out_peer in_peer out_scid in_scid amount n =
    Ok (n\<lparr>n_peers := \<lambda>i. map_option (\<lambda>p. p\<lparr>peer_channels :=
          map (moved out_peer in_peer out_scid in_scid amount i) (peer_channels p)\<rparr>) (n_peers n i)\<rparr>)"
proof -
  obtain po pi where po: "n_peers n out_peer = Some po" and pi: "n_peers n in_peer = Some pi"
    using assms(2,3) by auto
  have d: "distinct (map pc_scid (peer_channels p))" if "n_peers n i = Some p" for i p
    using peers_okD(2) [OF assms(1) that] .
  let ?P = "\<lambda>i. map_option (\<lambda>p. p\<lparr>peer_channels :=
          map (moved out_peer in_peer out_scid in_scid amount i) (peer_channels p)\<rparr>) (n_peers n i)"
  have same: "?P i = n_peers n i" if "i \<noteq> out_peer" "i \<noteq> in_peer" for i
  proof -
    have "moved out_peer in_peer out_scid in_scid amount i = id"
      using that by (simp add: moved_def fun_eq_iff)
    then show ?thesis by (cases "n_peers n i") simp_all
  qed
  define cs where "cs = add_to_us out_scid (- (amount * 1000)) (peer_channels po)"
  have cs: "distinct (map pc_scid cs)" using d [OF po] by (simp add: cs_def)
  have "\<exists>P'. update_channel_balance out_peer in_peer out_scid in_scid amount n = Ok (n\<lparr>n_peers := P'\<rparr>)
      \<and> P' = ?P"
  proof (cases "in_peer = out_peer")
    case True
    then show ?thesis
      using po add_to_us_map [OF cs] add_to_us_map [OF d [OF po]] same
      by (intro exI [of _ ?P]) (auto simp: update_channel_balance_def Let_def moved_def fun_eq_iff
          simp flip: cs_def simp: cs_def algebra_simps)
  next
    case False
    then show ?thesis
      using po pi add_to_us_map [OF d [OF po]] add_to_us_map [OF d [OF pi]] same
      by (intro exI [of _ ?P]) (auto simp: update_channel_balance_def Let_def moved_def fun_eq_iff)
  qed
  then show ?thesis by blast
qed

lemma fold_best:
  fixes metric :: "peer_channel \<Rightarrow> u64"
  shows "\<forall>c \<in> insert b (set cs).
      metric c \<le> metric (fold (\<lambda>ch best. if metric ch > metric best then ch else best) cs b)
    \<and> fold (\<lambda>ch best. if metric ch > metric best then ch else best) cs b \<in> insert b (set cs)"
proof (induction cs arbitrary: b)
  case (Cons c cs)
  show ?case
    using Cons.IH [of "if metric b < metric c then c else b"]
    by (auto split: if_splits)
qed simp


text \<open>Booking a rebalance keeps the peers well-formed.\<close>

lemma moved_scid [simp]: "pc_scid (moved out_peer in_peer out_scid in_scid amount i c) = pc_scid c"
  by (simp add: moved_def)

lemma peers_ok_map:
  assumes "peers_ok peers" and "\<And>i c. pc_scid (f i c) = pc_scid c"
  shows "peers_ok (\<lambda>i. map_option (\<lambda>p. p\<lparr>peer_channels := map (f i) (peer_channels p)\<rparr>) (peers i))"
proof -
  have scids: "map pc_scid (map (f i) cs) = map pc_scid cs" for i cs using assms(2) by simp
  show ?thesis
    unfolding peers_ok_def
  proof (intro conjI allI impI)
    fix i p
    assume "map_option (\<lambda>p. p\<lparr>peer_channels := map (f i) (peer_channels p)\<rparr>) (peers i) = Some p"
    then obtain q where q: "peers i = Some q" "p = q\<lparr>peer_channels := map (f i) (peer_channels q)\<rparr>" by auto
    then show "peer_id p = i" and "distinct (map pc_scid (peer_channels p))"
      using peers_okD(1,2) [OF assms(1) q(1)] scids [of i "peer_channels q"]
      by (simp_all add: q(2) del: map_map)
  next
    fix i j p q c d
    assume "map_option (\<lambda>p. p\<lparr>peer_channels := map (f i) (peer_channels p)\<rparr>) (peers i) = Some p"
      and "map_option (\<lambda>p. p\<lparr>peer_channels := map (f j) (peer_channels p)\<rparr>) (peers j) = Some q"
      and "c \<in> set (peer_channels p)" and "d \<in> set (peer_channels q)" and "pc_scid c = pc_scid d"
    then show "i = j" using peers_okD(3) [OF assms(1)] assms(2) by fastforce
  qed
qed

lemma update_channel_balance_keeps:
  assumes "peers_ok (n_peers n)" and "n_peers n out_peer \<noteq> None" and "n_peers n in_peer \<noteq> None"
  obtains n' where "update_channel_balance out_peer in_peer out_scid in_scid amount n = Ok n'"
    and "n_graph n' = n_graph n" and "n_id n' = n_id n" and "dom (n_peers n') = dom (n_peers n)"
    and "peers_ok (n_peers n')" and "peers_agree ends n' = peers_agree ends n"
proof -
  let ?n = "n\<lparr>n_peers := \<lambda>i. map_option (\<lambda>p. p\<lparr>peer_channels :=
          map (moved out_peer in_peer out_scid in_scid amount i) (peer_channels p)\<rparr>) (n_peers n i)\<rparr>"
  have "peers_ok (n_peers ?n)" using peers_ok_map [OF assms(1)] by simp
  moreover have "peers_agree ends ?n = peers_agree ends n" by (simp add: peers_agree_own option.pred_map comp_def)
  ultimately show ?thesis
    using that [OF update_channel_balance_eq [OF assms]] by (auto simp: dom_def)
qed

section \<open>Properties\<close>

text \<open>The channels that the node finds for the short channel id of one of its channels are the two
  directions of that very channel: the outgoing one runs from us to the peer that the channel is with, the
  incoming one from that peer to us.\<close>

theorem own_channels_found:
  assumes "graph_reach ends (n_graph n)" and "peers_ok (n_peers n)" and "enumerates ord (n_peers n)"
    and "peers_agree ends n"
    and "get_outgoing_channel_from_scid ord scid n = Ok out"
    and "get_incoming_channel_from_scid ord scid n = Ok inc"
  shows "short_channel_id out = scid \<and> short_channel_id inc = scid
    \<and> chan_source out = n_id n \<and> chan_destination inc = n_id n
    \<and> chan_destination out = chan_source inc
    \<and> (\<exists>p. n_peers n (chan_source inc) = Some p \<and> scid \<in> pc_scid ` set (peer_channels p))"
proof -
  obtain p where p: "get_channel_peer_from_scid ord scid n = Ok p"
    and out: "channels (n_graph n) (scid @ ''/'' @ get_direction (n_id n) (peer_id p)) = Some out"
    using assms(5) by (rule outgoing_channel_cases)
  moreover obtain q where "get_channel_peer_from_scid ord scid n = Ok q"
    and "channels (n_graph n) (scid @ ''/'' @ get_direction (peer_id q) (n_id n)) = Some inc"
    using assms(6) by (rule incoming_channel_cases)
  ultimately have inc: "channels (n_graph n) (scid @ ''/'' @ get_direction (peer_id p) (n_id n)) = Some inc"
    by simp
  obtain c where c: "n_peers n (peer_id p) = Some p" "c \<in> set (peer_channels p)" "pc_scid c = scid"
    using p get_channel_peer_iff [OF assms(2,3)] by auto
  then obtain cap cap' where "ends (channel_key scid (n_id n) (peer_id p)) = (n_id n, peer_id p, cap)"
    and "ends (channel_key scid (peer_id p) (n_id n)) = (peer_id p, n_id n, cap')"
    using assms(4) unfolding peers_agree_def by blast
  from own_channel_ends [OF assms(1) out this(1)] own_channel_ends [OF assms(1) inc this(2)] c
  show ?thesis by auto
qed

definition sample_peer_channel :: peer_channel where
  "sample_peer_channel = \<lparr>pc_scid = ''1x1x1'', pc_state = ''CHANNELD_NORMAL'', pc_to_us = 600000000,
     pc_total = 1000000000\<rparr>"

definition sample_node :: "(string \<times> string) list node" where
  "sample_node = refresh_peers
     [\<lparr>peer_id = ''03bb'', peer_connected = True, peer_channels = [sample_peer_channel]\<rparr>]
     (new_node ''02aa'' True 300 sample_graph [])"

lemma sample_node_simps [simp]:
  "n_id sample_node = ''02aa''" "n_graph sample_node = sample_graph" "n_db sample_node = []"
  "n_updates sample_node = []" "n_stopped sample_node = False" "n_save_stats sample_node = True"
  "n_peers sample_node = [''03bb'' \<mapsto>
     \<lparr>peer_id = ''03bb'', peer_connected = True, peer_channels = [sample_peer_channel]\<rparr>]"
  by (simp_all add: sample_node_def refresh_peers_def new_node_def)

lemma sample_node_ok:
  "peers_ok (n_peers sample_node)" "enumerates [''03bb''] (n_peers sample_node)"
  "peers_agree sample_ends sample_node"
  by (auto simp: peers_ok_def enumerates_def peers_agree_def sample_ends_def channel_key_def
      get_direction_def sample_peer_channel_def split: if_splits)

theorem own_channels_found_witness:
  "\<exists>out inc. get_outgoing_channel_from_scid [''03bb''] ''1x1x1'' sample_node = Ok out
     \<and> get_incoming_channel_from_scid [''03bb''] ''1x1x1'' sample_node = Ok inc
     \<and> chan_source out = ''02aa'' \<and> chan_source inc = ''03bb''"
proof -
  have out: "get_outgoing_channel_from_scid [''03bb''] ''1x1x1'' sample_node
      = Ok (new_channel sample_gl (half_capacity sample_gl) 0)"
    and inc: "get_incoming_channel_from_scid [''03bb''] ''1x1x1'' sample_node
      = Ok (new_channel sample_back (half_capacity sample_back) 0)"
    by (simp_all add: get_outgoing_channel_from_scid_def get_incoming_channel_from_scid_def
        get_channel_peer_from_scid_def sample_peer_channel_def get_channel_def sample_channels
        get_direction_def)
  have "graph_reach sample_ends (n_graph sample_node)" using sample_reach by simp
  from own_channels_found [OF this sample_node_ok out inc] out inc show ?thesis
    by (simp add: sample_back_def)
qed

text \<open>C27. When a rebalance of \<open>amount\<close> satoshis is booked, the balance of the outgoing channel falls and that of
  the incoming channel rises by the amount in millisatoshi; no other channel of any peer and nothing else
  of the node changes, also when both channels are with the same peer.\<close>

theorem update_channel_balance_exact:
  assumes "peers_ok (n_peers n)" and "n_peers n out_peer \<noteq> None" and "n_peers n in_peer \<noteq> None"
  shows "update_channel_balance out_peer in_peer out_scid in_scid amount n =
    Ok (n\<lparr>n_peers := \<lambda>i. map_option (\<lambda>p. p\<lparr>peer_channels :=
          map (moved out_peer in_peer out_scid in_scid amount i) (peer_channels p)\<rparr>) (n_peers n i)\<rparr>)"
  by (rule update_channel_balance_eq [OF assms])

theorem update_channel_balance_exact_witness:
  "\<exists>n'. update_channel_balance ''03bb'' ''03bb'' ''1x1x1'' ''9x9x9'' 200 sample_node = Ok n'
     \<and> n_peers n' ''03bb'' = Some \<lparr>peer_id = ''03bb'', peer_connected = True,
         peer_channels = [sample_peer_channel\<lparr>pc_to_us := 599800000\<rparr>]\<rparr>"
  using update_channel_balance_exact [OF sample_node_ok(1), of "''03bb''" "''03bb''" "''1x1x1''" "''9x9x9''" 200]
  by (simp add: moved_def) (simp add: sample_peer_channel_def)

text \<open>C40. The best channel with a peer is one of its channels with the largest metric. A peer that has no
  channel with us makes the lookup panic instead of reporting an error.\<close>

theorem best_peer_channel_correct:
  assumes "n_peers n pid = Some p"
  shows "(if peer_channels p = [] then get_best_peer_channel pid metric n = Panic
     else \<exists>best \<in> set (peer_channels p). get_best_peer_channel pid metric n = Ok best
            \<and> (\<forall>c \<in> set (peer_channels p). metric c \<le> metric best))"
proof (cases "peer_channels p")
  case Nil
  then show ?thesis using assms by (simp add: get_best_peer_channel_def)
next
  case (Cons c cs)
  then show ?thesis
    using assms fold_best [of c "c # cs" metric] by (auto simp: get_best_peer_channel_def)
qed

theorem best_peer_channel_correct_witness:
  "get_best_peer_channel ''03bb'' pc_to_us sample_node = Ok sample_peer_channel"
  using best_peer_channel_correct [of sample_node "''03bb''"
      "\<lparr>peer_id = ''03bb'', peer_connected = True, peer_channels = [sample_peer_channel]\<rparr>" pc_to_us]
  by simp

end
