(* ===== verification/Payment.thy ===== *)
theory Payment
  imports Node
begin

text \<open>
  \<^verbatim>\<open>node/payment.go\<close>, \<^verbatim>\<open>node/preimage.go\<close>, \<^verbatim>\<open>node/liquidity.go\<close> and \<^verbatim>\<open>cmd/circular/hooks.go\<close>: the life of a payment to
  ourselves. A preimage is drawn and stored under its hash; the payment is sent and awaited; when its HTLC
  arrives, the preimage in the database resolves it; a notification about the payment deletes the preimage;
  a timeout deletes it and leaves a marker. A failed payment also puts a liquidity update into a buffered
  channel. The answers of lightningd, the drawn bytes and the SHA-256 function are arguments.
\<close>

section \<open>Preimages\<close>

definition hex_digit :: "nat \<Rightarrow> char" where
  "hex_digit d = (if d < 10 then char_of (48 + d) else char_of (87 + d))"

text \<open>\<^verbatim>\<open>hex.EncodeToString\<close>.\<close>

definition hex_encode :: "8 word list \<Rightarrow> string" where
  "hex_encode bs = concat (map (\<lambda>b. [hex_digit (unat b div 16), hex_digit (unat b mod 16)]) bs)"

record preimage_hash_pair =
  pair_preimage :: string
  pair_hash :: string

text \<open>\<open>bytes\<close> are the 32 bytes that \<^verbatim>\<open>rand.Read\<close> filled in.\<close>

definition new_preimage_hash_pair :: "'d library \<Rightarrow> 8 word list \<Rightarrow> preimage_hash_pair" where
  "new_preimage_hash_pair B bytes =
     \<lparr>pair_preimage = hex_encode bytes, pair_hash = hex_encode (sha256 B bytes)\<rparr>"

text \<open>A database operation of the node: on an error the database stays as it was.\<close>

definition with_db :: "('d \<Rightarrow> 'd ext) \<Rightarrow> 'd node \<Rightarrow> go_err option \<times> 'd node" where
  "with_db f n = (case f (n_db n) of
     Inl e \<Rightarrow> (Some e, n) | Inr db \<Rightarrow> (None, n\<lparr>n_db := db\<rparr>))"

definition generate_preimage_hash_pair ::
  "'d library \<Rightarrow> 8 word list \<Rightarrow> 'd node \<Rightarrow> string ext \<times> 'd node" where
  "generate_preimage_hash_pair B bytes n =
     (let pair = new_preimage_hash_pair B bytes;
          (err, n') = with_db (store_set B (pair_hash pair) (pair_preimage pair)) n
      in case err of Some e \<Rightarrow> (Inl e, n') | None \<Rightarrow> (Inr (pair_hash pair), n'))"

definition node_save :: "'d library \<Rightarrow> string \<Rightarrow> string ext \<Rightarrow> 'd node \<Rightarrow> go_err option \<times> 'd node" where
  "node_save B key json n = with_db (save_to_db B (n_save_stats n) key json) n"

datatype htlc_response = Continue | Resolve string

definition on_htlc_accepted :: "'d library \<Rightarrow> string \<Rightarrow> 'd node \<Rightarrow> htlc_response" where
  "on_htlc_accepted B payment_hash n = (case store_get B payment_hash (n_db n) of
     Inl e \<Rightarrow> Continue | Inr preimage \<Rightarrow> Resolve preimage)"

section \<open>Sending a payment\<close>

text \<open>An error of \<^verbatim>\<open>WaitSendPay\<close>: its text and, when it is a payment error, the node it came from.\<close>

record wait_error =
  we_text :: string
  we_erring_node :: "string option"

definition manage_timeout :: "'d library \<Rightarrow> string \<Rightarrow> 'd node \<Rightarrow> 'f res \<times> 'd node" where
  "manage_timeout B payment_hash n =
     (let n1 = snd (with_db (store_delete B payment_hash) n);
          n2 = snd (with_db (store_set B (TimeoutPrefix @ payment_hash) ''timeout'') n1)
      in (Err ErrSendPayTimeout, n2))"

text \<open>\<open>lite\<close> is the error of \<^verbatim>\<open>SendPayLite\<close>, \<open>wait\<close> the answer of \<^verbatim>\<open>WaitSendPay\<close>.\<close>

definition send_pay ::
  "'d library \<Rightarrow> route \<Rightarrow> string \<Rightarrow> string option \<Rightarrow> wait_error + 'f \<Rightarrow> 'd node \<Rightarrow> 'f res \<times> 'd node" where
  "send_pay B r payment_hash lite wait n =
     (let final_route = to_lightning_route r
      in case lite of
           Some e \<Rightarrow> (Err ErrFirstPeerNotReady, n)
         | None \<Rightarrow> (case wait of
             Inr result \<Rightarrow> (Ok result, n)
           | Inl err \<Rightarrow>
               if we_text err = error_text ErrSendPayTimeout then manage_timeout B payment_hash n
               else if we_text err = error_text ErrWireFeeInsufficient
               then (case we_erring_node err of
                  None \<Rightarrow> (Err (ErrForeign (we_text err)), n)
                | Some erring \<Rightarrow>
                    if length final_route < 2 then (Panic, n)
                    else if hop_id (final_route ! (length final_route - 2)) = erring
                    then (Err ErrWireFeeInsufficient, n)
                    else (Err (ErrForeign (we_text err)), n))
               else (Err (ErrForeign (we_text err)), n)))"

section \<open>Notifications\<close>

definition delete_if_ours :: "'d library \<Rightarrow> string \<Rightarrow> 'd node \<Rightarrow> go_err option \<times> 'd node" where
  "delete_if_ours B payment_hash n =
     (let key = TimeoutPrefix @ payment_hash
      in if store_get B payment_hash (n_db n) = Inl ErrKeyNotFound
         then if store_get B key (n_db n) = Inl ErrKeyNotFound then (Some ErrKeyNotFound, n)
              else with_db (store_delete B key) n
         else with_db (store_delete B payment_hash) n)"

definition failure_update :: "sendpay_failure \<Rightarrow> liquidity_update" where
  "failure_update sf =
     \<lparr>lu_amount = sf_msat sf - go_min (sf_msat sf) 1000000, lu_scid = sf_channel sf,
      lu_direction = sf_direction sf\<rparr>"

text \<open>The second component is the update that the handler waits to send, when the buffer is full.\<close>

definition send_update :: "liquidity_update \<Rightarrow> 'd node \<Rightarrow> 'd node \<times> liquidity_update option" where
  "send_update u n =
     (if length (n_updates n) < update_capacity
      then (n\<lparr>n_updates := n_updates n @ [u]\<rparr>, None) else (n, Some u))"

definition on_payment_failure ::
  "'d library \<Rightarrow> sendpay_failure \<Rightarrow> 'd node \<Rightarrow> 'd node \<times> liquidity_update option" where
  "on_payment_failure B sf n =
     (let (err, n1) = delete_if_ours B (sf_hash sf) n
      in case err of
           Some e \<Rightarrow> (n1, None)
         | None \<Rightarrow>
             send_update (failure_update sf)
               (snd (node_save B (FailurePrefix @ sf_hash sf) (json_failure B sf) n1)))"

definition on_payment_success :: "'d library \<Rightarrow> sendpay_success \<Rightarrow> 'd node \<Rightarrow> 'd node" where
  "on_payment_success B ss n =
     (let (err, n1) = delete_if_ours B (ss_hash ss) n
      in case err of
           Some e \<Rightarrow> n1
         | None \<Rightarrow> snd (node_save B (SuccessPrefix @ ss_hash ss) (json_success B ss) n1))"

text \<open>One turn of the loop of \<^verbatim>\<open>UpdateLiquidity\<close>; with an empty buffer it waits.\<close>

definition update_liquidity_step :: "int \<Rightarrow> 'd node \<Rightarrow> 'd node option" where
  "update_liquidity_step now n = (case n_updates n of
     [] \<Rightarrow> None
   | u # us \<Rightarrow>
       let channel_id = lu_scid u @ ''/'' @ itoa (lu_direction u);
           opposite = lu_scid u @ ''/'' @ itoa (xor (lu_direction u) 1)
       in Some (n\<lparr>n_updates := us,
                  n_graph := update_channel channel_id opposite (lu_amount u) now (n_graph n)\<rparr>))"


section \<open>Facts about the operations\<close>

lemma with_db_cases:
  "with_db f n = (err, n') \<longleftrightarrow>
     (case f (n_db n) of Inl e \<Rightarrow> err = Some e \<and> n' = n | Inr db \<Rightarrow> err = None \<and> n' = n\<lparr>n_db := db\<rparr>)"
  by (auto simp: with_db_def split: sum.split)

lemma with_db_frame:
  "\<exists>db. snd (with_db f n) = n\<lparr>n_db := db\<rparr>"
proof (cases "f (n_db n)")
  case (Inl e)
  then show ?thesis by (intro exI [of _ "n_db n"]) (simp add: with_db_def)
qed (auto simp: with_db_def)

text \<open>Handlers only change the database and the buffer of updates.\<close>

definition db_only :: "'d node \<Rightarrow> 'd node \<Rightarrow> bool" where
  "db_only n n' \<longleftrightarrow> (\<exists>db. n' = n\<lparr>n_db := db\<rparr>)"

lemma db_only_refl [simp]: "db_only n n"
  unfolding db_only_def by (intro exI [of _ "n_db n"]) simp

lemma db_only_trans: "db_only n n' \<Longrightarrow> db_only n' n'' \<Longrightarrow> db_only n n''"
  by (auto simp: db_only_def)

lemma db_only_fields [dest]:
  assumes "db_only n n'"
  shows "n_id n' = n_id n" "n_stopped n' = n_stopped n" "n_save_stats n' = n_save_stats n"
    "n_peers n' = n_peers n" "n_graph n' = n_graph n" "n_updates n' = n_updates n"
  using assms by (auto simp: db_only_def)

lemma db_only_with_db: "db_only n (snd (with_db f n))"
  using with_db_frame [of f n] by (simp add: db_only_def)

lemma db_only_node_save: "db_only n (snd (node_save B k json n))"
  by (simp add: node_save_def db_only_with_db)

lemma db_only_delete_if_ours: "db_only n (snd (delete_if_ours B h n))"
  by (simp add: delete_if_ours_def Let_def db_only_with_db)

lemma db_only_generate: "db_only n (snd (generate_preimage_hash_pair B bytes n))"
  using db_only_with_db [of n "store_set B (hex_encode (sha256 B bytes)) (hex_encode bytes)"]
  by (simp add: generate_preimage_hash_pair_def new_preimage_hash_pair_def Let_def split_def
      split: option.split)

lemma db_only_manage_timeout: "db_only n (snd (manage_timeout B h n))"
  unfolding manage_timeout_def Let_def snd_conv
  by (rule db_only_trans [OF db_only_with_db db_only_with_db])

lemma db_only_send_pay: "db_only n (snd (send_pay B r h lite wait n))"
  by (cases lite; cases wait)
    (auto simp: send_pay_def Let_def db_only_manage_timeout simp del: error_text.simps split: option.split)

lemma db_only_success: "db_only n (on_payment_success B ss n)"
proof -
  obtain err n1 where d: "delete_if_ours B (ss_hash ss) n = (err, n1)" by fastforce
  then have "db_only n n1" using db_only_delete_if_ours [of n B "ss_hash ss"] by simp
  then show ?thesis
    using d db_only_trans [OF _ db_only_node_save] by (auto simp: on_payment_success_def split: option.split)
qed

text \<open>What a failure notification does to the buffer.\<close>

lemma on_payment_failure_cases:
  "(\<exists>n1. db_only n n1 \<and> on_payment_failure B sf n = (n1, None)) \<or>
   (\<exists>n1. db_only n n1 \<and> on_payment_failure B sf n = send_update (failure_update sf) n1)"
proof -
  obtain err n1 where d: "delete_if_ours B (sf_hash sf) n = (err, n1)" by fastforce
  have "db_only n n1" using db_only_delete_if_ours [of n B "sf_hash sf"] d by simp
  show ?thesis
  proof (cases err)
    case None
    let ?n2 = "snd (node_save B (FailurePrefix @ sf_hash sf) (json_failure B sf) n1)"
    have "db_only n ?n2" using \<open>db_only n n1\<close> db_only_node_save by (rule db_only_trans)
    moreover have "on_payment_failure B sf n = send_update (failure_update sf) ?n2"
      using d None by (simp add: on_payment_failure_def)
    ultimately show ?thesis by blast
  next
    case (Some e)
    then show ?thesis using d \<open>db_only n n1\<close> by (auto simp: on_payment_failure_def)
  qed
qed

text \<open>A payment is ours when its preimage or the marker of its timeout is in the database.\<close>

definition ours :: "'d library \<Rightarrow> string \<Rightarrow> 'd node \<Rightarrow> bool" where
  "ours B h n \<longleftrightarrow> store_get B h (n_db n) \<noteq> Inl ErrKeyNotFound
     \<or> store_get B (TimeoutPrefix @ h) (n_db n) \<noteq> Inl ErrKeyNotFound"

text \<open>No transaction fails: badger does not promise this, it describes scenarios.\<close>

definition badger_total :: "'d library \<Rightarrow> bool" where
  "badger_total B \<longleftrightarrow> (\<forall>k v ttl db. \<exists>db'. bd_set B k v ttl db = Inr db')
     \<and> (\<forall>k db. \<exists>db'. bd_delete B k db = Inr db')"

lemma badger_totalD:
  assumes "badger_total B"
  obtains db' where "store_set B k v db = Inr db'"
  using assms unfolding badger_total_def store_set_def by blast

lemma badger_total_delete:
  assumes "badger_total B"
  obtains db' where "store_delete B k db = Inr db'"
  using assms unfolding badger_total_def store_delete_def by blast

lemma map_library_total: "badger_total map_library"
  by (simp add: badger_total_def map_library_def)

lemma delete_if_ours_not_ours:
  "\<not> ours B h n \<Longrightarrow> delete_if_ours B h n = (Some ErrKeyNotFound, n)"
  by (simp add: delete_if_ours_def ours_def)

lemma delete_if_ours_total:
  assumes "badger_ok B" and "badger_total B" and "ours B h n"
  obtains db where "delete_if_ours B h n = (None, n\<lparr>n_db := db\<rparr>)"
    and "store_get B h db = Inl ErrKeyNotFound"
proof -
  obtain db1 where d1: "store_delete B h (n_db n) = Inr db1"
    using badger_total_delete [OF assms(2)] .
  obtain db2 where d2: "store_delete B (TimeoutPrefix @ h) (n_db n) = Inr db2"
    using badger_total_delete [OF assms(2)] .
  show ?thesis
  proof (cases "store_get B h (n_db n) = Inl ErrKeyNotFound")
    case True
    then have "delete_if_ours B h n = (None, n\<lparr>n_db := db2\<rparr>)"
      using assms(3) d2 by (simp add: delete_if_ours_def ours_def with_db_def)
    moreover have "store_get B h db2 = Inl ErrKeyNotFound"
      using store_get_delete [OF assms(1) d2] True by (simp add: TimeoutPrefix_def)
    ultimately show ?thesis by (rule that)
  next
    case False
    then have "delete_if_ours B h n = (None, n\<lparr>n_db := db1\<rparr>)"
      using d1 by (simp add: delete_if_ours_def with_db_def)
    moreover have "store_get B h db1 = Inl ErrKeyNotFound"
      using store_get_delete [OF assms(1) d1] by simp
    ultimately show ?thesis by (rule that)
  qed
qed


lemma node_save_get:
  assumes "badger_ok B" and "k' \<noteq> k"
  shows "store_get B k' (n_db (snd (node_save B k json n))) = store_get B k' (n_db n)"
  using save_to_db_get [OF assms(1) _ assms(2), of "n_save_stats n" json "n_db n"]
  by (cases "save_to_db B (n_save_stats n) k json (n_db n)") (simp_all add: node_save_def with_db_def)

section \<open>The running node\<close>

text \<open>
  What the plugin does once it is initialised, as atomic steps in any order: notifications, hooks, payments,
  refreshes, expiry in the database. The second component holds the updates of the failure handlers that wait
  for room in the buffer. There is no step that receives an update: \<^verbatim>\<open>UpdateLiquidity\<close> is not called anywhere.
\<close>

type_synonym 'd system = "'d node \<times> liquidity_update list"

inductive gossip_step :: "(string \<Rightarrow> string \<times> string \<times> u64) \<Rightarrow> graph \<Rightarrow> graph \<Rightarrow> bool"
  for ends :: "string \<Rightarrow> string \<times> string \<times> u64" where
  gossip_refresh: "\<forall>c \<in> set cs. gossip_ok ends c \<Longrightarrow> gossip_step ends g (refresh_channels cs g)"
| gossip_aliases: "gossip_step ends g (refresh_aliases ns g)"
| gossip_prune: "gossip_step ends g (prune_channels ks now_s g)"
| gossip_liquidity: "distinct ks \<Longrightarrow> gossip_step ends g (fst (refresh_liquidity ks threshold now clk g))"

inductive node_step ::
  "'d library \<Rightarrow> (string \<Rightarrow> string \<times> string \<times> u64) \<Rightarrow> 'd system \<Rightarrow> 'd system \<Rightarrow> bool"
  for B :: "'d library" and ends :: "string \<Rightarrow> string \<times> string \<times> u64" where
  step_failure: "on_payment_failure B sf n = (n', w) \<Longrightarrow>
    node_step B ends (n, ws) (n', ws @ (case w of None \<Rightarrow> [] | Some u \<Rightarrow> [u]))"
| step_success: "node_step B ends (n, ws) (on_payment_success B ss n, ws)"
| step_generate: "node_step B ends (n, ws) (snd (generate_preimage_hash_pair B bytes n), ws)"
| step_pay: "node_step B ends (n, ws) (snd (send_pay B r h lite (wait :: wait_error + unit) n), ws)"
| step_save: "node_step B ends (n, ws) (snd (node_save B key json n), ws)"
| step_expire: "node_step B ends (n, ws) (n\<lparr>n_db := db\<rparr>, ws)"
| step_peers: "node_step B ends (n, ws) (refresh_peers ps n, ws)"
| step_connect: "node_step B ends (n, ws) (set_connected b pid n, ws)"
| step_balance: "update_channel_balance po pi so si amount n = Ok n' \<Longrightarrow> node_step B ends (n, ws) (n', ws)"
| step_control: "node_step B ends (n, ws) (set_stopped b n, ws)"
| step_gossip: "gossip_step ends (n_graph n) g \<Longrightarrow> node_step B ends (n, ws) (n\<lparr>n_graph := g\<rparr>, ws)"

inductive_cases node_stepE: "node_step B ends s s'"

text \<open>Every belief is the initial one.\<close>

definition untaught :: "graph \<Rightarrow> bool" where
  "untaught g \<longleftrightarrow> (\<forall>cid c. channels g cid = Some c \<longrightarrow> liquidity c = half_capacity c)"

lemma half_capacity_new [simp]:
  "half_capacity (new_channel c l t) = half_capacity c"
  "half_capacity (reset_liquidity t c') = half_capacity c'"
  by (simp_all add: half_capacity_def)

lemma gossip_step_ok:
  assumes "gossip_step ends g g'" and "graph_ok ends g" and "untaught g"
  shows "graph_ok ends g' \<and> untaught g'"
  using assms
proof cases
  case (gossip_refresh cs)
  have keep: "half_capacity c = half_capacity old" if "latest k cs = Some c" "channels g k = Some old" for k c old
  proof -
    have "c \<in> set cs \<and> channel_id c = k" using find_SomeD [OF that(1) [unfolded latest_def]] by simp
    then have "gossip_ok ends c" "gossip_ok ends old" "channel_id c = channel_id old"
      using gossip_refresh(2) graph_okD(1,2) [OF assms(2) that(2)] by auto
    then show ?thesis using same_channel_same_ends [of ends c old] by (simp add: half_capacity_def)
  qed
  have "untaught g'"
    using assms(3) keep by (fastforce simp: untaught_def gossip_refresh(1) refresh_channels_def
      refresh_fold_content [OF gossip_refresh(2)] refreshed_def split: option.splits)
  moreover have "graph_ok ends g'"
    using gossip_refresh assms(2) by (simp add: graph_ok_refresh_channels)
  ultimately show ?thesis by simp
next
  case (gossip_aliases ns)
  then show ?thesis using assms(2,3) by (simp add: graph_ok_frame [of "refresh_aliases ns g" g] untaught_def)
next
  case (gossip_prune ks now_s)
  then show ?thesis using assms(2,3) prune_fold [OF assms(2)]
    by (auto simp: prune_channels_fold untaught_def split: option.splits if_splits)
next
  case (gossip_liquidity ks threshold now clk)
  have "untaught g'"
    using assms(3) by (auto simp: untaught_def gossip_liquidity(1) refresh_liquidity_fold
      conjunct1 [OF liquidity_fold [OF gossip_liquidity(2)]] split: option.splits if_splits)
  moreover have "graph_ok ends g'"
    using assms(2) by (simp add: gossip_liquidity(1) refresh_liquidity_fold liquidity_fold_ok)
  ultimately show ?thesis by simp
qed

text \<open>What the steps keep: the graph is untaught, the buffer stays within its capacity and only grows, and a
  handler waits only when it is full.\<close>

definition updates_grow :: "'d system \<Rightarrow> 'd system \<Rightarrow> bool" where
  "updates_grow s s' \<longleftrightarrow>
     (\<exists>us xs. n_updates (fst s') = n_updates (fst s) @ us \<and> snd s' = snd s @ xs
       \<and> (us \<noteq> [] \<longrightarrow> length (n_updates (fst s')) \<le> update_capacity)
       \<and> (xs \<noteq> [] \<longrightarrow> update_capacity \<le> length (n_updates (fst s'))))"

lemma send_update_grow:
  assumes "send_update u n = (n', w)"
  shows "updates_grow (n, ws) (n', ws @ (case w of None \<Rightarrow> [] | Some u \<Rightarrow> [u]))"
    and "n_graph n' = n_graph n"
  using assms by (auto simp: send_update_def updates_grow_def split: if_splits)

lemma updates_grow_refl: "n_updates n' = n_updates n \<Longrightarrow> updates_grow (n, ws) (n', ws)"
  by (simp add: updates_grow_def)

lemma updates_grow_trans: "updates_grow s s' \<Longrightarrow> updates_grow s' s'' \<Longrightarrow> updates_grow s s''"
  unfolding updates_grow_def by (elim exE conjE) auto

lemma peers_frame [simp]:
  "n_graph (refresh_peers ps n) = n_graph n" "n_updates (refresh_peers ps n) = n_updates n"
  "n_graph (set_connected b pid n) = n_graph n" "n_updates (set_connected b pid n) = n_updates n"
  "n_graph (set_stopped b n) = n_graph n" "n_updates (set_stopped b n) = n_updates n"
  by (simp_all add: refresh_peers_def set_connected_def set_stopped_def split: option.split)

lemma update_channel_balance_frame:
  "update_channel_balance po pi so si amount n = Ok n' \<Longrightarrow> n_graph n' = n_graph n \<and> n_updates n' = n_updates n"
  by (auto simp: update_channel_balance_def Let_def split: option.splits)

lemma node_step_effect:
  assumes "node_step B ends s s'"
  shows "updates_grow s s' \<and> (n_graph (fst s') = n_graph (fst s)
    \<or> gossip_step ends (n_graph (fst s)) (n_graph (fst s')))"
  using assms
proof cases
  case (step_failure sf n n' w ws)
  from on_payment_failure_cases [of n B sf] show ?thesis
  proof (elim disjE exE conjE)
    fix n1 assume "db_only n n1" "on_payment_failure B sf n = (n1, None)"
    then show ?thesis using step_failure by (auto simp: updates_grow_refl dest: db_only_fields)
  next
    fix n1 assume n1: "db_only n n1" and "on_payment_failure B sf n = send_update (failure_update sf) n1"
    then have su: "send_update (failure_update sf) n1 = (n', w)" using step_failure by simp
    have "updates_grow (n, ws) (n1, ws)" using db_only_fields(6) [OF n1] by (rule updates_grow_refl)
    then show ?thesis
      using step_failure send_update_grow [OF su] updates_grow_trans db_only_fields(5) [OF n1] by fastforce
  qed
next
  case (step_success n ws ss)
  then show ?thesis using db_only_fields [OF db_only_success [of n B ss]] by (simp add: updates_grow_refl)
next
  case (step_generate n ws bytes)
  then show ?thesis using db_only_fields [OF db_only_generate [of n B bytes]] by (simp add: updates_grow_refl)
next
  case (step_pay n ws r h lite wait)
  then show ?thesis
    using db_only_fields [OF db_only_send_pay [of n B r h lite wait]] by (simp add: updates_grow_refl)
next
  case (step_save n ws key json)
  then show ?thesis using db_only_fields [OF db_only_node_save [of n B key json]] by (simp add: updates_grow_refl)
next
  case (step_balance po pi so si amount n n' ws)
  then show ?thesis using update_channel_balance_frame [OF step_balance(3)] by (simp add: updates_grow_refl)
qed (auto simp: updates_grow_refl)

lemma node_steps_effect:
  assumes "(node_step B ends)\<^sup>*\<^sup>* s s'"
  shows "updates_grow s s' \<and> (graph_ok ends (n_graph (fst s)) \<longrightarrow> untaught (n_graph (fst s)) \<longrightarrow>
    graph_ok ends (n_graph (fst s')) \<and> untaught (n_graph (fst s')))"
  using assms
proof (induction rule: rtranclp_induct)
  case base
  then show ?case by (simp add: updates_grow_def)
next
  case (step s' s'')
  then show ?case
    using node_step_effect [OF step.hyps(2)] updates_grow_trans gossip_step_ok by metis
qed


section \<open>Properties\<close>

text \<open>Once a preimage has been drawn, the HTLC that carries its hash is resolved with exactly this preimage,
  and the answer to every other HTLC stays what it was.\<close>

theorem drawn_preimage_resolves:
  assumes "badger_ok B" and "generate_preimage_hash_pair B bytes n = (Inr h, n')"
  shows "h = hex_encode (sha256 B bytes) \<and> on_htlc_accepted B h n' = Resolve (hex_encode bytes)
    \<and> (h' \<noteq> h \<longrightarrow> on_htlc_accepted B h' n' = on_htlc_accepted B h' n)"
proof -
  have h: "h = hex_encode (sha256 B bytes)"
    and w: "with_db (store_set B h (hex_encode bytes)) n = (None, n')"
    using assms(2) by (auto simp: generate_preimage_hash_pair_def new_preimage_hash_pair_def Let_def
        split: prod.splits option.splits)
  obtain db where db: "store_set B h (hex_encode bytes) (n_db n) = Inr db" "n_db n' = db"
    using w by (auto simp: with_db_cases split: sum.splits)
  from store_get_set [OF assms(1) db(1)] h db(2) show ?thesis by (simp add: on_htlc_accepted_def)
qed

theorem drawn_preimage_resolves_witness:
  "\<exists>n'. generate_preimage_hash_pair map_library [171, 18] sample_node = (Inr ''12ab'', n')
     \<and> on_htlc_accepted map_library ''12ab'' n' = Resolve ''ab12''"
proof -
  have hex: "hex_encode [171, 18] = ''ab12''" "hex_encode [18, 171] = ''12ab''" by code_simp+
  then have "\<exists>n'. generate_preimage_hash_pair map_library [171, 18] sample_node = (Inr ''12ab'', n')"
    by (simp add: generate_preimage_hash_pair_def new_preimage_hash_pair_def Let_def with_db_def
        store_set_def map_library_def)
  with drawn_preimage_resolves [OF map_library_ok, of "[171, 18]" sample_node "''12ab''"] hex
  show ?thesis by auto
qed

text \<open>When the writes to the database succeed, a payment that timed out cannot complete any more: its HTLC is passed on instead of resolved, and a
  later notification about it is still recognised as ours, once, through the marker.\<close>

theorem timeout_cancels_payment:
  assumes "badger_ok B" and "badger_total B"
    and "send_pay B r h None (Inl err) n = (result, n')" and "we_text err = error_text ErrSendPayTimeout"
  shows "result = Err ErrSendPayTimeout \<and> on_htlc_accepted B h n' = Continue \<and> ours B h n'
    \<and> (\<exists>n''. delete_if_ours B h n' = (None, n'') \<and> \<not> ours B h n'')"
proof -
  have run: "manage_timeout B h n = (result, n')"
    using assms(3,4) by (simp add: send_pay_def Let_def)
  obtain db1 where d1: "store_delete B h (n_db n) = Inr db1" using badger_total_delete [OF assms(2)] .
  obtain db2 where d2: "store_set B (TimeoutPrefix @ h) ''timeout'' db1 = Inr db2"
    using badger_totalD [OF assms(2)] .
  obtain db3 where d3: "store_delete B (TimeoutPrefix @ h) db2 = Inr db3"
    using badger_total_delete [OF assms(2)] .
  have n': "n' = n\<lparr>n_db := db2\<rparr>" and result: "result = Err ErrSendPayTimeout"
    using run d1 d2 by (auto simp: manage_timeout_def Let_def with_db_def)
  have "h \<noteq> TimeoutPrefix @ h" by (simp add: TimeoutPrefix_def)
  then have h: "store_get B h db2 = Inl ErrKeyNotFound"
    and t: "store_get B (TimeoutPrefix @ h) db2 = Inr ''timeout''"
    using store_get_set [OF assms(1) d2] store_get_delete [OF assms(1) d1] by simp_all
  have "delete_if_ours B h n' = (None, n\<lparr>n_db := db3\<rparr>)"
    using h t d3 by (simp add: delete_if_ours_def n' with_db_def)
  moreover have "\<not> ours B h (n\<lparr>n_db := db3\<rparr>)"
    using store_get_delete [OF assms(1) d3] h \<open>h \<noteq> TimeoutPrefix @ h\<close> by (simp add: ours_def)
  ultimately show ?thesis using h t result by (simp add: n' on_htlc_accepted_def ours_def)
qed

theorem timeout_cancels_payment_witness:
  "on_htlc_accepted map_library ''ab12''
     (snd (send_pay map_library sample_route ''ab12'' None
        (Inl \<lparr>we_text = error_text ErrSendPayTimeout, we_erring_node = None\<rparr> :: wait_error + unit)
        (sample_node\<lparr>n_db := [(''ab12'', ''ab12'')]\<rparr>))) = Continue"
proof -
  let ?err = "\<lparr>we_text = error_text ErrSendPayTimeout, we_erring_node = None\<rparr>"
  obtain result n' where run: "send_pay map_library sample_route ''ab12'' None (Inl ?err :: wait_error + unit)
      (sample_node\<lparr>n_db := [(''ab12'', ''ab12'')]\<rparr>) = (result, n')" by fastforce
  from timeout_cancels_payment [OF map_library_ok map_library_total run] run show ?thesis by simp
qed

text \<open>A notification about a payment that is not ours changes nothing; one about ours, whether it failed or
  succeeded, takes, when the writes succeed, the preimage out of the database, so the same payment cannot complete again.\<close>

theorem notifications_settle_own_payments:
  assumes "badger_ok B" and "badger_total B"
  shows "(\<not> ours B (sf_hash sf) n \<longrightarrow> on_payment_failure B sf n = (n, None))
    \<and> (\<not> ours B (ss_hash ss) n \<longrightarrow> on_payment_success B ss n = n)
    \<and> (ours B (sf_hash sf) n \<longrightarrow>
         on_htlc_accepted B (sf_hash sf) (fst (on_payment_failure B sf n)) = Continue)
    \<and> (ours B (ss_hash ss) n \<longrightarrow> on_htlc_accepted B (ss_hash ss) (on_payment_success B ss n) = Continue)"
proof (intro conjI impI)
  assume "\<not> ours B (sf_hash sf) n"
  then show "on_payment_failure B sf n = (n, None)"
    by (simp add: on_payment_failure_def delete_if_ours_not_ours)
next
  assume "\<not> ours B (ss_hash ss) n"
  then show "on_payment_success B ss n = n"
    by (simp add: on_payment_success_def delete_if_ours_not_ours)
next
  assume "ours B (sf_hash sf) n"
  from delete_if_ours_total [OF assms this] obtain db
    where d: "delete_if_ours B (sf_hash sf) n = (None, n\<lparr>n_db := db\<rparr>)"
      and g: "store_get B (sf_hash sf) db = Inl ErrKeyNotFound" .
  have "sf_hash sf \<noteq> FailurePrefix @ sf_hash sf" by (simp add: FailurePrefix_def)
  from node_save_get [OF assms(1) this] g
  have "store_get B (sf_hash sf)
      (n_db (snd (node_save B (FailurePrefix @ sf_hash sf) (json_failure B sf) (n\<lparr>n_db := db\<rparr>)))) =
      Inl ErrKeyNotFound" by simp
  then show "on_htlc_accepted B (sf_hash sf) (fst (on_payment_failure B sf n)) = Continue"
    using d by (simp add: on_payment_failure_def send_update_def on_htlc_accepted_def)
next
  assume "ours B (ss_hash ss) n"
  from delete_if_ours_total [OF assms this] obtain db
    where d: "delete_if_ours B (ss_hash ss) n = (None, n\<lparr>n_db := db\<rparr>)"
      and g: "store_get B (ss_hash ss) db = Inl ErrKeyNotFound" .
  have "ss_hash ss \<noteq> SuccessPrefix @ ss_hash ss" by (simp add: SuccessPrefix_def)
  from node_save_get [OF assms(1) this] g d
  show "on_htlc_accepted B (ss_hash ss) (on_payment_success B ss n) = Continue"
    by (simp add: on_payment_success_def on_htlc_accepted_def)
qed

definition sample_failure :: sendpay_failure where
  "sample_failure = \<lparr>sf_code = 204, sf_hash = ''ab12'', sf_msat = 200000000, sf_channel = ''1x1x1'',
     sf_direction = 1\<rparr>"

theorem notifications_settle_own_payments_witness:
  "on_htlc_accepted map_library ''ab12''
     (fst (on_payment_failure map_library sample_failure (sample_node\<lparr>n_db := [(''ab12'', ''ab12'')]\<rparr>)))
   = Continue"
proof -
  have "ours map_library (sf_hash sample_failure) (sample_node\<lparr>n_db := [(''ab12'', ''ab12'')]\<rparr>)"
    by (simp add: ours_def store_get_def map_library_def sample_failure_def)
  with notifications_settle_own_payments [OF map_library_ok map_library_total, of sample_failure]
  show ?thesis by (simp add: sample_failure_def)
qed


lemma on_payment_failure_ours:
  assumes "badger_ok B" and "badger_total B" and "ours B (sf_hash sf) n"
  obtains n1 where "db_only n n1" and "on_payment_failure B sf n = send_update (failure_update sf) n1"
proof -
  obtain db where d: "delete_if_ours B (sf_hash sf) n = (None, n\<lparr>n_db := db\<rparr>)"
    using delete_if_ours_total [OF assms] by blast
  let ?n1 = "snd (node_save B (FailurePrefix @ sf_hash sf) (json_failure B sf) (n\<lparr>n_db := db\<rparr>))"
  have "db_only n (n\<lparr>n_db := db\<rparr>)" by (auto simp: db_only_def)
  then have "db_only n ?n1" by (rule db_only_trans) (rule db_only_node_save)
  moreover have "on_payment_failure B sf n = send_update (failure_update sf) ?n1"
    using d by (simp add: on_payment_failure_def)
  ultimately show ?thesis by (rule that)
qed

lemma itoa_bits: "itoa 0 = ''0''" "itoa 1 = ''1''"
  by code_simp+

text \<open>What a failed payment is meant to teach: when the writes succeed and the update of a failure reaches \<^verbatim>\<open>UpdateLiquidity\<close>, the
  channel that failed is believed to hold 1000 sat less than the failed amount, at least nothing, and the
  opposite direction the rest of its capacity.\<close>

theorem failed_payment_teaches:
  assumes "badger_ok B" and "badger_total B" and "ours B (sf_hash sf) n" and "n_updates n = []"
    and "sf_direction sf = 0 \<or> sf_direction sf = 1"
    and "channels (n_graph n) (sf_channel sf @ ''/'' @ itoa (sf_direction sf)) = Some c"
    and "channels (n_graph n) (sf_channel sf @ ''/'' @ itoa (1 - sf_direction sf)) = Some c'"
  shows "\<exists>n'. update_liquidity_step now (fst (on_payment_failure B sf n)) = Some n' \<and> n_updates n' = []
    \<and> channels (n_graph n') = (channels (n_graph n))
        (sf_channel sf @ ''/'' @ itoa (sf_direction sf) \<mapsto>
           c\<lparr>liquidity := sf_msat sf - go_min (sf_msat sf) 1000000, timestamp := now\<rparr>,
         sf_channel sf @ ''/'' @ itoa (1 - sf_direction sf) \<mapsto>
           c'\<lparr>liquidity := satoshis c' * 1000 - (sf_msat sf - go_min (sf_msat sf) 1000000), timestamp := now\<rparr>)"
proof -
  obtain n1 where n1: "db_only n n1"
    and run: "on_payment_failure B sf n = send_update (failure_update sf) n1"
    using on_payment_failure_ours [OF assms(1-3)] .
  have x: "xor (sf_direction sf) 1 = 1 - sf_direction sf" using assms(5) by auto
  have ne: "sf_channel sf @ ''/'' @ itoa (sf_direction sf) \<noteq> sf_channel sf @ ''/'' @ itoa (1 - sf_direction sf)"
    using assms(5) by (auto simp: itoa_bits)
  show ?thesis
    using db_only_fields [OF n1] assms(4) update_channel_both [OF assms(6,7) ne]
    by (simp add: run send_update_def update_capacity_def failure_update_def update_liquidity_step_def Let_def x)
qed

theorem failed_payment_teaches_witness:
  "\<exists>n' c. update_liquidity_step 5 (fst (on_payment_failure map_library sample_failure
      (sample_node\<lparr>n_db := [(''ab12'', ''ab12'')]\<rparr>))) = Some n'
     \<and> channels (n_graph n') ''1x1x1/0'' = Some c \<and> liquidity c = 801000000"
proof -
  let ?n = "sample_node\<lparr>n_db := [(''ab12'', ''ab12'')]\<rparr>"
  have ours: "ours map_library (sf_hash sample_failure) ?n"
    by (simp add: ours_def store_get_def map_library_def sample_failure_def)
  have c: "channels (n_graph ?n) (sf_channel sample_failure @ ''/'' @ itoa (sf_direction sample_failure))
      = Some (new_channel sample_back (half_capacity sample_back) 0)"
    "channels (n_graph ?n) (sf_channel sample_failure @ ''/'' @ itoa (1 - sf_direction sample_failure))
      = Some (new_channel sample_gl (half_capacity sample_gl) 0)"
    by (simp_all add: sample_failure_def itoa_bits sample_channels)
  have "sf_direction sample_failure = 0 \<or> sf_direction sample_failure = 1" by (simp add: sample_failure_def)
  from failed_payment_teaches [OF map_library_ok map_library_total ours _ this c, of 5] show ?thesis
    by (auto simp: sample_failure_def itoa_bits go_min_def) (simp add: sample_gl_def)
qed

text \<open>C28. But \<^verbatim>\<open>UpdateLiquidity\<close> is never started: in every state that the initialised plugin can reach from an
  empty graph, each channel is still believed to hold half of its capacity, whatever payments failed.\<close>

theorem liquidity_never_learned:
  assumes "(node_step B ends)\<^sup>*\<^sup>* (new_node own save_stats minutes new_graph db, []) (n, ws)"
    and "channels (n_graph n) cid = Some c"
  shows "liquidity c = half_capacity c"
proof -
  have "untaught (n_graph n)"
    using node_steps_effect [OF assms(1)] graph_ok_new [of ends]
    by (simp add: new_node_def untaught_def) (simp add: new_graph_def)
  then show ?thesis using assms(2) by (simp add: untaught_def)
qed

theorem liquidity_never_learned_witness:
  "\<exists>n. (node_step map_library sample_ends)\<^sup>*\<^sup>* (new_node ''02aa'' True 300 new_graph [], []) (n, [])
     \<and> (\<exists>c. channels (n_graph n) ''1x1x1/0'' = Some c \<and> liquidity c = half_capacity c)"
proof -
  let ?n = "new_node ''02aa'' True 300 new_graph [] :: (string \<times> string) list node"
  have "gossip_step sample_ends (n_graph ?n) sample_graph"
    unfolding sample_graph_def new_node_def using sample_gossip by (simp add: gossip_refresh)
  then have step: "(node_step map_library sample_ends)\<^sup>*\<^sup>* (?n, []) (?n\<lparr>n_graph := sample_graph\<rparr>, [])"
    by (intro r_into_rtranclp step_gossip)
  have "\<exists>c. channels (n_graph (?n\<lparr>n_graph := sample_graph\<rparr>)) ''1x1x1/0'' = Some c"
    by (simp add: sample_channels)
  with liquidity_never_learned [OF step] step show ?thesis by blast
qed

text \<open>C29. After sixteen updates the buffer is full for good, and from then on the handler of every failed
  payment of ours, when its writes to the database succeed, waits forever: no later step empties the buffer or releases a waiting handler.\<close>

theorem failure_handlers_block:
  assumes "badger_ok B" and "badger_total B"
    and "length (n_updates n) = update_capacity" and "(node_step B ends)\<^sup>*\<^sup>* (n, ws) (n', ws')"
    and "ours B (sf_hash sf) n'"
  shows "n_updates n' = n_updates n \<and> (\<exists>xs. ws' = ws @ xs)
    \<and> snd (on_payment_failure B sf n') = Some (failure_update sf)"
proof -
  have g: "updates_grow (n, ws) (n', ws')" using node_steps_effect [OF assms(4)] by blast
  then have same: "n_updates n' = n_updates n" using assms(3) by (auto simp: updates_grow_def)
  obtain n1 where n1: "db_only n' n1" "on_payment_failure B sf n' = send_update (failure_update sf) n1"
    using on_payment_failure_ours [OF assms(1,2,5)] .
  then have "snd (on_payment_failure B sf n') = Some (failure_update sf)"
    using same assms(3) db_only_fields(6) [OF n1(1)] n1(2) by (simp add: send_update_def)
  then show ?thesis using g same by (auto simp: updates_grow_def)
qed

theorem failure_handlers_block_witness:
  "snd (on_payment_failure map_library sample_failure
     (sample_node\<lparr>n_db := [(''ab12'', ''ab12'')], n_updates := replicate 16 (failure_update sample_failure)\<rparr>))
   = Some (failure_update sample_failure)"
proof -
  let ?n = "sample_node\<lparr>n_db := [(''ab12'', ''ab12'')], n_updates := replicate 16 (failure_update sample_failure)\<rparr>"
  have ours: "ours map_library (sf_hash sample_failure) ?n"
    by (simp add: ours_def store_get_def map_library_def sample_failure_def)
  have len: "length (n_updates ?n) = update_capacity" by (simp add: update_capacity_def)
  have steps: "(node_step map_library sample_ends)\<^sup>*\<^sup>* (?n, []) (?n, [])" by simp
  from failure_handlers_block [OF map_library_ok map_library_total len steps ours] show ?thesis by simp
qed

end
