(* ===== verification/Pathfinder_Sound.thy ===== *)
theory Pathfinder_Sound
  imports Pathfinder
begin

text \<open>
  Correctness of the path finder. The invariant of the search says that the \<^verbatim>\<open>hop\<close> map is a forest of
  priced paths to the destination: following it from a reached node gives a connected path whose cost is the
  node's distance, and a node that was expanded never changes again. It needs that no fee overflows, which
  holds for gossip within the field sizes of BOLT 7 and for amounts up to \<open>2 ^ 40\<close> msat (about 11 BTC).
\<close>

section \<open>Paths and their price\<close>

text \<open>Following a hop map from a node to the destination.\<close>

fun chain :: "(string \<rightharpoonup> route_hop) \<Rightarrow> string \<Rightarrow> string \<Rightarrow> route_hop list \<Rightarrow> bool" where
  "chain m dst v [] \<longleftrightarrow> v = dst"
| "chain m dst v (h # t) \<longleftrightarrow>
     v \<noteq> dst \<and> m v = Some h \<and> chain m dst (chan_destination (hop_channel h)) t"

fun head_amount :: "u64 \<Rightarrow> route_hop list \<Rightarrow> u64" where
  "head_amount a [] = a"
| "head_amount a (h # t) = hop_msat h"

fun head_delay :: "route_hop list \<Rightarrow> u64" where
  "head_delay [] = 0"
| "head_delay (h # t) = hop_delay h"

text \<open>Every hop uses a channel of the graph whose source is allowed, the channel can forward what the next
  hop needs, and amount and delay grow by the channel's fee and delay.\<close>

fun priced :: "graph \<Rightarrow> (string \<rightharpoonup> bool) \<Rightarrow> u64 \<Rightarrow> route_hop list \<Rightarrow> bool" where
  "priced g ex a [] \<longleftrightarrow> True"
| "priced g ex a (h # t) \<longleftrightarrow>
     channels g (channel_id (hop_channel h)) = Some (hop_channel h)
     \<and> \<not> go_get False ex (chan_source (hop_channel h))
     \<and> can_forward (hop_channel h) (head_amount a t)
     \<and> hop_msat h = head_amount a t + compute_fee (hop_channel h) (head_amount a t)
     \<and> hop_delay h = head_delay t + chan_delay (hop_channel h)
     \<and> priced g ex a t"

fun cost :: "u64 \<Rightarrow> route_hop list \<Rightarrow> nat" where
  "cost a [] = 0"
| "cost a (h # t) = unat (compute_fee (hop_channel h) (head_amount a t)) + cost a t"

lemma chain_unique: "chain m dst v hs \<Longrightarrow> chain m dst v hs' \<Longrightarrow> hs = hs'"
proof (induction hs arbitrary: v hs')
  case Nil
  then show ?case by (cases hs') auto
next
  case (Cons h hs)
  then show ?case by (cases hs') auto
qed

lemma chain_upd:
  assumes "chain m dst w hs" and "w \<noteq> v" and "\<forall>h \<in> set hs. chan_destination (hop_channel h) \<noteq> v"
  shows "chain (m(v \<mapsto> hp)) dst w hs"
  using assms by (induction hs arbitrary: w) auto

lemma build_hops_chain:
  "chain m dst v hs \<Longrightarrow> build_hops m dst v acc = Some (Ok (acc @ hs))"
proof (induction hs arbitrary: v acc)
  case Nil
  then show ?case by (subst build_hops.simps) simp
next
  case (Cons h hs)
  then show ?case by (subst build_hops.simps) simp
qed

section \<open>Bounds on the fees\<close>

text \<open>
  BOLT 7 makes both fee fields of a \<open>channel_update\<close> a u32, which lightningd hands on: any value of 32 bits is
  allowed, also rates above 100 percent.
\<close>

definition bolt7_fees :: "'a gl_channel_scheme \<Rightarrow> bool" where
  "bolt7_fees c \<longleftrightarrow> unat (base_fee_millisatoshi c) < 2 ^ 32 \<and> unat (fee_per_millionth c) < 2 ^ 32"

definition gossip_bounded :: "graph \<Rightarrow> bool" where
  "gossip_bounded g \<longleftrightarrow> (\<forall>cid c. channels g cid = Some c \<longrightarrow> bolt7_fees c)"

lemma fee_bounded:
  assumes "gossip_bounded g" and "channels g cid = Some c" and "unat x \<le> 2 ^ 40 + 2 ^ 31"
  shows "unat (compute_fee c x) = fee_nat c (unat x)" and "unat (compute_fee c x) < 2 ^ 53"
proof -
  have b: "unat (base_fee_millisatoshi c) < 2 ^ 32" and p: "unat (fee_per_millionth c) < 2 ^ 32"
    using assms(1,2) by (auto simp: gossip_bounded_def bolt7_fees_def)
  have "unat x div 1000 \<le> (2 ^ 40 + 2 ^ 31) div 1000" using assms(3) by (rule div_le_mono)
  then have m: "(unat x div 1000) * unat (fee_per_millionth c) \<le> 1101659111 * 2 ^ 32"
    using p by (intro mult_le_mono) simp_all
  then have "((unat x div 1000) * unat (fee_per_millionth c) + 999) div 1000
      \<le> (1101659111 * 2 ^ 32 + 999) div 1000"
    by (intro div_le_mono add_right_mono)
  then have f: "fee_nat c (unat x) < 2 ^ 53" using b by (simp add: fee_nat_def)
  show eq: "unat (compute_fee c x) = fee_nat c (unat x)"
    using m f by (intro compute_fee_unat) simp_all
  show "unat (compute_fee c x) < 2 ^ 53" using eq f by simp
qed

section \<open>The invariant\<close>

definition reached :: "string \<Rightarrow> search \<Rightarrow> string \<Rightarrow> bool" where
  "reached dst st v \<longleftrightarrow> v = dst \<or> hopm st v \<noteq> None"

definition node_path ::
  "graph \<Rightarrow> (string \<rightharpoonup> bool) \<Rightarrow> u64 \<Rightarrow> string \<Rightarrow> int \<Rightarrow> string set \<Rightarrow> search \<Rightarrow> string
     \<Rightarrow> route_hop list \<Rightarrow> bool" where
  "node_path g ex a dst mh D st v hs \<longleftrightarrow>
     chain (hopm st) dst v hs \<and> hop_path v hs dst \<and> priced g ex a hs
     \<and> dist_of st v = int (cost a hs) \<and> cost a hs < 2 ^ 31
     \<and> unat (head_amount a hs) = unat a + cost a hs
     \<and> (\<forall>h \<in> set hs. chan_destination (hop_channel h) \<in> D)
     \<and> int (length hs) \<le> max 0 mh"

definition item_ok :: "u64 \<Rightarrow> string \<Rightarrow> search \<Rightarrow> pq_value \<Rightarrow> route_hop list \<Rightarrow> bool" where
  "item_ok a dst st item hs \<longleftrightarrow>
     chain (hopm st) dst (pq_node item) hs \<and> pq_amount item = head_amount a hs
     \<and> pq_delay item = head_delay hs \<and> pq_hops item = int (length hs)"

definition search_inv ::
  "graph \<Rightarrow> (string \<rightharpoonup> bool) \<Rightarrow> u64 \<Rightarrow> string \<Rightarrow> int \<Rightarrow> string set \<Rightarrow> int \<Rightarrow> search \<Rightarrow> bool" where
  "search_inv g ex a dst mh D L st \<longleftrightarrow>
     pq_ok (queue st) \<and> 0 \<le> L \<and> dist_of st dst = 0 \<and> hopm st dst = None
     \<and> (\<forall>v p. (v, p) \<in># pq_elems (queue st) \<longrightarrow>
          L \<le> p \<and> dist_of st (pq_node v) \<le> p
          \<and> (p = dist_of st (pq_node v) \<longrightarrow> (\<exists>hs. item_ok a dst st v hs)))
     \<and> (\<forall>u \<in> D. dist_of st u \<le> L)
     \<and> (\<forall>v. reached dst st v \<longrightarrow> (\<exists>hs. node_path g ex a dst mh D st v hs))
     \<and> (\<forall>v. \<not> reached dst st v \<longrightarrow> dist_of st v = (if inbound g v = None then 0 else 2 ^ 31))"

lemma search_invD:
  assumes "search_inv g ex a dst mh D L st"
  shows "pq_ok (queue st)" "0 \<le> L" "dist_of st dst = 0" "hopm st dst = None"
    and "\<And>v p. (v, p) \<in># pq_elems (queue st) \<Longrightarrow> L \<le> p"
    and "\<And>v p. (v, p) \<in># pq_elems (queue st) \<Longrightarrow> dist_of st (pq_node v) \<le> p"
    and "\<And>v p. (v, p) \<in># pq_elems (queue st) \<Longrightarrow> p = dist_of st (pq_node v) \<Longrightarrow>
      \<exists>hs. item_ok a dst st v hs"
    and "\<And>u. u \<in> D \<Longrightarrow> dist_of st u \<le> L"
    and "\<And>v. reached dst st v \<Longrightarrow> \<exists>hs. node_path g ex a dst mh D st v hs"
    and "\<And>v. \<not> reached dst st v \<Longrightarrow> dist_of st v = (if inbound g v = None then 0 else 2 ^ 31)"
  using assms unfolding search_inv_def by auto

lemma dist_le_max:
  assumes "search_inv g ex a dst mh D L st"
  shows "dist_of st v \<le> 2 ^ 31"
proof (cases "reached dst st v")
  case True
  then obtain hs where "node_path g ex a dst mh D st v hs" using search_invD(9) [OF assms] by blast
  then show ?thesis by (simp add: node_path_def)
next
  case False
  then show ?thesis using search_invD(10) [OF assms False] by simp
qed

text \<open>Paths through nodes other than an improved one are not affected by the improvement.\<close>

lemma node_path_frame:
  assumes "node_path g ex a dst mh D st w hs" and "w \<noteq> v" and "v \<notin> D"
    and "hopm st' = (hopm st)(v \<mapsto> hp)" and "dist_of st' w = dist_of st w"
  shows "node_path g ex a dst mh D st' w hs"
proof -
  have "\<forall>h \<in> set hs. chan_destination (hop_channel h) \<noteq> v"
    using assms(1,3) by (auto simp: node_path_def)
  then have "chain (hopm st') dst w hs"
    using assms(1,2,4) chain_upd [of "hopm st" dst w hs v hp] by (simp add: node_path_def)
  then show ?thesis using assms(1,5) by (simp add: node_path_def)
qed

section \<open>One relaxation\<close>

text \<open>What is known while the neighbours of \<open>u\<close> are visited: \<open>u\<close> is expanded at distance \<open>L\<close>, and \<open>item\<close>
  carries the amount, delay and length of its path.\<close>

definition expanding ::
  "graph \<Rightarrow> (string \<rightharpoonup> bool) \<Rightarrow> u64 \<Rightarrow> string \<Rightarrow> int \<Rightarrow> string set \<Rightarrow> int \<Rightarrow> pq_value \<Rightarrow> route_hop list
     \<Rightarrow> search \<Rightarrow> bool" where
  "expanding g ex a dst mh D L item hs st \<longleftrightarrow>
     search_inv g ex a dst mh D L st \<and> pq_node item \<in> D \<and> dist_of st (pq_node item) = L
     \<and> node_path g ex a dst mh D st (pq_node item) hs \<and> item_ok a dst st item hs"

lemma sint_fee: "unat (f :: u64) < 2 ^ 53 \<Longrightarrow> sint f = int (unat f)"
  by (rule sint_u64) simp

lemma improve_inv:
  fixes c :: channel and hp :: route_hop
  assumes ex: "expanding g ex a dst mh D L item hs st"
    and c: "channels g (channel_id c) = Some c" "chan_source c = v" "chan_destination c = pq_node item"
    and allowed: "\<not> go_get False ex v" and fwd: "can_forward c (pq_amount item)"
    and short: "pq_hops item < mh"
    and fee: "unat (compute_fee c (pq_amount item)) < 2 ^ 53" and amt: "unat (pq_amount item) \<le> 2 ^ 40 + 2 ^ 31"
    and better: "L + int (unat (compute_fee c (pq_amount item))) < dist_of st v"
    and hp: "hp = \<lparr>hop_channel = c, hop_msat = pq_amount item + compute_fee c (pq_amount item),
        hop_delay = pq_delay item + chan_delay c\<rparr>"
    and st': "st' = \<lparr>dist = (dist st)(v \<mapsto> L + int (unat (compute_fee c (pq_amount item)))),
        hopm = (hopm st)(v \<mapsto> hp),
        queue = heap_push (queue st) \<lparr>pq_node = v, pq_amount = hop_msat hp, pq_delay = hop_delay hp,
            pq_hops = pq_hops item + 1\<rparr> (L + int (unat (compute_fee c (pq_amount item))))\<rparr>"
  shows "expanding g ex a dst mh D L item hs st'"
proof -
  let ?u = "pq_node item" and ?x = "pq_amount item"
  let ?nd = "L + int (unat (compute_fee c ?x))"
  let ?w = "\<lparr>pq_node = v, pq_amount = hop_msat hp, pq_delay = hop_delay hp, pq_hops = pq_hops item + 1\<rparr>"
  from ex have inv: "search_inv g ex a dst mh D L st" and uD: "?u \<in> D" and du: "dist_of st ?u = L"
    and pu: "node_path g ex a dst mh D st ?u hs" and iu: "item_ok a dst st item hs"
    by (simp_all add: expanding_def)
  note I = search_invD [OF inv]
  have vD: "v \<notin> D" using I(8) [of v] better by auto
  have vu: "v \<noteq> ?u" using uD vD by auto
  have nd: "0 \<le> ?nd" using I(2) by simp
  have vdst: "v \<noteq> dst"
  proof
    assume "v = dst"
    then have "?nd < 0" using better I(3) by simp
    with nd show False by linarith
  qed
  have dist': "dist_of st' w = (if w = v then ?nd else dist_of st w)" for w
    by (simp add: st' dist_of_def)
  have frame: "node_path g ex a dst mh D st' w ws" if "node_path g ex a dst mh D st w ws" "w \<noteq> v" for w ws
    by (rule node_path_frame [OF that vD, of st' hp]) (simp_all add: dist' that(2), simp add: st')
  have x: "?x = head_amount a hs" "pq_delay item = head_delay hs" "pq_hops item = int (length hs)"
    using iu by (simp_all add: item_ok_def)
  have pu': "node_path g ex a dst mh D st' ?u hs" using frame [OF pu] vu by simp
  have ms: "unat (hop_msat hp) = unat ?x + unat (compute_fee c ?x)"
    unfolding hp using fee amt by (simp add: unat_add64)
  have new: "node_path g ex a dst mh D st' v (hp # hs)"
    unfolding node_path_def
  proof (intro conjI)
    show "chain (hopm st') dst v (hp # hs)"
      using pu' vdst c(3) by (simp add: node_path_def hp) (simp add: st' hp)
    show "hop_path v (hp # hs) dst" using pu c by (simp add: node_path_def hp)
    show "priced g ex a (hp # hs)"
      using pu c allowed fwd x by (simp add: node_path_def hp)
    show "dist_of st' v = int (cost a (hp # hs))"
      using pu du x by (simp add: dist' node_path_def hp)
    have "int (cost a hs + unat (compute_fee c ?x)) < 2 ^ 31"
      using pu du better dist_le_max [OF inv, of v]
      by (simp only: node_path_def of_nat_add)
    then have "cost a hs + unat (compute_fee c ?x) < 2 ^ 31"
      by (simp only: of_nat_less_numeral_power_cancel_iff)
    then show "cost a (hp # hs) < 2 ^ 31" using x by (simp add: hp)
    show "unat (head_amount a (hp # hs)) = unat a + cost a (hp # hs)"
      using pu x ms by (simp add: node_path_def hp)
    show "\<forall>h \<in> set (hp # hs). chan_destination (hop_channel h) \<in> D"
      using pu uD c by (simp add: node_path_def hp)
    show "int (length (hp # hs)) \<le> max 0 mh" using short x by simp
  qed
  have "search_inv g ex a dst mh D L st'"
    unfolding search_inv_def
  proof (intro conjI allI impI ballI)
    show "pq_ok (queue st')" using I(1) by (simp add: st' pq.push_invar)
    show "0 \<le> L" by (rule I(2))
    show "dist_of st' dst = 0" using vdst I(3) by (simp add: dist')
    show "hopm st' dst = None" using vdst I(4) by (simp add: st')
  next
    fix w p assume "(w, p) \<in># pq_elems (queue st')"
    then have w: "(w, p) = (?w, ?nd) \<or> (w, p) \<in># pq_elems (queue st)" by (simp add: st' heap_push_elems)
    then show "L \<le> p" using I(5) by auto
    show "dist_of st' (pq_node w) \<le> p" using w I(6) better by (fastforce simp: dist')
    show "\<exists>hs. item_ok a dst st' w hs" if p: "p = dist_of st' (pq_node w)"
    proof (cases "pq_node w = v")
      case True
      with p have "p = ?nd" by (simp add: dist')
      moreover have "(w, p) \<notin># pq_elems (queue st)"
        using I(6) [of w p] True better \<open>p = ?nd\<close> by auto
      ultimately have "w = ?w" using w by simp
      then show ?thesis using new x by (intro exI [of _ "hp # hs"]) (simp add: item_ok_def node_path_def)
    next
      case False
      with w have old: "(w, p) \<in># pq_elems (queue st)" by auto
      with False p obtain ws where ws: "item_ok a dst st w ws" using I(7) [OF old] by (auto simp: dist')
      have "reached dst st (pq_node w)" using ws by (cases ws) (auto simp: item_ok_def reached_def)
      then obtain ws' where ws': "node_path g ex a dst mh D st (pq_node w) ws'" using I(9) by blast
      then have "ws' = ws" using ws by (auto simp: item_ok_def node_path_def intro: chain_unique)
      then show ?thesis using frame [OF ws' False] ws by (auto simp: item_ok_def node_path_def)
    qed
  next
    fix w assume "w \<in> D" then show "dist_of st' w \<le> L" using I(8) vD by (auto simp: dist')
  next
    fix w assume "reached dst st' w"
    then show "\<exists>ws. node_path g ex a dst mh D st' w ws"
      using new frame I(9) [of w] by (cases "w = v") (auto simp: reached_def st')
  next
    fix w assume "\<not> reached dst st' w"
    then show "dist_of st' w = (if inbound g w = None then 0 else 2 ^ 31)"
    proof -
      have "w \<noteq> v" "\<not> reached dst st w"
        using \<open>\<not> reached dst st' w\<close> by (auto simp: reached_def st' split: if_splits)
      then show ?thesis using I(10) [of w] by (simp add: dist')
    qed
  qed
  then show ?thesis
    using uD du vu pu' iu x by (simp add: expanding_def dist') (simp add: item_ok_def node_path_def)
qed

text \<open>The state after an improvement, and when a relaxation is one.\<close>

definition improved :: "pq_value \<Rightarrow> channel \<Rightarrow> int \<Rightarrow> search \<Rightarrow> search" where
  "improved item c L st =
     (let fee = compute_fee c (pq_amount item); v = chan_source c; d = L + int (unat fee);
          hp = \<lparr>hop_channel = c, hop_msat = pq_amount item + fee, hop_delay = pq_delay item + chan_delay c\<rparr>
      in \<lparr>dist = (dist st)(v \<mapsto> d), hopm = (hopm st)(v \<mapsto> hp),
          queue = heap_push (queue st) \<lparr>pq_node = v, pq_amount = hop_msat hp, pq_delay = hop_delay hp,
            pq_hops = pq_hops item + 1\<rparr> d\<rparr>)"

lemma relax_cases:
  assumes ok: "graph_ok ends g" "gossip_bounded g" "unat a \<le> 2 ^ 40"
    and ex: "expanding g ex a dst mh D L item hs st"
    and scid: "scid \<in> set (edge_of (inbound g) (pq_node item) v)"
  obtains c where "channels g (channel_key scid v (pq_node item)) = Some c"
    and "channels g (channel_id c) = Some c" and "chan_source c = v" and "chan_destination c = pq_node item"
    and "unat (compute_fee c (pq_amount item)) < 2 ^ 53" and "unat (pq_amount item) \<le> 2 ^ 40 + 2 ^ 31"
    and "relax g item v scid st =
      (if can_forward c (pq_amount item) \<and> L + int (unat (compute_fee c (pq_amount item))) < dist_of st v
       then improved item c L st else st)"
proof -
  let ?u = "pq_node item" and ?x = "pq_amount item"
  obtain c where c: "channels g (channel_key scid v ?u) = Some c" "chan_source c = v"
    "chan_destination c = ?u" using edge_channel [OF ok(1) scid] by blast
  have key: "channel_key scid v ?u = channel_id c" using graph_okD(1) [OF ok(1) c(1)] .
  have np: "node_path g ex a dst mh D st ?u hs" and du: "dist_of st ?u = L" using ex by (simp_all add: expanding_def)
  have "unat ?x = unat a + cost a hs" "cost a hs < 2 ^ 31"
    using ex by (simp_all add: expanding_def node_path_def item_ok_def)
  then have amt: "unat ?x \<le> 2 ^ 40 + 2 ^ 31" using ok(3) by simp
  have fee: "unat (compute_fee c ?x) < 2 ^ 53" by (rule fee_bounded(2) [OF ok(2) c(1) amt])
  have L: "0 \<le> L" "L < 2 ^ 31" using np du by (simp_all add: node_path_def)
  have nd: "go_int (dist_of st ?u + sint (compute_fee c ?x)) = L + int (unat (compute_fee c ?x))"
  proof -
    define f where "f = unat (compute_fee c ?x)"
    have "f < 2 ^ 53" using fee by (simp add: f_def)
    then have "go_int (L + int f) = L + int f" using L by (intro go_int_id) simp_all
    then show ?thesis using sint_fee [OF fee] by (simp only: du f_def)
  qed
  have "relax g item v scid st =
      (if can_forward c ?x \<and> L + int (unat (compute_fee c ?x)) < dist_of st v then improved item c L st else st)"
    using c nd by (simp add: relax_def improved_def Let_def)
  then show ?thesis using that c key fee amt by simp
qed

lemma relax_expanding:
  assumes ok: "graph_ok ends g" "gossip_bounded g" "unat a \<le> 2 ^ 40"
    and ex: "expanding g ex a dst mh D L item hs st" and allowed: "\<not> go_get False ex v"
    and short: "pq_hops item < mh"
    and scid: "scid \<in> set (edge_of (inbound g) (pq_node item) v)"
  shows "expanding g ex a dst mh D L item hs (relax g item v scid st)"
proof -
  obtain c where c: "channels g (channel_id c) = Some c" "chan_source c = v" "chan_destination c = pq_node item"
    and b: "unat (compute_fee c (pq_amount item)) < 2 ^ 53" "unat (pq_amount item) \<le> 2 ^ 40 + 2 ^ 31"
    and r: "relax g item v scid st =
      (if can_forward c (pq_amount item) \<and> L + int (unat (compute_fee c (pq_amount item))) < dist_of st v
       then improved item c L st else st)"
    by (rule relax_cases [OF ok ex scid])
  show ?thesis
  proof (cases "can_forward c (pq_amount item) \<and> L + int (unat (compute_fee c (pq_amount item))) < dist_of st v")
    case True
    note improve_inv [OF ex c allowed _ short b _ refl refl]
    then show ?thesis using True c(2) by (simp add: r improved_def Let_def)
  next
    case False
    then show ?thesis using ex by (simp only: r if_False)
  qed
qed

lemma relax_all_expanding:
  assumes ok: "graph_ok ends g" "gossip_bounded g" "unat a \<le> 2 ^ 40" and short: "pq_hops item < mh"
    and ex: "expanding g ex a dst mh D L item hs st"
  shows "expanding g ex a dst mh D L item hs (relax_all g ex item vs st)"
proof -
  have edge: "expanding g ex a dst mh D L item hs (fold (relax g item v) scids st)"
    if "expanding g ex a dst mh D L item hs st" "\<not> go_get False ex v"
      "set scids \<subseteq> set (edge_of (inbound g) (pq_node item) v)" for v scids st
    using that by (induction scids arbitrary: st) (auto intro: relax_expanding [OF ok _ _ short])
  show ?thesis
    unfolding relax_all_def using ex
    by (induction vs arbitrary: st) (auto simp: relax_edge_def intro: edge)
qed

section \<open>The loop keeps the invariant\<close>

text \<open>What the body of the loop starts from: the least item is out, and the bound rises to its priority.\<close>

lemma pop_inv:
  assumes inv: "search_inv g ex a dst mh D L st" and q: "queue st \<noteq> []"
  shows "search_inv g ex a dst mh D (item_priority (fst (heap_pop (queue st))))
      (st\<lparr>queue := snd (heap_pop (queue st))\<rparr>)"
    and "item_priority (fst (heap_pop (queue st))) = dist_of st (pq_node (item_value (fst (heap_pop (queue st)))))
      \<Longrightarrow> \<exists>hs. item_ok a dst st (item_value (fst (heap_pop (queue st)))) hs"
proof -
  note I = search_invD [OF inv]
  let ?it = "fst (heap_pop (queue st))" and ?q = "snd (heap_pop (queue st))"
  have ne: "pq_elems (queue st) \<noteq> {#}" using q by simp
  have key: "fst (pop_key (queue st)) = (item_value ?it, item_priority ?it)" "snd (pop_key (queue st)) = ?q"
    by (simp_all add: pop_key_def item_key_def)
  have mem: "(item_value ?it, item_priority ?it) \<in># pq_elems (queue st)"
    using pq.pop_mem [OF ne] key by simp
  have sub: "x \<in># pq_elems (queue st)" if "x \<in># pq_elems ?q" for x
    using pq.pop_subset [OF ne] that key by simp
  have ge: "item_priority ?it \<le> p" if "(v, p) \<in># pq_elems ?q" for v p
    using pq.pop_rest_ge [OF I(1) ne] that key by simp
  have dist': "dist_of (st\<lparr>queue := ?q\<rparr>) v = dist_of st v" for v by (simp add: dist_of_def)
  have path': "node_path g ex a dst mh D (st\<lparr>queue := ?q\<rparr>) v hs = node_path g ex a dst mh D st v hs" for v hs
    by (simp add: node_path_def dist')
  have item': "item_ok a dst (st\<lparr>queue := ?q\<rparr>) v hs = item_ok a dst st v hs" for v hs
    by (simp add: item_ok_def)
  have reach': "reached dst (st\<lparr>queue := ?q\<rparr>) v = reached dst st v" for v by (simp add: reached_def)
  have "L \<le> item_priority ?it" using I(5) [OF mem] .
  moreover have "pq_ok ?q" using pq.pop_invar [OF I(1) ne] key by simp
  ultimately show "search_inv g ex a dst mh D (item_priority ?it) (st\<lparr>queue := ?q\<rparr>)"
    using I sub ge unfolding search_inv_def dist' path' item' reach' by fastforce
  show "\<exists>hs. item_ok a dst st (item_value ?it) hs"
    if "item_priority ?it = dist_of st (pq_node (item_value ?it))"
    using I(7) [OF mem that] .
qed

lemma node_path_mono:
  "node_path g ex a dst mh D st v hs \<Longrightarrow> D \<subseteq> D' \<Longrightarrow> node_path g ex a dst mh D' st v hs"
  by (auto simp: node_path_def)

lemma expand_inv:
  assumes inv: "search_inv g ex a dst mh D L st" and "dist_of st u \<le> L"
  shows "search_inv g ex a dst mh (insert u D) L st"
  using inv assms(2) node_path_mono [of g ex a dst mh D st _ _ "insert u D"]
  unfolding search_inv_def by blast

lemma item_ok_reached: "item_ok a dst st v hs \<Longrightarrow> reached dst st (pq_node v)"
  by (cases hs) (auto simp: item_ok_def reached_def)

text \<open>The popped node is expanded with the path its item describes.\<close>

lemma pop_expanding:
  assumes inv: "search_inv g ex a dst mh D L st" and q: "queue st \<noteq> []"
    and fresh: "\<not> item_priority (fst (heap_pop (queue st)))
      > dist_of st (pq_node (item_value (fst (heap_pop (queue st)))))"
  obtains hs where "expanding g ex a dst mh (insert (pq_node (item_value (fst (heap_pop (queue st))))) D)
    (item_priority (fst (heap_pop (queue st)))) (item_value (fst (heap_pop (queue st)))) hs
    (st\<lparr>queue := snd (heap_pop (queue st))\<rparr>)"
proof -
  let ?it = "fst (heap_pop (queue st))"
  let ?item = "item_value ?it" and ?L = "item_priority ?it"
  let ?u = "pq_node ?item"
  let ?st = "st\<lparr>queue := snd (heap_pop (queue st))\<rparr>"
  have inv1: "search_inv g ex a dst mh D ?L ?st" by (rule pop_inv(1) [OF inv q])
  have dist': "dist_of ?st v = dist_of st v" for v by (simp add: dist_of_def)
  have mem: "(?item, ?L) \<in># pq_elems (queue st)"
    using pq.pop_mem [of "queue st"] q by (simp add: pop_key_def item_key_def)
  have du: "?L = dist_of st ?u"
    using fresh search_invD(6) [OF inv mem] by linarith
  then obtain hs where item0: "item_ok a dst st ?item hs" using pop_inv(2) [OF inv q] by blast
  then have item: "item_ok a dst ?st ?item hs" by (simp add: item_ok_def)
  have inv2: "search_inv g ex a dst mh (insert ?u D) ?L ?st"
    using du by (intro expand_inv [OF inv1]) (simp add: dist')
  obtain hs' where path: "node_path g ex a dst mh (insert ?u D) ?st ?u hs'"
    using search_invD(9) [OF inv2 item_ok_reached [OF item]] by blast
  then have "hs' = hs" using item by (auto simp: item_ok_def node_path_def intro: chain_unique)
  with path item inv2 du have "expanding g ex a dst mh (insert ?u D) ?L ?item hs ?st"
    by (simp add: expanding_def dist')
  then show ?thesis by (rule that)
qed

text \<open>One iteration: what the loop continues with, or stops at, satisfies the invariant again.\<close>

lemma loop_body_inv:
  assumes ok: "graph_ok ends g" "gossip_bounded g" "unat a \<le> 2 ^ 40"
    and inv: "search_inv g ex a dst mh D L st" and q: "queue st \<noteq> []"
    and fresh: "\<not> item_priority (fst (heap_pop (queue st)))
      > dist_of st (pq_node (item_value (fst (heap_pop (queue st)))))"
    and short: "pq_hops (item_value (fst (heap_pop (queue st)))) < mh"
  shows "\<exists>D L. search_inv g ex a dst mh D L
    (relax_all g ex (item_value (fst (heap_pop (queue st)))) vs (st\<lparr>queue := snd (heap_pop (queue st))\<rparr>))"
  using pop_expanding [OF inv q fresh] relax_all_expanding [OF ok short]
  unfolding expanding_def by metis

lemma search_loop_inv:
  "graph_ok ends g \<Longrightarrow> gossip_bounded g \<Longrightarrow> unat a \<le> 2 ^ 40 \<Longrightarrow> search_inv g ex a dst mh D L st \<Longrightarrow>
    \<exists>D L. search_inv g ex a dst mh D L (search_loop g ex src mh ord n st)"
proof (induction g ex src mh ord n st arbitrary: D L rule: search_loop.induct)
  case (1 g ex src mh ord n st)
  note ok = "1.prems"(1-3) and inv = "1.prems"(4)
  let ?it = "fst (heap_pop (queue st))"
  let ?item = "item_value ?it"
  let ?u = "pq_node ?item"
  let ?st = "st\<lparr>queue := snd (heap_pop (queue st))\<rparr>"
  show ?case
  proof (cases "queue st = []")
    case True
    then show ?thesis using inv by (subst search_loop.simps) auto
  next
    case q: False
    note pop = pop_inv(1) [OF inv q]
    consider (stale) "item_priority ?it > dist_of ?st ?u"
      | (found) "\<not> item_priority ?it > dist_of ?st ?u" "?u = src"
      | (limit) "\<not> item_priority ?it > dist_of ?st ?u" "?u \<noteq> src" "pq_hops ?item \<ge> mh"
      | (expand) "\<not> item_priority ?it > dist_of ?st ?u" "?u \<noteq> src" "\<not> pq_hops ?item \<ge> mh"
      by blast
    then show ?thesis
    proof cases
      case stale
      then have "search_loop g ex src mh ord n st = search_loop g ex src mh ord (Suc n) ?st"
        using q by (subst search_loop.simps) (simp add: Let_def)
      then show ?thesis using "1.IH"(1) [OF q refl refl refl refl stale ok pop] by simp
    next
      case found
      then have "search_loop g ex src mh ord n st = ?st"
        using q by (subst search_loop.simps) (simp add: Let_def)
      then show ?thesis using pop by auto
    next
      case limit
      then have "search_loop g ex src mh ord n st = search_loop g ex src mh ord (Suc n) ?st"
        using q by (subst search_loop.simps) (simp add: Let_def)
      then show ?thesis using "1.IH"(2) [OF q refl refl refl refl limit ok pop] by simp
    next
      case expand
      then have "search_loop g ex src mh ord n st =
          search_loop g ex src mh ord (Suc n) (relax_all g ex ?item (ord n ?u) ?st)"
        using q by (subst search_loop.simps) (simp add: Let_def)
      moreover obtain D' L' where "search_inv g ex a dst mh D' L' (relax_all g ex ?item (ord n ?u) ?st)"
        using loop_body_inv [OF ok inv q, of "ord n ?u"] expand by (auto simp: dist_of_def)
      ultimately show ?thesis using "1.IH"(3) [OF q refl refl refl refl expand ok] by simp
    qed
  qed
qed

lemma search_start_inv:
  assumes "inbound g dst \<noteq> None"
  shows "search_inv g ex a dst mh {} 0 (search_start g dst a)"
proof -
  let ?v = "\<lparr>pq_node = dst, pq_amount = a, pq_delay = 0, pq_hops = 0\<rparr>"
  have q: "queue (search_start g dst a) = [\<lparr>item_value = ?v, item_priority = 0, item_index = 0\<rparr>]"
    by (simp add: search_start_def heap_init_def)
  have "node_path g ex a dst mh {} (search_start g dst a) dst []"
    by (simp add: node_path_def search_start_def dist_of_def)
  moreover have "item_ok a dst (search_start g dst a) ?v []" by (simp add: item_ok_def)
  ultimately show ?thesis
    unfolding search_inv_def q
    by (auto simp: pq_ok_def is_heap_def heap_upto_def index_ok_def pq_elems_def item_key_def reached_def)
      (auto simp: search_start_def dist_of_def go_get_def max_distance_def split: option.splits)
qed


section \<open>Results of the search\<close>

lemma chain_suffix: "chain m dst v (xs @ h # ys) \<Longrightarrow> hop_path v (xs @ h # ys) d \<Longrightarrow>
    chain m dst (chan_source (hop_channel h)) (h # ys)"
  by (induction xs arbitrary: v) auto

lemma hop_path_suffix: "hop_path v (xs @ h # ys) d \<Longrightarrow> hop_path (chan_source (hop_channel h)) (h # ys) d"
  by (induction xs arbitrary: v) auto

abbreviation hop_sources :: "route_hop list \<Rightarrow> string list" where
  "hop_sources hs \<equiv> map (\<lambda>h. chan_source (hop_channel h)) hs"

text \<open>A chain visits every node once: the rest of the chain from a node is determined by the node.\<close>

lemma chain_distinct:
  assumes "chain m dst v hs" and "hop_path v hs dst"
  shows "distinct (hop_sources hs)"
  using assms
proof (induction hs arbitrary: v)
  case (Cons h hs)
  have "chan_source (hop_channel h) \<noteq> chan_source (hop_channel k)" if k: "k \<in> set hs" for k
  proof
    assume eq: "chan_source (hop_channel h) = chan_source (hop_channel k)"
    obtain xs ys where hs: "hs = xs @ k # ys" using k by (auto dest: split_list)
    have v: "v = chan_source (hop_channel h)" using Cons.prems(2) by simp
    have "chain m dst (chan_source (hop_channel k)) (k # ys)"
      using Cons.prems unfolding hs by (intro chain_suffix [of m dst v "h # xs" _ _ dst]) simp_all
    then have "k # ys = h # hs" using Cons.prems(1) chain_unique eq v by metis
    then have "length (k # ys) = length (h # hs)" by simp
    then show False by (simp add: hs)
  qed
  moreover have "distinct (hop_sources hs)"
    using Cons.IH [of "chan_destination (hop_channel h)"] Cons.prems by simp
  ultimately show ?case by auto
qed simp

lemma chain_source_not_dst: "chain m dst v hs \<Longrightarrow> hop_path v hs dst \<Longrightarrow> h \<in> set hs \<Longrightarrow>
    chan_source (hop_channel h) \<noteq> dst"
  by (induction hs arbitrary: v) auto

text \<open>What the search returns, in terms of the final state.\<close>

definition found_path ::
  "graph \<Rightarrow> (string \<rightharpoonup> bool) \<Rightarrow> u64 \<Rightarrow> string \<Rightarrow> string \<Rightarrow> int \<Rightarrow> route_hop list \<Rightarrow> bool" where
  "found_path g exclude amount src dst max_hops hops \<longleftrightarrow>
     hop_path src hops dst \<and> priced g exclude amount hops
     \<and> int (length hops) \<le> max 0 max_hops
     \<and> distinct (hop_sources hops)
     \<and> (\<forall>h \<in> set hops. chan_source (hop_channel h) \<noteq> dst)
     \<and> unat (head_amount amount hops) = unat amount + cost amount hops \<and> cost amount hops < 2 ^ 31"

lemma dijkstra_cases:
  assumes "graph_ok ends g" and "gossip_bounded g" and "unat amount \<le> 2 ^ 40"
  shows "(if inbound g dst = None \<or> inbound g src = None
          then dijkstra g ord src dst amount exclude max_hops = Err ErrNoSuchNode
          else dijkstra g ord src dst amount exclude max_hops = Err ErrNoRoute
            \<or> (\<exists>hops. dijkstra g ord src dst amount exclude max_hops = Ok hops
                 \<and> found_path g exclude amount src dst max_hops hops))"
proof (cases "inbound g dst = None \<or> inbound g src = None")
  case True
  then show ?thesis by (auto simp: dijkstra_def)
next
  case False
  define st where "st = search_loop g exclude src max_hops ord 0 (search_start g dst amount)"
  obtain D L where inv: "search_inv g exclude amount dst max_hops D L st"
    using search_loop_inv [OF assms search_start_inv] False unfolding st_def by blast
  have run: "dijkstra g ord src dst amount exclude max_hops =
      (if dist_of st src = max_distance then Err ErrNoRoute
       else case build_hops (hopm st) dst src [] of None \<Rightarrow> Hang | Some r \<Rightarrow> r)"
    using False unfolding dijkstra_def st_def Let_def de_Morgan_disj by (elim conjE) (simp only: if_False)
  show ?thesis
  proof (cases "reached dst st src")
    case True
    then obtain hs where hs: "node_path g exclude amount dst max_hops D st src hs"
      using search_invD(9) [OF inv] by blast
    then have c: "chain (hopm st) dst src hs" and p: "hop_path src hs dst" by (simp_all add: node_path_def)
    have "dist_of st src = int (cost amount hs)" "cost amount hs < 2 ^ 31"
      using hs by (simp_all add: node_path_def)
    then have "dist_of st src \<noteq> max_distance" by (simp add: max_distance_def)
    then have "dijkstra g ord src dst amount exclude max_hops = Ok hs"
      using run build_hops_chain [OF c, of "[]"] by simp
    moreover have "found_path g exclude amount src dst max_hops hs"
      using hs chain_distinct [OF c p] chain_source_not_dst [OF c p]
      by (simp add: found_path_def node_path_def)
    ultimately show ?thesis using False by auto
  next
    case unreached: False
    then have "dist_of st src = max_distance"
      using search_invD(10) [OF inv unreached] False by (simp add: max_distance_def)
    then show ?thesis using run False by simp
  qed
qed

text \<open>From a node to itself there is the empty route.\<close>

lemma dijkstra_same:
  assumes "graph_ok ends g" and "gossip_bounded g" and "unat amount \<le> 2 ^ 40" and "inbound g v \<noteq> None"
  shows "dijkstra g ord v v amount exclude max_hops = Ok []"
proof -
  define st where "st = search_loop g exclude v max_hops ord 0 (search_start g v amount)"
  obtain D L where "search_inv g exclude amount v max_hops D L st"
    using search_loop_inv [OF assms(1-3) search_start_inv [OF assms(4)]] unfolding st_def by blast
  then have "dist_of st v = 0" by (rule search_invD(3))
  moreover have "build_hops m v v [] = Some (Ok [])" for m by (subst build_hops.simps) simp
  ultimately show ?thesis using assms(4) by (simp add: dijkstra_def max_distance_def flip: st_def)
qed

lemma dijkstra_found:
  assumes "graph_reach ends g" and "gossip_bounded g" and "unat amount \<le> 2 ^ 40"
    and "dijkstra g ord src dst amount exclude max_hops = Ok hops"
  shows "found_path g exclude amount src dst max_hops hops"
  using dijkstra_cases [OF graph_reach_ok [OF assms(1)] assms(2,3), of dst src ord exclude max_hops] assms(4)
  by (auto split: if_splits)

lemma priced_bottleneck:
  "priced g ex a hs \<Longrightarrow> h \<in> set hs \<Longrightarrow>
     channels g (channel_id (hop_channel h)) = Some (hop_channel h)
     \<and> \<not> go_get False ex (chan_source (hop_channel h))"
  by (induction hs) auto


section \<open>A graph with a detour\<close>

definition detour_gossip :: "string \<Rightarrow> string \<Rightarrow> string \<Rightarrow> u64 \<Rightarrow> gl_channel" where
  "detour_gossip scid s d base = sample_gl\<lparr>short_channel_id := scid, chan_source := s, chan_destination := d,
     base_fee_millisatoshi := base, fee_per_millionth := 0\<rparr>"

definition detour_channel :: "string \<Rightarrow> string \<Rightarrow> string \<Rightarrow> u64 \<Rightarrow> channel" where
  "detour_channel scid s d base = new_channel (detour_gossip scid s d base) 500000000 0"

definition detour_graph :: graph where
  "detour_graph = refresh_channels
     [detour_gossip ''1'' ''x'' ''d'' 0, detour_gossip ''2'' ''v'' ''x'' 0, detour_gossip ''3'' ''v'' ''d'' 10,
      detour_gossip ''4'' ''s'' ''v'' 0, detour_gossip ''4'' ''v'' ''s'' 0] new_graph"

definition detour_order :: "nat \<Rightarrow> string \<Rightarrow> string list" where
  "detour_order n u = [''d'', ''s'', ''v'', ''x'']"

lemma detour_gossip_simps [simp]:
  "short_channel_id (detour_gossip scid s d base) = scid"
  "chan_source (detour_gossip scid s d base) = s"
  "chan_destination (detour_gossip scid s d base) = d"
  "satoshis (detour_gossip scid s d base) = 1000000"
  "is_active (detour_gossip scid s d base)"
  "last_update (detour_gossip scid s d base) = 1660000000"
  "base_fee_millisatoshi (detour_gossip scid s d base) = base"
  "fee_per_millionth (detour_gossip scid s d base) = 0"
  "chan_delay (detour_gossip scid s d base) = 40"
  "htlc_minimum_millisatoshis (detour_gossip scid s d base) = ''1000msat''"
  "htlc_maximum_millisatoshis (detour_gossip scid s d base) = ''990000000msat''"
  "channel_id (detour_gossip scid s d base) = channel_key scid s d"
  by (simp_all add: detour_gossip_def sample_gl_def channel_id_def)

lemma detour_half: "half_capacity (detour_gossip scid s d base) = 500000000"
  by (simp add: half_capacity_def mul_trunc_def f64_half_def)

lemma detour_channel_simps [simp]:
  "chan_source (detour_channel scid s d base) = s"
  "chan_destination (detour_channel scid s d base) = d"
  "chan_delay (detour_channel scid s d base) = 40"
  "short_channel_id (detour_channel scid s d base) = scid"
  by (simp_all add: detour_channel_def)

lemma detour_fee [simp]: "compute_fee (detour_channel scid s d base) a = base"
  by (simp add: compute_fee_def detour_channel_def)

lemma detour_limits:
  "parse_msat ''1000msat'' = 1000" "parse_msat ''990000000msat'' = 990000000"
  by (simp_all add: parse_msat_def trim_suffix_def parse_uint_def is_digit_def digit_val_def max_u64_def)

lemma detour_forward [simp]: "1000 \<le> a \<Longrightarrow> a \<le> 500000000 \<Longrightarrow> can_forward (detour_channel scid s d base) a"
  by (auto simp: can_forward_def detour_channel_def detour_limits intro: order_trans)

lemma detour_channels:
  "channels detour_graph =
     [''1/1'' \<mapsto> detour_channel ''1'' ''x'' ''d'' 0, ''2/0'' \<mapsto> detour_channel ''2'' ''v'' ''x'' 0,
      ''3/1'' \<mapsto> detour_channel ''3'' ''v'' ''d'' 10, ''4/0'' \<mapsto> detour_channel ''4'' ''s'' ''v'' 0,
      ''4/1'' \<mapsto> detour_channel ''4'' ''v'' ''s'' 0]"
  by (simp add: detour_graph_def refresh_channels_def refresh_channel_channels new_graph_def detour_half
      channel_key_def get_direction_def flip: detour_channel_def)

lemma detour_inbound:
  "inbound detour_graph =
     [''d'' \<mapsto> [''x'' \<mapsto> [''1''], ''v'' \<mapsto> [''3'']], ''x'' \<mapsto> [''v'' \<mapsto> [''2'']],
      ''v'' \<mapsto> [''s'' \<mapsto> [''4'']], ''s'' \<mapsto> [''v'' \<mapsto> [''4'']]]"
  by (rule ext) (simp add: detour_graph_def refresh_channels_def new_graph_def refresh_channel_def
      Let_def channel_id_def channel_key_def get_direction_def add_channel_def allocate_def)


abbreviation detour_item :: "string \<Rightarrow> u64 \<Rightarrow> u64 \<Rightarrow> int \<Rightarrow> int \<Rightarrow> int \<Rightarrow> pq_item" where
  "detour_item v a d h p i \<equiv> \<lparr>item_value = \<lparr>pq_node = v, pq_amount = a, pq_delay = d, pq_hops = h\<rparr>,
     item_priority = p, item_index = i\<rparr>"

text \<open>The queue never holds more than two items here.\<close>

lemma heap_push_one:
  "heap_push [] \<lparr>pq_node = n, pq_amount = a, pq_delay = d, pq_hops = h\<rparr> p = [detour_item n a d h p 0]"
  by (simp add: heap_push_def pq_push_def up.simps)

lemma heap_push_two:
  "heap_push [detour_item n1 a1 d1 h1 p1 0] \<lparr>pq_node = n, pq_amount = a, pq_delay = d, pq_hops = h\<rparr> p =
     (if p < p1 then [detour_item n a d h p 0, detour_item n1 a1 d1 h1 p1 1]
      else [detour_item n1 a1 d1 h1 p1 0, detour_item n a d h p 1])"
  by (simp add: heap_push_def pq_push_def up.simps pq_less_def pq_swap_def)

lemma heap_pop_one:
  "heap_pop [detour_item n a d h p 0] = (detour_item n a d h p (- 1), [])"
  unfolding heap_pop_def down_def by (subst down_loop.simps) (simp add: pq_swap_def pq_pop_def Let_def)

lemma heap_pop_two:
  "heap_pop [detour_item n1 a1 d1 h1 p1 0, detour_item n a d h p 1] =
     (detour_item n1 a1 d1 h1 p1 (- 1), [detour_item n a d h p 0])"
  unfolding heap_pop_def down_def by (subst down_loop.simps) (simp add: pq_swap_def pq_pop_def Let_def)

lemmas detour_steps = heap_pop_one heap_pop_two heap_push_one heap_push_two relax_all_def relax_edge_def
  edge_of_def go_get_def detour_order_def detour_inbound relax_def detour_channels channel_key_def
  get_direction_def dist_of_def max_distance_def go_int_id Let_def

lemma detour_start:
  "search_start detour_graph ''d'' 1000000 =
     \<lparr>dist = [''x'' \<mapsto> max_distance, ''v'' \<mapsto> max_distance, ''s'' \<mapsto> max_distance, ''d'' \<mapsto> 0],
      hopm = Map.empty, queue = [detour_item ''d'' 1000000 0 0 0 0]\<rparr>"
  by (rule search.equality) (auto simp: search_start_def detour_inbound heap_init_def)

lemma detour_two_hops:
  "dijkstra detour_graph detour_order ''s'' ''d'' 1000000 Map.empty 2 = Err ErrNoRoute"
  apply (simp add: dijkstra_def detour_inbound detour_start)
  apply (subst search_loop.simps, simp add: detour_steps)+
  done

definition detour_route :: "route_hop list" where
  "detour_route =
     [\<lparr>hop_channel = detour_channel ''4'' ''s'' ''v'' 0, hop_msat = 1000000, hop_delay = 120\<rparr>,
      \<lparr>hop_channel = detour_channel ''2'' ''v'' ''x'' 0, hop_msat = 1000000, hop_delay = 80\<rparr>,
      \<lparr>hop_channel = detour_channel ''1'' ''x'' ''d'' 0, hop_msat = 1000000, hop_delay = 40\<rparr>]"

lemma detour_three_hops:
  "dijkstra detour_graph detour_order ''s'' ''d'' 1000000 Map.empty 3 = Ok detour_route"
  apply (simp add: dijkstra_def detour_inbound detour_start)
  apply (subst search_loop.simps, simp add: detour_steps)+
  apply (simp add: detour_route_def build_hops.simps)
  done

definition detour_ends :: "string \<Rightarrow> string \<times> string \<times> u64" where
  "detour_ends cid = (case channels detour_graph cid of
     None \<Rightarrow> ([], [], 0) | Some c \<Rightarrow> (chan_source c, chan_destination c, satoshis c))"

lemma detour_reach: "graph_reach detour_ends detour_graph"
proof -
  have "\<forall>c \<in> set [detour_gossip ''1'' ''x'' ''d'' 0, detour_gossip ''2'' ''v'' ''x'' 0,
      detour_gossip ''3'' ''v'' ''d'' 10, detour_gossip ''4'' ''s'' ''v'' 0, detour_gossip ''4'' ''v'' ''s'' 0].
      gossip_ok detour_ends c"
    by (simp add: gossip_ok_def detour_ends_def detour_channels channel_key_def get_direction_def)
      (simp add: detour_channel_def)
  then show ?thesis unfolding detour_graph_def by (intro reach_refresh reach_new)
qed

lemma detour_bounded: "gossip_bounded detour_graph"
  by (auto simp: gossip_bounded_def bolt7_fees_def detour_channels detour_channel_def split: if_splits)

section \<open>Properties\<close>

text \<open>C2. Every route that the path finder returns is a simple path from the source to the destination over
  channels of the graph, within the hop limit; no hop starts at an excluded node; every channel can forward
  what the rest of the route needs, amounts and delays grow by each channel's fee and delay, and the first
  hop carries the amount plus the sum of the fees, which stays below the distance limit.\<close>

theorem dijkstra_sound:
  assumes "graph_reach ends g" and "gossip_bounded g" and "unat amount \<le> 2 ^ 40"
    and "dijkstra g ord src dst amount exclude max_hops = Ok hops"
  shows "hop_path src hops dst \<and> priced g exclude amount hops
    \<and> int (length hops) \<le> max 0 max_hops
    \<and> distinct (hop_sources hops @ [dst])
    \<and> unat (head_amount amount hops) = unat amount + cost amount hops \<and> cost amount hops < 2 ^ 31"
  using dijkstra_found [OF assms] unfolding found_path_def by auto

theorem dijkstra_sound_witness:
  "hop_path ''s'' detour_route ''d'' \<and> priced detour_graph Map.empty 1000000 detour_route
   \<and> unat (head_amount 1000000 detour_route) = 1000000 + cost 1000000 detour_route"
  using dijkstra_sound [OF detour_reach detour_bounded _ detour_three_hops] by simp

text \<open>C13. The path finder never panics and never runs forever: on a reachable graph it reports unknown nodes,
  reports that there is no route, or returns a route, whatever the order in which Go visits the
  neighbours.\<close>

theorem dijkstra_returns:
  assumes "graph_reach ends g" and "gossip_bounded g" and "unat amount \<le> 2 ^ 40"
  shows "(dijkstra g ord src dst amount exclude max_hops = Err ErrNoSuchNode
           \<longleftrightarrow> inbound g dst = None \<or> inbound g src = None)
    \<and> (dijkstra g ord src dst amount exclude max_hops = Err ErrNoSuchNode
       \<or> dijkstra g ord src dst amount exclude max_hops = Err ErrNoRoute
       \<or> (\<exists>hops. dijkstra g ord src dst amount exclude max_hops = Ok hops))"
  using dijkstra_cases [OF graph_reach_ok [OF assms(1)] assms(2,3), of dst src ord exclude max_hops]
  by (auto split: if_splits)


theorem dijkstra_returns_witness:
  "dijkstra detour_graph detour_order ''s'' ''q'' 1000000 Map.empty 3 = Err ErrNoSuchNode"
  using dijkstra_returns [OF detour_reach detour_bounded, of 1000000 detour_order "''s''" "''q''" Map.empty 3]
  by (simp add: detour_inbound)

text \<open>C39. The hop limit makes the search incomplete: a node is only kept with its cheapest path, so a cheap
  path with many hops hides a dearer one with few. On the detour graph there is a valid route of two hops,
  and the search for one of at most two hops reports that there is none.\<close>

theorem hop_limit_hides_route:
  "dijkstra detour_graph detour_order ''s'' ''d'' 1000000 Map.empty 2 = Err ErrNoRoute
   \<and> (\<exists>hops. length hops = 2 \<and> hop_path ''s'' hops ''d'' \<and> priced detour_graph Map.empty 1000000 hops)"
proof -
  let ?hops = "[\<lparr>hop_channel = detour_channel ''4'' ''s'' ''v'' 0, hop_msat = 1000010, hop_delay = 80\<rparr>,
      \<lparr>hop_channel = detour_channel ''3'' ''v'' ''d'' 10, hop_msat = 1000010, hop_delay = 40\<rparr>]"
  have "channel_id (detour_channel scid a b base) = channel_key scid a b" for scid a b base
    by (simp add: detour_channel_def)
  then have "priced detour_graph Map.empty 1000000 ?hops"
    by (simp add: detour_channels channel_key_def get_direction_def go_get_def)
  then have "length ?hops = 2 \<and> hop_path ''s'' ?hops ''d'' \<and> priced detour_graph Map.empty 1000000 ?hops"
    by simp
  with detour_two_hops show ?thesis by blast
qed

end
