(* ===== verification/Rebalance.thy ===== *)
theory Rebalance
  imports Payment Pathfinder_Sound
begin

text \<open>
  \<^verbatim>\<open>rebalance/\<close> and \<^verbatim>\<open>types/result.go\<close>: one rebalance moves an amount out through one of our channels and back in
  through another. A rebalance is repeated with more and more hops, and after a temporary failure, until it
  succeeds or gives up. What an attempt reads from outside (map orders, random bytes, the answers of lightningd)
  is a record \<open>attempt_env\<close>; between two attempts other goroutines may change the node, which is a function
  \<open>others\<close>. The notification of the open web sockets has no effect on the node and is left out.
\<close>

section \<open>Results\<close>

record result =
  res_status :: string
  res_message :: string
  res_amount :: u64
  res_out :: string
  res_in :: string
  res_attempts :: u64
  res_fee :: u64
  res_ppm :: u64
  res_route :: "pretty_route option"

definition new_result :: "string \<Rightarrow> u64 \<Rightarrow> string \<Rightarrow> string \<Rightarrow> result" where
  "new_result status amount src dst =
     \<lparr>res_status = status, res_message = [], res_amount = amount, res_out = src, res_in = dst,
      res_attempts = 0, res_fee = 0, res_ppm = 0, res_route = None\<rparr>"

section \<open>Parameters\<close>

record rebalance =
  rb_out :: channel
  rb_in :: channel
  rb_amount :: u64
  rb_max_ppm :: u64
  rb_attempts :: int
  rb_max_hops :: int

definition new_rebalance :: "channel \<Rightarrow> channel \<Rightarrow> u64 \<Rightarrow> u64 \<Rightarrow> int \<Rightarrow> int \<Rightarrow> rebalance" where
  "new_rebalance out inc amount maxppm attempts max_hops =
     \<lparr>rb_out = out, rb_in = inc, rb_amount = amount, rb_max_ppm = maxppm, rb_attempts = attempts,
      rb_max_hops = max_hops\<rparr>"

definition NORMAL :: string where "NORMAL = ''CHANNELD_NORMAL''"
definition DEFAULT_AMOUNT :: u64 where "DEFAULT_AMOUNT = 200000000"
definition DEFAULT_MAXPPM :: u64 where "DEFAULT_MAXPPM = 10"
definition DEFAULT_ATTEMPTS :: int where "DEFAULT_ATTEMPTS = 1"
definition DEFAULT_MAXHOPS :: int where "DEFAULT_MAXHOPS = 8"

definition set_defaults :: "rebalance \<Rightarrow> rebalance" where
  "set_defaults r =
     (let r = r\<lparr>rb_amount := rb_amount r * 1000\<rparr>;
          r = (if rb_amount r = 0 then r\<lparr>rb_amount := DEFAULT_AMOUNT\<rparr> else r);
          r = (if rb_max_ppm r = 0 then r\<lparr>rb_max_ppm := DEFAULT_MAXPPM\<rparr> else r);
          r = (if rb_attempts r \<le> 0 then r\<lparr>rb_attempts := DEFAULT_ATTEMPTS\<rparr> else r)
      in if rb_max_hops r \<le> 0 then r\<lparr>rb_max_hops := DEFAULT_MAXHOPS\<rparr> else r)"

text \<open>\<open>ords k\<close> is the order of the \<open>k\<close>-th loop over the peers.\<close>

definition check_connections ::
  "(nat \<Rightarrow> string list) \<Rightarrow> peer_channel \<Rightarrow> peer_channel \<Rightarrow> 'd node \<Rightarrow> unit res" where
  "check_connections ords in_channel out_channel n =
     (if pc_state in_channel \<noteq> NORMAL then Err ErrIncomingChannelNotInNormalState
      else if pc_state out_channel \<noteq> NORMAL then Err ErrOutgoingChannelNotInNormalState
      else if \<not> is_peer_connected (ords 2) in_channel n then Err ErrIncomingPeerDisconnected
      else if \<not> is_peer_connected (ords 3) out_channel n then Err ErrOutgoingPeerDisconnected
      else Ok ())"

definition check_liquidity :: "u64 \<Rightarrow> peer_channel \<Rightarrow> peer_channel \<Rightarrow> unit res" where
  "check_liquidity amount in_channel out_channel =
     (if pc_total in_channel - pc_to_us in_channel < amount then Err ErrIncomingChannelDepleted
      else if pc_to_us out_channel < amount then Err ErrOutgoingChannelDepleted
      else Ok ())"

definition validate_liquidity_parameters ::
  "(nat \<Rightarrow> string list) \<Rightarrow> rebalance \<Rightarrow> 'd node \<Rightarrow> unit res" where
  "validate_liquidity_parameters ords r n =
     go_bind (get_peer_channel_from_graph_channel (ords 0) (rb_in r) n) (\<lambda>in_channel.
     go_bind (get_peer_channel_from_graph_channel (ords 1) (rb_out r) n) (\<lambda>out_channel.
     go_bind (check_connections ords in_channel out_channel n) (\<lambda>_.
       check_liquidity (rb_amount r) in_channel out_channel)))"

definition rebalance_setup :: "(nat \<Rightarrow> string list) \<Rightarrow> rebalance \<Rightarrow> 'd node \<Rightarrow> rebalance res" where
  "rebalance_setup ords r n =
     (let r = set_defaults r in go_bind (validate_liquidity_parameters ords r n) (\<lambda>_. Ok r))"

section \<open>One attempt\<close>

record attempt_env =
  ae_peers :: "nat \<Rightarrow> string list"
  ae_neighbours :: "nat \<Rightarrow> string \<Rightarrow> string list"
  ae_preimage :: "8 word list"
  ae_lite :: "string option"
  ae_wait :: "wait_error + unit"

definition rebalance_route ::
  "rebalance \<Rightarrow> int \<Rightarrow> (nat \<Rightarrow> string \<Rightarrow> string list) \<Rightarrow> 'd node \<Rightarrow> route res" where
  "rebalance_route r max_hops ord n =
     (let exclude = [n_id n \<mapsto> True]; src = chan_destination (rb_out r); dst = chan_source (rb_in r)
      in go_bind (get_route (n_graph n) ord src dst (rb_amount r) exclude max_hops) (\<lambda>route.
         go_bind (prepend (rb_out r) route) (\<lambda>route.
           let route = append_hop (rb_in r) route
           in go_bind (route_fee_ppm route) (\<lambda>ppm.
                if ppm > rb_max_ppm r then Err (ErrRouteTooExpensive ppm (rb_max_ppm r))
                else Ok route))))"

definition attempt_error :: "go_err \<Rightarrow> go_err" where
  "attempt_error e =
     (if e = ErrSendPayTimeout then e
      else if e = ErrWireFeeInsufficient then e
      else if e = ErrFirstPeerNotReady then e
      else ErrTemporaryFailure)"

fun attempt_outcome :: "'a \<Rightarrow> 'b res \<Rightarrow> 'a res" where
  "attempt_outcome x (Ok _) = Ok x"
| "attempt_outcome x (Err e) = Err (attempt_error e)"
| "attempt_outcome x Panic = Panic"
| "attempt_outcome x Hang = Hang"

text \<open>The second half of \<^verbatim>\<open>tryRoute\<close>: the route is stored and the payment sent.\<close>

definition fire_route ::
  "'d library \<Rightarrow> route \<Rightarrow> pretty_route \<Rightarrow> string \<Rightarrow> attempt_env \<Rightarrow> 'd node \<Rightarrow> pretty_route res \<times> 'd node" where
  "fire_route B route pretty h env n =
     (let n1 = snd (node_save B (RoutePrefix @ h) (json_route B pretty) n);
          (paid, n2) = send_pay B route h (ae_lite env) (ae_wait env) n1
      in (attempt_outcome pretty paid, n2))"

definition try_route ::
  "'d library \<Rightarrow> rebalance \<Rightarrow> int \<Rightarrow> attempt_env \<Rightarrow> 'd node \<Rightarrow> pretty_route res \<times> 'd node" where
  "try_route B r max_hops env n =
     (let (hash, n1) = generate_preimage_hash_pair B (ae_preimage env) n
      in case hash of
           Inl e \<Rightarrow> (Err e, n1)
         | Inr h \<Rightarrow>
             (case rebalance_route r max_hops (ae_neighbours env) n1 of
                Ok route \<Rightarrow>
                  (case new_pretty_route (n_graph n1) route h of
                     Ok pretty \<Rightarrow> fire_route B route pretty h env n1
                   | Err e \<Rightarrow> (Err e, n1) | Panic \<Rightarrow> (Panic, n1) | Hang \<Rightarrow> (Hang, n1))
              | Err e \<Rightarrow> (Err e, n1) | Panic \<Rightarrow> (Panic, n1) | Hang \<Rightarrow> (Hang, n1)))"

definition success_result :: "rebalance \<Rightarrow> graph \<Rightarrow> pretty_route \<Rightarrow> result" where
  "success_result r g route =
     (let result = new_result ''success'' (rb_amount r div 1000)
            (chan_destination (rb_out r)) (chan_source (rb_in r))
      in result\<lparr>res_fee := pr_fee route, res_ppm := pr_fee_ppm route, res_route := Some route,
           res_message := ''successfully rebalanced '' @ fmt_u64 (res_amount result) @ '' sats from ''
             @ get_alias g (chan_destination (rb_out r)) @ '' to '' @ get_alias g (chan_source (rb_in r))
             @ '' at '' @ fmt_u64 (pr_fee_ppm route) @ '' ppm. Total fees paid: ''
             @ fmt_sats (pr_fee route) @ '' sats''\<rparr>)"

definition run_attempt ::
  "'d library \<Rightarrow> rebalance \<Rightarrow> int \<Rightarrow> attempt_env \<Rightarrow> 'd node \<Rightarrow> result res \<times> 'd node" where
  "run_attempt B r max_hops env n =
     (if n_stopped n then (Err ErrCircularStopped, n)
      else case validate_liquidity_parameters (ae_peers env) r n of
             Err e \<Rightarrow> (Err e, n)
           | Panic \<Rightarrow> (Panic, n)
           | Hang \<Rightarrow> (Hang, n)
           | Ok _ \<Rightarrow>
               (case try_route B r max_hops env n of
                  (Ok route, n') \<Rightarrow> (Ok (success_result r (n_graph n') route), n')
                | (Err e, n') \<Rightarrow> (Err e, n')
                | (Panic, n') \<Rightarrow> (Panic, n')
                | (Hang, n') \<Rightarrow> (Hang, n')))"


section \<open>Repeated attempts\<close>

text \<open>
  The loop of \<^verbatim>\<open>Run\<close>; \<open>k\<close> counts its turns. It ends with the attempt number, the last error text and, unless
  it gave up, the result of the attempt. Every turn that goes on raises the hop limit or the attempt number.
\<close>

datatype run_end = Finished result | Gave_up int string | Panicked | Hanging

function run_loop ::
  "'d library \<Rightarrow> rebalance \<Rightarrow> (nat \<Rightarrow> attempt_env) \<Rightarrow> (nat \<Rightarrow> 'd node \<Rightarrow> 'd node) \<Rightarrow> nat
     \<Rightarrow> int \<Rightarrow> int \<Rightarrow> string \<Rightarrow> 'd node \<Rightarrow> run_end \<times> 'd node" where
  "run_loop B r envs others k max_hops i last_error n =
     (if i > rb_attempts r then (Gave_up i last_error, n)
      else if max_hops > rb_max_hops r
      then (Gave_up i ('' Unable to find a route with less than '' @ itoa (rb_max_hops r) @ '' hops. ''
              @ last_error), n)
      else case run_attempt B r max_hops (envs k) (others k n) of
             (Ok result, n') \<Rightarrow> (Finished (result\<lparr>res_attempts := word_of_int i\<rparr>), n')
           | (Panic, n') \<Rightarrow> (Panicked, n')
           | (Hang, n') \<Rightarrow> (Hanging, n')
           | (Err err, n') \<Rightarrow>
               if err = ErrNoRoute
               then run_loop B r envs others (Suc k) (max_hops + 1) i (error_text err) n'
               else if is_route_too_expensive err
               then run_loop B r envs others (Suc k) (max_hops + 1) i (error_text err) n'
               else if err = ErrSendPayTimeout
               then (Gave_up i (''rebalancing timed out after '' @ dec SendpayTimeout @ ''s.''), n')
               else if err = ErrWireFeeInsufficient
               then (Gave_up i (''wire fee insufficient. Most likely someone in the route has updated ''
                       @ ''their fees, and gossip didn't reach us yet.''), n')
               else if err \<noteq> ErrTemporaryFailure then (Gave_up i (error_text err), n')
               else run_loop B r envs others (Suc k) max_hops (i + 1) last_error n')"
  by pat_completeness auto
termination
  by (relation "measure (\<lambda>(B, r, envs, others, k, max_hops, i, last_error, n).
      nat (rb_attempts r + 1 - i) + nat (rb_max_hops r + 1 - max_hops))") auto

declare run_loop.simps [simp del]

definition failure_result :: "rebalance \<Rightarrow> int \<Rightarrow> string \<Rightarrow> result" where
  "failure_result r i last_error =
     (let failure = new_result ''failure'' (rb_amount r div 1000)
            (chan_destination (rb_out r)) (chan_source (rb_in r));
          failure = failure\<lparr>res_attempts := word_of_int (i - 1)\<rparr>
      in failure\<lparr>res_message := ''rebalance failed after '' @ itoa (sint (res_attempts failure))
           @ '' attempts.'' @ last_error\<rparr>)"

definition run ::
  "'d library \<Rightarrow> rebalance \<Rightarrow> (nat \<Rightarrow> attempt_env) \<Rightarrow> (nat \<Rightarrow> 'd node \<Rightarrow> 'd node) \<Rightarrow> 'd node
     \<Rightarrow> result res \<times> 'd node" where
  "run B r envs others n =
     (case run_loop B r envs others 0 3 1 [] n of
        (Finished result, n') \<Rightarrow> (Ok result, n')
      | (Gave_up i last_error, n') \<Rightarrow> (Ok (failure_result r i last_error), n')
      | (Panicked, n') \<Rightarrow> (Panic, n')
      | (Hanging, n') \<Rightarrow> (Hang, n'))"

section \<open>The commands\<close>

definition setup_and_run ::
  "'d library \<Rightarrow> (nat \<Rightarrow> string list) \<Rightarrow> (nat \<Rightarrow> attempt_env) \<Rightarrow> (nat \<Rightarrow> 'd node \<Rightarrow> 'd node)
     \<Rightarrow> rebalance \<Rightarrow> 'd node \<Rightarrow> result res \<times> 'd node" where
  "setup_and_run B ords envs others r n =
     (case rebalance_setup ords r n of
        Ok r' \<Rightarrow> run B r' envs others n
      | Err e \<Rightarrow> (Err e, n) | Panic \<Rightarrow> (Panic, n) | Hang \<Rightarrow> (Hang, n))"

record by_scid_command =
  sc_out_scid :: string
  sc_in_scid :: string
  sc_amount :: u64
  sc_max_ppm :: u64
  sc_attempts :: int
  sc_max_hops :: int

text \<open>\<open>ords 4\<close> and \<open>ords 5\<close> are the orders of the two lookups, the others belong to \<^verbatim>\<open>Setup\<close>.\<close>

definition by_scid_call ::
  "'d library \<Rightarrow> (nat \<Rightarrow> string list) \<Rightarrow> (nat \<Rightarrow> attempt_env) \<Rightarrow> (nat \<Rightarrow> 'd node \<Rightarrow> 'd node)
     \<Rightarrow> by_scid_command \<Rightarrow> 'd node \<Rightarrow> result res \<times> 'd node" where
  "by_scid_call B ords envs others c n =
     (if sc_in_scid c = [] \<or> sc_out_scid c = [] then (Err ErrNoRequiredParameter, n)
      else case go_bind (get_outgoing_channel_from_scid (ords 4) (sc_out_scid c) n) (\<lambda>outgoing.
                go_bind (get_incoming_channel_from_scid (ords 5) (sc_in_scid c) n) (\<lambda>incoming.
                  Ok (new_rebalance outgoing incoming (sc_amount c) (sc_max_ppm c)
                        (sc_attempts c) (sc_max_hops c)))) of
             Ok r \<Rightarrow> setup_and_run B ords envs others r n
           | Err e \<Rightarrow> (Err e, n) | Panic \<Rightarrow> (Panic, n) | Hang \<Rightarrow> (Hang, n))"

record by_node_command =
  nc_out_node :: string
  nc_in_node :: string
  nc_amount :: u64
  nc_max_ppm :: u64
  nc_attempts :: int
  nc_max_hops :: int

definition best_outgoing_channel :: "string list \<Rightarrow> string \<Rightarrow> 'd node \<Rightarrow> channel res" where
  "best_outgoing_channel ord out_node n =
     go_bind (get_best_peer_channel out_node pc_to_us n)
       (\<lambda>best. get_outgoing_channel_from_scid ord (pc_scid best) n)"

definition best_incoming_channel :: "string list \<Rightarrow> string \<Rightarrow> 'd node \<Rightarrow> channel res" where
  "best_incoming_channel ord in_node n =
     go_bind (get_best_peer_channel in_node (\<lambda>channel. pc_total channel - pc_to_us channel) n)
       (\<lambda>best. get_incoming_channel_from_scid ord (pc_scid best) n)"

text \<open>\<open>ord\<close> enumerates the peers: it is empty exactly when the map is.\<close>

definition validate_peers :: "string list \<Rightarrow> by_node_command \<Rightarrow> 'd node \<Rightarrow> unit res" where
  "validate_peers ord c n =
     (if ord = [] then Err ErrNoPeers
      else if nc_in_node c = n_id n \<or> nc_out_node c = n_id n then Err ErrSelfNode
      else if nc_in_node c = nc_out_node c then Err ErrSameIncomingAndOutgoingNode
      else if \<not> has_peer (nc_in_node c) n then Err ErrNoPeer
      else if \<not> has_peer (nc_out_node c) n then Err ErrNoPeer
      else Ok ())"

definition by_node_call ::
  "'d library \<Rightarrow> (nat \<Rightarrow> string list) \<Rightarrow> (nat \<Rightarrow> attempt_env) \<Rightarrow> (nat \<Rightarrow> 'd node \<Rightarrow> 'd node)
     \<Rightarrow> by_node_command \<Rightarrow> 'd node \<Rightarrow> result res \<times> 'd node" where
  "by_node_call B ords envs others c n =
     (if nc_in_node c = [] \<or> nc_out_node c = [] then (Err ErrNoRequiredParameter, n)
      else case go_bind (validate_peers (ords 6) c n) (\<lambda>_.
                go_bind (best_outgoing_channel (ords 4) (nc_out_node c) n) (\<lambda>outgoing.
                go_bind (best_incoming_channel (ords 5) (nc_in_node c) n) (\<lambda>incoming.
                  Ok (new_rebalance outgoing incoming (nc_amount c) (nc_max_ppm c)
                        (nc_attempts c) (nc_max_hops c))))) of
             Ok r \<Rightarrow> setup_and_run B ords envs others r n
           | Err e \<Rightarrow> (Err e, n) | Panic \<Rightarrow> (Panic, n) | Hang \<Rightarrow> (Hang, n))"

end
