(* ===== verification/Rebalance_Sound.thy ===== *)
theory Rebalance_Sound
  imports Rebalance
begin

text \<open>
  Correctness of a rebalance. The routes it sends are circular, within the hop limit and the fee limit, and
  carry the right amounts; the loop always ends with a result. For the latter the fees are any values that the
  32 bit fields of BOLT 7 can hold, the amount is at most \<open>2 ^ 40\<close> msat (about 11 BTC) and the hop limit at most
  12: then no amount along a route wraps around.
\<close>

section \<open>Amounts along a route\<close>

text \<open>
  \<open>ComputeFee\<close> multiplies before it divides, in 64 bits. Whatever the rate, and even where that product wraps
  around, what is left after the division by 1000 stays far below \<open>2 ^ 64\<close>.
\<close>

lemma fee_always_small:
  assumes "bolt7_fees c"
  shows "unat (compute_fee c x) < 2 ^ 55"
proof -
  define n where "n = (x div 1000) * fee_per_millionth c"
  define p where "p = (if n > 0 then (n - 1) div 1000 + 1 else 0)"
  have fee: "compute_fee c x = base_fee_millisatoshi c + p"
    by (simp add: compute_fee_def n_def p_def Let_def)
  have small: "unat ((n - 1) div 1000) \<le> 18446744073709551" 
  proof -
    have "unat (n - 1) < 18446744073709551616" using unat_lt_2p64 [of "n - 1"] by simp
    then have "unat (n - 1) div 1000 \<le> 18446744073709551615 div 1000" by (intro div_le_mono) simp
    then show ?thesis by (simp add: unat_div)
  qed
  then have "unat ((n - 1) div 1000 + 1) = unat ((n - 1) div 1000) + 1"
    by (subst unat_add64) simp_all
  then have p: "unat p \<le> 18446744073709552" using small by (simp add: p_def)
  have "unat (base_fee_millisatoshi c) < 2 ^ 32" using assms by (simp add: bolt7_fees_def)
  with p show ?thesis unfolding fee by (subst unat_add64) simp_all
qed

text \<open>The bound on the amount of the \<open>k\<close>-th hop from the end.\<close>

lemma amount_step:
  assumes "bolt7_fees c" and "unat x \<le> 2 ^ 40 + k * 2 ^ 55" and "k < 12"
  shows "unat (x + compute_fee c x) = unat x + unat (compute_fee c x)"
    and "unat (x + compute_fee c x) \<le> 2 ^ 40 + Suc k * 2 ^ 55"
proof -
  have "k * 2 ^ 55 \<le> 11 * 2 ^ 55" using assms(3) by (intro mult_le_mono1) simp
  then have x: "unat x \<le> 2 ^ 40 + 11 * 2 ^ 55" using assms(2) by linarith
  note f = fee_always_small [OF assms(1), of x]
  show eq: "unat (x + compute_fee c x) = unat x + unat (compute_fee c x)"
    using x f by (intro unat_add64) simp
  show "unat (x + compute_fee c x) \<le> 2 ^ 40 + Suc k * 2 ^ 55" using eq f assms(2) by simp
qed

lemma recompute_bound:
  assumes "hs \<noteq> []" and "length hs \<le> 12" and "\<forall>h \<in> set (tl hs). bolt7_fees (hop_channel h)"
    and "unat (hop_msat (last hs)) \<le> 2 ^ 40"
  shows "unat (hop_msat (hd (recompute_fee_and_delay hs))) \<le> 2 ^ 40 + (length hs - 1) * 2 ^ 55
    \<and> (\<forall>h \<in> set (recompute_fee_and_delay hs). unat (hop_msat (last hs)) \<le> unat (hop_msat h))"
  using assms
proof (induction hs rule: recompute_fee_and_delay.induct)
  case (3 h h' hs)
  let ?rest = "recompute_fee_and_delay (h' # hs)"
  have IH: "unat (hop_msat (hd ?rest)) \<le> 2 ^ 40 + length hs * 2 ^ 55"
    "\<forall>h \<in> set ?rest. unat (hop_msat (last (h' # hs))) \<le> unat (hop_msat h)"
    using "3.IH" "3.prems" by auto
  obtain r rs where r: "?rest = r # rs" by (cases ?rest) auto
  have "map hop_channel ?rest = map hop_channel (h' # hs)" by (rule recompute_channels)
  then have c: "bolt7_fees (hop_channel r)" using "3.prems"(3) r by simp
  have k: "length hs < 12" using "3.prems"(2) by simp
  have x: "unat (hop_msat r) \<le> 2 ^ 40 + length hs * 2 ^ 55" using IH(1) r by simp
  note step = amount_step [OF c x k]
  show ?case
    using IH(2) step r by (auto simp: Let_def)
qed auto

section \<open>The route of a rebalance\<close>

text \<open>What the rest of the plugin keeps true of the node while a rebalance runs.\<close>

definition good_node :: "(string \<Rightarrow> string \<times> string \<times> u64) \<Rightarrow> 'd node \<Rightarrow> bool" where
  "good_node ends n \<longleftrightarrow> graph_reach ends (n_graph n) \<and> gossip_bounded (n_graph n)"

lemma good_node_dijkstra:
  assumes "good_node ends n" and "unat a \<le> 2 ^ 40"
  shows "dijkstra (n_graph n) ord src dst a exclude mh = Err ErrNoSuchNode
    \<or> dijkstra (n_graph n) ord src dst a exclude mh = Err ErrNoRoute
    \<or> (\<exists>hops. dijkstra (n_graph n) ord src dst a exclude mh = Ok hops
         \<and> found_path (n_graph n) exclude a src dst mh hops)"
  using dijkstra_cases [OF graph_reach_ok _ assms(2)] assms(1)
  unfolding good_node_def by (metis (no_types, lifting))

text \<open>The route that the checks accept, in terms of the hops that the path finder found.\<close>

definition full_hops :: "rebalance \<Rightarrow> route_hop list \<Rightarrow> route_hop list" where
  "full_hops r mid = recompute_fee_and_delay
     (\<lparr>hop_channel = rb_out r, hop_msat = hop_msat (hd mid), hop_delay = hop_delay (hd mid)\<rparr>
      # mid @ [\<lparr>hop_channel = rb_in r, hop_msat = rb_amount r, hop_delay = INITIAL_DELAY\<rparr>])"

definition full_route :: "rebalance \<Rightarrow> route_hop list \<Rightarrow> route" where
  "full_route r mid = \<lparr>rt_destination = chan_source (rb_in r), rt_source = chan_destination (rb_out r),
     rt_amount = rb_amount r, rt_hops = full_hops r mid\<rparr>"

lemma rebalance_route_eq:
  "rebalance_route r mh ord n =
     go_bind (dijkstra (n_graph n) ord (chan_destination (rb_out r)) (chan_source (rb_in r)) (rb_amount r)
         [n_id n \<mapsto> True] (go_int (mh - 2))) (\<lambda>mid.
       if mid = [] then Panic
       else go_bind (route_fee_ppm (full_route r mid)) (\<lambda>ppm.
              if ppm > rb_max_ppm r then Err (ErrRouteTooExpensive ppm (rb_max_ppm r))
              else Ok (full_route r mid)))"
proof -
  have "append_hop (rb_in r) \<lparr>rt_destination = d, rt_source = s, rt_amount = rb_amount r, rt_hops =
      \<lparr>hop_channel = rb_out r, hop_msat = hop_msat h, hop_delay = hop_delay h\<rparr> # h # hs\<rparr>
    = \<lparr>rt_destination = d, rt_source = s, rt_amount = rb_amount r, rt_hops = full_hops r (h # hs)\<rparr>"
    for d s h hs by (simp add: append_hop_def full_hops_def)
  then show ?thesis
    by (cases "dijkstra (n_graph n) ord (chan_destination (rb_out r)) (chan_source (rb_in r)) (rb_amount r)
          [n_id n \<mapsto> True] (go_int (mh - 2))")
      (auto simp: rebalance_route_def get_route_def Let_def new_route_def prepend_def full_route_def
        cong: if_cong split: list.split)
qed

lemma full_hops_channels [simp]:
  "map hop_channel (full_hops r mid) = rb_out r # map hop_channel mid @ [rb_in r]"
  by (simp add: full_hops_def)

lemma full_hops_length [simp]: "length (full_hops r mid) = length mid + 2"
  using full_hops_channels [of r mid] by (metis length_map length_Cons length_append_singleton add_2_eq_Suc')


lemma full_route_fields [simp]:
  "rt_source (full_route r mid) = chan_destination (rb_out r)"
  "rt_destination (full_route r mid) = chan_source (rb_in r)"
  "rt_amount (full_route r mid) = rb_amount r" "rt_hops (full_route r mid) = full_hops r mid"
  by (simp_all add: full_route_def)

lemma full_hops_not_Nil [simp]: "full_hops r mid \<noteq> []"
  by (simp add: full_hops_def)

lemma full_hops_path:
  assumes "hop_path (chan_destination (rb_out r)) mid (chan_source (rb_in r))"
  shows "hop_path (chan_source (rb_out r)) (full_hops r mid) (chan_destination (rb_in r))"
proof -
  let ?raw = "\<lparr>hop_channel = rb_out r, hop_msat = hop_msat (hd mid), hop_delay = hop_delay (hd mid)\<rparr>
      # mid @ [\<lparr>hop_channel = rb_in r, hop_msat = rb_amount r, hop_delay = INITIAL_DELAY\<rparr>]"
  have "map hop_channel (full_hops r mid) = map hop_channel ?raw" by simp
  then have "hop_path u (full_hops r mid) d = hop_path u ?raw d" for u d by (rule hop_path_channels)
  with assms show ?thesis by (simp add: hop_path_append)
qed

lemma full_hops_forwards:
  "forwards (full_hops r mid)"
  "last (full_hops r mid) = \<lparr>hop_channel = rb_in r, hop_msat = rb_amount r, hop_delay = INITIAL_DELAY\<rparr>"
  by (simp_all add: full_hops_def recompute_forwards recompute_last)

text \<open>What is known about the hops in the middle.\<close>

definition middle_ok :: "rebalance \<Rightarrow> int \<Rightarrow> 'd node \<Rightarrow> route_hop list \<Rightarrow> bool" where
  "middle_ok r mh n mid \<longleftrightarrow>
     mid \<noteq> [] \<and> found_path (n_graph n) [n_id n \<mapsto> True] (rb_amount r)
       (chan_destination (rb_out r)) (chan_source (rb_in r)) (go_int (mh - 2)) mid"

lemma found_path_same: "found_path g exclude a v v mh mid \<Longrightarrow> mid = []"
  by (cases mid) (auto simp: found_path_def)

lemma found_path_other: "found_path g exclude a u v mh mid \<Longrightarrow> u \<noteq> v \<Longrightarrow> mid \<noteq> []"
  by (auto simp: found_path_def)

lemma rebalance_route_cases:
  assumes "good_node ends n" and "unat (rb_amount r) \<le> 2 ^ 40" and "rb_amount r \<noteq> 0"
    and "chan_destination (rb_out r) \<noteq> chan_source (rb_in r)"
  shows "rebalance_route r mh ord n = Err ErrNoSuchNode \<or> rebalance_route r mh ord n = Err ErrNoRoute
    \<or> (\<exists>mid ppm. middle_ok r mh n mid \<and> route_fee_ppm (full_route r mid) = Ok ppm
        \<and> rebalance_route r mh ord n =
            (if ppm > rb_max_ppm r then Err (ErrRouteTooExpensive ppm (rb_max_ppm r))
             else Ok (full_route r mid)))"
proof -
  have ppm: "\<exists>ppm. route_fee_ppm (full_route r mid) = Ok ppm" for mid
    using assms(3) by (cases "full_hops r mid") (simp_all add: route_fee_ppm_def route_fee_def)
  from good_node_dijkstra [OF assms(1,2), of ord "chan_destination (rb_out r)" "chan_source (rb_in r)"
      "[n_id n \<mapsto> True]" "go_int (mh - 2)"]
  show ?thesis
  proof (elim disjE exE conjE)
    fix mid assume d: "dijkstra (n_graph n) ord (chan_destination (rb_out r)) (chan_source (rb_in r))
        (rb_amount r) [n_id n \<mapsto> True] (go_int (mh - 2)) = Ok mid"
      and f: "found_path (n_graph n) [n_id n \<mapsto> True] (rb_amount r) (chan_destination (rb_out r))
        (chan_source (rb_in r)) (go_int (mh - 2)) mid"
    have "mid \<noteq> []" using found_path_other [OF f assms(4)] .
    then have "middle_ok r mh n mid" using f by (simp add: middle_ok_def)
    moreover obtain ppm where fee: "route_fee_ppm (full_route r mid) = Ok ppm" using ppm by blast
    moreover have "rebalance_route r mh ord n = (if ppm > rb_max_ppm r
        then Err (ErrRouteTooExpensive ppm (rb_max_ppm r)) else Ok (full_route r mid))"
      using fee d \<open>mid \<noteq> []\<close> by (simp add: rebalance_route_eq)
    ultimately show ?thesis by blast
  qed (simp_all add: rebalance_route_eq)
qed

lemma middle_bolt7:
  assumes "good_node ends n" and "middle_ok r mh n mid"
  shows "\<forall>h \<in> set mid. bolt7_fees (hop_channel h)"
  using assms priced_bottleneck unfolding middle_ok_def found_path_def good_node_def gossip_bounded_def by blast

text \<open>No amount wraps on the way.\<close>

lemma full_hops_amounts:
  assumes "good_node ends n" and "middle_ok r mh n mid" and "bolt7_fees (rb_in r)"
    and "unat (rb_amount r) \<le> 2 ^ 40" and "length mid \<le> 10"
  shows "\<forall>h \<in> set (full_hops r mid). unat (rb_amount r) \<le> unat (hop_msat h)"
proof -
  have m: "\<forall>h \<in> set mid. bolt7_fees (hop_channel h)" using middle_bolt7 [OF assms(1,2)] .
  show ?thesis
    unfolding full_hops_def
    using recompute_bound [of "\<lparr>hop_channel = rb_out r, hop_msat = hop_msat (hd mid),
          hop_delay = hop_delay (hd mid)\<rparr>
      # mid @ [\<lparr>hop_channel = rb_in r, hop_msat = rb_amount r, hop_delay = INITIAL_DELAY\<rparr>]"]
      m assms(3-5) by auto
qed

lemma pretty_tail_Ok:
  "\<forall>h \<in> set hs. hop_msat h \<noteq> 0 \<Longrightarrow> \<exists>ps. pretty_tail g prev hs = Ok ps"
proof (induction hs arbitrary: prev)
  case (Cons h hs)
  then obtain ps where "pretty_tail g h hs = Ok ps" by auto
  then show ?case using Cons.prems by (simp add: Let_def)
qed simp

lemma pretty_tail_scids:
  "pretty_tail g prev hs = Ok ps \<Longrightarrow> map ph_scid ps = map (short_channel_id \<circ> hop_channel) hs"
proof (induction hs arbitrary: prev ps)
  case (Cons h hs)
  then obtain rest where "pretty_tail g h hs = Ok rest"
    and "ps = pretty_hop_of g h (hop_msat prev - hop_msat h) ((hop_msat prev - hop_msat h) * 1000000 div hop_msat h) # rest"
    by (auto simp: Let_def go_bind_eq_Ok split: if_splits)
  then show ?case using Cons.IH by (simp add: pretty_hop_of_def)
qed simp

lemma new_pretty_route_Ok:
  assumes "rt_hops route \<noteq> []" and "\<forall>h \<in> set (rt_hops route). hop_msat h \<noteq> 0"
    and "route_fee_ppm route = Ok ppm"
  shows "\<exists>p. new_pretty_route g route hash = Ok p \<and> pr_fee_ppm p = ppm
    \<and> map ph_scid (pr_hops p) = map (short_channel_id \<circ> hop_channel) (rt_hops route)"
proof -
  obtain h hs where hops: "rt_hops route = h # hs" using assms(1) by (cases "rt_hops route") auto
  obtain ps where ps: "pretty_tail g h hs = Ok ps" using pretty_tail_Ok [of hs g h] assms(2) hops by auto
  show ?thesis using ps assms(3) hops pretty_tail_scids [OF ps]
    by (auto simp: new_pretty_route_def route_fee_def pretty_hop_of_def)
qed


section \<open>One attempt\<close>

definition returns :: "'a res \<Rightarrow> bool" where
  "returns x \<longleftrightarrow> (\<exists>y. x = Ok y) \<or> (\<exists>e. x = Err e)"

lemma returns_simps [simp]: "returns (Ok y)" "returns (Err e)" "\<not> returns Panic" "\<not> returns Hang"
  by (simp_all add: returns_def)

lemma send_pay_returns:
  assumes "2 \<le> length (rt_hops route)"
  shows "returns (fst (send_pay B route h lite wait n))"
proof -
  have "length (to_lightning_route route) = length (rt_hops route)" by (simp add: to_lightning_route_def)
  then have "\<not> length (to_lightning_route route) < 2" using assms by simp
  then show ?thesis
    by (cases lite; cases wait) (auto simp: send_pay_def Let_def manage_timeout_def
        simp del: error_text.simps split: option.split)
qed

lemma validate_returns: "returns (validate_liquidity_parameters ords r n)"
  by (auto simp: validate_liquidity_parameters_def get_peer_channel_from_graph_channel_def
      check_connections_def check_liquidity_def split: option.split)

definition rebalance_ok :: "rebalance \<Rightarrow> bool" where
  "rebalance_ok r \<longleftrightarrow> bolt7_fees (rb_in r) \<and> rb_amount r \<noteq> 0 \<and> unat (rb_amount r) \<le> 2 ^ 40
     \<and> chan_destination (rb_out r) \<noteq> chan_source (rb_in r) \<and> rb_max_hops r \<le> 12"

lemma good_node_db_only: "db_only n n' \<Longrightarrow> good_node ends n' = good_node ends n"
  by (simp add: good_node_def db_only_fields(5))

lemma middle_length:
  assumes "middle_ok r mh n mid" and "3 \<le> mh" and "mh \<le> 12"
  shows "int (length mid) + 2 \<le> mh"
proof -
  have "go_int (mh - 2) = mh - 2" using assms by (intro go_int_id) simp_all
  then show ?thesis using assms by (simp add: middle_ok_def found_path_def)
qed

lemma node_save_frame:
  "n_graph (snd (node_save B k json n)) = n_graph n"
  using db_only_fields(5) [OF db_only_node_save] .

lemma fire_route_db: "db_only n (snd (fire_route B route pretty h env n))"
  using db_only_trans [OF db_only_node_save db_only_send_pay]
  by (simp add: fire_route_def Let_def split_def)

lemma try_route_db: "db_only n (snd (try_route B r mh env n))"
proof -
  obtain hash n1 where g: "generate_preimage_hash_pair B (ae_preimage env) n = (hash, n1)" by fastforce
  then have n1: "db_only n n1" using db_only_generate [of n B "ae_preimage env"] by simp
  then show ?thesis
    using g db_only_trans [OF n1 fire_route_db]
    by (simp add: try_route_def split: sum.split go.split)
qed

text \<open>What the attempt reports as its route.\<close>

definition within_limits :: "rebalance \<Rightarrow> pretty_route \<Rightarrow> bool" where
  "within_limits r p \<longleftrightarrow> pr_fee_ppm p \<le> rb_max_ppm r \<and> int (length (pr_hops p)) \<le> rb_max_hops r
     \<and> (\<exists>mids. map ph_scid (pr_hops p) = short_channel_id (rb_out r) # mids @ [short_channel_id (rb_in r)])"

lemma attempt_outcome_Ok: "attempt_outcome x res = Ok y \<longleftrightarrow> y = x \<and> (\<exists>z. res = Ok z)"
  by (cases res) auto

lemma attempt_outcome_returns: "returns res \<Longrightarrow> returns (attempt_outcome x res)"
  by (cases res) auto

lemma fire_route_outcome:
  assumes "2 \<le> length (rt_hops route)"
  shows "fst (fire_route B route pretty h env n) = Ok pretty \<or> (\<exists>e. fst (fire_route B route pretty h env n) = Err e)"
proof -
  have "returns (attempt_outcome pretty (fst (send_pay B route h (ae_lite env) (ae_wait env)
      (snd (node_save B (RoutePrefix @ h) (json_route B pretty) n)))))"
    by (intro attempt_outcome_returns send_pay_returns assms)
  then show ?thesis
    by (auto simp: fire_route_def Let_def split_def returns_def attempt_outcome_Ok)
qed

lemma try_route_outcome:
  assumes "good_node ends n" and "rebalance_ok r" and "3 \<le> mh" and "mh \<le> rb_max_hops r"
  shows "(\<exists>p. fst (try_route B r mh env n) = Ok p \<and> within_limits r p)
    \<or> (\<exists>e. fst (try_route B r mh env n) = Err e)"
proof -
  obtain hash n1 where g: "generate_preimage_hash_pair B (ae_preimage env) n = (hash, n1)" by fastforce
  then have n1: "db_only n n1" using db_only_generate [of n B "ae_preimage env"] by simp
  then have good: "good_node ends n1" using assms(1) good_node_db_only by metis
  show ?thesis
  proof (cases hash)
    case (Inl e)
    then show ?thesis using g by (simp add: try_route_def)
  next
    case (Inr h)
    have r: "bolt7_fees (rb_in r)" "rb_amount r \<noteq> 0" "unat (rb_amount r) \<le> 2 ^ 40"
      "chan_destination (rb_out r) \<noteq> chan_source (rb_in r)" "rb_max_hops r \<le> 12"
      using assms(2) by (simp_all add: rebalance_ok_def)
    from rebalance_route_cases [OF good r(3,2,4), of mh "ae_neighbours env"] show ?thesis
    proof (elim disjE exE conjE)
      fix mid ppm
      assume mid: "middle_ok r mh n1 mid" and fee: "route_fee_ppm (full_route r mid) = Ok ppm"
        and route: "rebalance_route r mh (ae_neighbours env) n1 =
            (if ppm > rb_max_ppm r then Err (ErrRouteTooExpensive ppm (rb_max_ppm r))
             else Ok (full_route r mid))"
      show ?thesis
      proof (cases "ppm > rb_max_ppm r")
        case True
        then show ?thesis using g Inr route by (simp add: try_route_def)
      next
        case False
        have len: "int (length mid) + 2 \<le> mh" using middle_length [OF mid assms(3)] assms(4) r(5) by simp
        then have "length mid \<le> 10" using assms(4) r(5) by linarith
        from full_hops_amounts [OF good mid r(1,3) this] r(2)
        have "\<forall>h \<in> set (rt_hops (full_route r mid)). hop_msat h \<noteq> 0"
          by (metis full_route_fields(4) le_zero_eq unat_eq_zero)
        from new_pretty_route_Ok [OF _ this fee, of "n_graph n1" h] obtain p
          where p: "new_pretty_route (n_graph n1) (full_route r mid) h = Ok p" "pr_fee_ppm p = ppm"
            "map ph_scid (pr_hops p) = map (short_channel_id \<circ> hop_channel) (full_hops r mid)" by auto
        have "map ph_scid (pr_hops p) = map short_channel_id (map hop_channel (full_hops r mid))"
          by (simp only: p(3) map_map)
        then have scids: "map ph_scid (pr_hops p) =
            short_channel_id (rb_out r) # map short_channel_id (map hop_channel mid) @ [short_channel_id (rb_in r)]"
          by (simp only: full_hops_channels list.map map_append)
        from arg_cong [OF this, of length] have "length (pr_hops p) = length mid + 2" by simp
        then have "within_limits r p" using p(2) len assms(4) False scids
          unfolding within_limits_def by fastforce
        moreover have "try_route B r mh env n = fire_route B (full_route r mid) p h env n1"
          using g Inr route False p(1) by (simp add: try_route_def)
        moreover have "2 \<le> length (rt_hops (full_route r mid))" by simp
        ultimately show ?thesis using fire_route_outcome by metis
      qed
    qed (simp_all add: try_route_def g Inr)
  qed
qed


lemma run_attempt_cases:
  "run_attempt B r mh env n =
     (if n_stopped n then (Err ErrCircularStopped, n)
      else case validate_liquidity_parameters (ae_peers env) r n of
             Ok _ \<Rightarrow> (case try_route B r mh env n of (out, n') \<Rightarrow>
               (case out of Ok route \<Rightarrow> Ok (success_result r (n_graph n') route)
                | Err e \<Rightarrow> Err e | Panic \<Rightarrow> Panic | Hang \<Rightarrow> Hang, n'))
           | Err e \<Rightarrow> (Err e, n) | Panic \<Rightarrow> (Panic, n) | Hang \<Rightarrow> (Hang, n))"
  by (auto simp: run_attempt_def split: go.split prod.split)

lemma run_attempt_db: "db_only n (snd (run_attempt B r mh env n))"
  using try_route_db [of n B r mh env]
  by (auto simp: run_attempt_cases split: go.split prod.split)

text \<open>What a successful attempt returns; the number of attempts is filled in by the loop.\<close>

definition success_ok :: "rebalance \<Rightarrow> result \<Rightarrow> bool" where
  "success_ok r res \<longleftrightarrow> res_status res = ''success'' \<and> res_amount res = rb_amount r div 1000
     \<and> res_out res = chan_destination (rb_out r) \<and> res_in res = chan_source (rb_in r)
     \<and> (\<exists>p. res_route res = Some p \<and> res_fee res = pr_fee p \<and> res_ppm res = pr_fee_ppm p \<and> within_limits r p)"

lemma success_result_ok: "within_limits r p \<Longrightarrow> success_ok r (success_result r g p)"
  by (simp add: success_ok_def success_result_def new_result_def Let_def)

lemma run_attempt_outcome:
  assumes "good_node ends n" and "rebalance_ok r" and "3 \<le> mh" and "mh \<le> rb_max_hops r"
  shows "(\<exists>res. fst (run_attempt B r mh env n) = Ok res \<and> success_ok r res)
    \<or> (\<exists>e. fst (run_attempt B r mh env n) = Err e)"
proof -
  obtain out n' where t: "try_route B r mh env n = (out, n')" by fastforce
  show ?thesis
    using try_route_outcome [OF assms, of B env] validate_returns [of "ae_peers env" r n] t
    by (auto simp: run_attempt_cases returns_def intro: success_result_ok)
qed

section \<open>The loop\<close>

text \<open>The node that other goroutines leave behind is good again.\<close>

definition others_keep :: "('d node \<Rightarrow> bool) \<Rightarrow> (nat \<Rightarrow> 'd node \<Rightarrow> 'd node) \<Rightarrow> bool" where
  "others_keep ok others \<longleftrightarrow> (\<forall>k n. ok n \<longrightarrow> ok (others k n))"

definition end_ok :: "rebalance \<Rightarrow> int \<Rightarrow> run_end \<Rightarrow> bool" where
  "end_ok r i e = (case e of
     Finished res \<Rightarrow> success_ok r res
       \<and> (\<exists>j. i \<le> j \<and> j \<le> rb_attempts r \<and> res_attempts res = word_of_int j)
   | Gave_up j t \<Rightarrow> i \<le> j \<and> j \<le> rb_attempts r + 1
   | Panicked \<Rightarrow> False | Hanging \<Rightarrow> False)"

lemma end_ok_later: "end_ok r (i + 1) e \<Longrightarrow> end_ok r i e"
proof (cases e)
  case (Finished res)
  assume "end_ok r (i + 1) e"
  then obtain j where "success_ok r res" "i + 1 \<le> j" "j \<le> rb_attempts r" "res_attempts res = word_of_int j"
    by (auto simp: end_ok_def Finished)
  then show ?thesis by (auto simp: end_ok_def Finished intro!: exI [of _ j])
qed (auto simp: end_ok_def)

lemma success_ok_attempts: "success_ok r (res\<lparr>res_attempts := a\<rparr>) = success_ok r res"
  by (simp add: success_ok_def)

text \<open>
  What a rebalance relies on: an invariant of the node that implies a good node, and that writing to the
  database does not touch. Everything else that happens to the node meanwhile must keep it.
\<close>

locale node_invariant =
  fixes ends :: "string \<Rightarrow> string \<times> string \<times> u64" and ok :: "'d node \<Rightarrow> bool"
  assumes ok_good: "ok n \<Longrightarrow> good_node ends n"
    and ok_db_only: "db_only n n' \<Longrightarrow> ok n' = ok n"
begin

lemma run_loop_outcome:
  "others_keep ok others \<Longrightarrow> rebalance_ok r \<Longrightarrow> ok n \<Longrightarrow> 3 \<le> mh \<Longrightarrow> i \<le> rb_attempts r + 1 \<Longrightarrow>
     end_ok r i (fst (run_loop B r envs others k mh i t n)) \<and>
     ok (snd (run_loop B r envs others k mh i t n))"
proof (induction B r envs others k mh i t n rule: run_loop.induct)
  case (1 B r envs others k mh i t n)
  show ?case
  proof (cases "i > rb_attempts r \<or> mh > rb_max_hops r")
    case True
    then show ?thesis using "1.prems" by (subst (1 2) run_loop.simps) (auto simp: end_ok_def)
  next
    case False
    obtain out n' where a: "run_attempt B r mh (envs k) (others k n) = (out, n')" by fastforce
    have good: "ok (others k n)" using "1.prems"(1,3) by (simp add: others_keep_def)
    then have good': "ok n'"
      using ok_db_only [OF run_attempt_db [of "others k n" B r mh "envs k"]] a by simp
    from run_attempt_outcome [OF ok_good [OF good] "1.prems"(2,4), of B "envs k"] False a
    consider res where "out = Ok res" "success_ok r res" | e where "out = Err e" by auto
    then show ?thesis
    proof cases
      case (1 res)
      then show ?thesis using False a good'
        by (subst (1 2) run_loop.simps) (auto simp: end_ok_def success_ok_attempts)
    next
      case (2 e)
      note IH = "1.IH" [OF _ _ a [symmetric] 2]
      have run: "run_loop B r envs others k mh i t n =
         (if e = ErrNoRoute then run_loop B r envs others (Suc k) (mh + 1) i (error_text e) n'
          else if is_route_too_expensive e then run_loop B r envs others (Suc k) (mh + 1) i (error_text e) n'
          else if e = ErrSendPayTimeout
          then (Gave_up i (''rebalancing timed out after '' @ dec SendpayTimeout @ ''s.''), n')
          else if e = ErrWireFeeInsufficient
          then (Gave_up i (''wire fee insufficient. Most likely someone in the route has updated ''
                  @ ''their fees, and gossip didn't reach us yet.''), n')
          else if e \<noteq> ErrTemporaryFailure then (Gave_up i (error_text e), n')
          else run_loop B r envs others (Suc k) mh (i + 1) t n')"
        using False a 2 by (subst run_loop.simps) simp
      have stop: "end_ok r i (Gave_up i u)" for u using "1.prems"(5) by (simp add: end_ok_def)
      consider (no_route) "e = ErrNoRoute" | (expensive) "e \<noteq> ErrNoRoute" "is_route_too_expensive e"
        | (gave_up) "e \<noteq> ErrNoRoute" "\<not> is_route_too_expensive e" "e \<noteq> ErrTemporaryFailure"
        | (again) "e = ErrTemporaryFailure" by blast
      then show ?thesis
      proof cases
        case no_route
        then show ?thesis unfolding run using IH(1) "1.prems" False good' by simp
      next
        case expensive
        then show ?thesis unfolding run using IH(2) "1.prems" False good' by simp
      next
        case gave_up
        then show ?thesis unfolding run using stop good' by simp
      next
        case again
        then have "\<not> is_route_too_expensive e" by (simp add: is_route_too_expensive_def)
        then show ?thesis unfolding run
          using IH(3) "1.prems" False good' again end_ok_later by simp
      qed
    qed
  qed
qed

lemma run_outcome:
  assumes "others_keep ok others" and "ok n" and "rebalance_ok r" and "0 \<le> rb_attempts r"
  obtains res n' where "run B r envs others n = (Ok res, n')" and "ok n'"
    and "success_ok r res \<and> (\<exists>j \<ge> 1. j \<le> rb_attempts r \<and> res_attempts res = word_of_int j)
       \<or> res_status res = ''failure'' \<and> (\<exists>j \<ge> 0. j \<le> rb_attempts r \<and> res_attempts res = word_of_int j)"
proof -
  have "end_ok r 1 (fst (run_loop B r envs others 0 3 1 [] n))"
    and good: "ok (snd (run_loop B r envs others 0 3 1 [] n))"
    using run_loop_outcome [OF assms(1,3,2), of 3 1 B envs 0 "[]"] assms(4) by simp_all
  moreover obtain e n' where e: "run_loop B r envs others 0 3 1 [] n = (e, n')" by fastforce
  ultimately have ok: "end_ok r 1 e" and "ok n'" by simp_all
  show ?thesis
  proof (cases e)
    case (Finished res)
    then show ?thesis using ok e \<open>ok n'\<close> by (intro that [of res n']) (auto simp: run_def end_ok_def)
  next
    case (Gave_up j t)
    have "res_status (failure_result r j t) = ''failure''"
      and a: "res_attempts (failure_result r j t) = word_of_int (j - 1)"
      by (simp_all add: failure_result_def Let_def new_result_def)
    moreover have "\<exists>j' \<ge> 0. j' \<le> rb_attempts r \<and> res_attempts (failure_result r j t) = word_of_int j'"
      using ok Gave_up a by (intro exI [of _ "j - 1"]) (simp add: end_ok_def)
    moreover have "run B r envs others n = (Ok (failure_result r j t), n')"
      using e Gave_up by (simp add: run_def)
    ultimately show ?thesis using \<open>ok n'\<close> by (intro that [of "failure_result r j t" n']) simp_all
  qed (use ok in \<open>simp_all add: end_ok_def\<close>)
qed

end

interpretation good: node_invariant ends "good_node ends" for ends
  by unfold_locales (simp_all add: good_node_db_only)

end
