(* ===== verification/Circle.thy ===== *)
theory Circle
  imports Rebalance_Sound
begin

text \<open>
  A small network for the witnesses of the rebalancing theorems: our node \<open>u\<close> with the peers \<open>a\<close> and \<open>b\<close>, which
  have a channel with each other. The only circular route from \<open>u\<close> over \<open>a\<close> and \<open>b\<close> back to \<open>u\<close> has three hops.
\<close>

definition circle_gossip :: "gl_channel list" where
  "circle_gossip =
     [detour_gossip ''1'' ''u'' ''a'' 0, detour_gossip ''1'' ''a'' ''u'' 0, detour_gossip ''2'' ''a'' ''b'' 4,
      detour_gossip ''2'' ''b'' ''a'' 4, detour_gossip ''3'' ''b'' ''u'' 5, detour_gossip ''3'' ''u'' ''b'' 5]"

definition circle_graph :: graph where
  "circle_graph = refresh_channels circle_gossip new_graph"

lemma circle_channels:
  "channels circle_graph =
     [''1/1'' \<mapsto> detour_channel ''1'' ''u'' ''a'' 0, ''1/0'' \<mapsto> detour_channel ''1'' ''a'' ''u'' 0,
      ''2/0'' \<mapsto> detour_channel ''2'' ''a'' ''b'' 4, ''2/1'' \<mapsto> detour_channel ''2'' ''b'' ''a'' 4,
      ''3/0'' \<mapsto> detour_channel ''3'' ''b'' ''u'' 5, ''3/1'' \<mapsto> detour_channel ''3'' ''u'' ''b'' 5]"
  by (simp add: circle_graph_def circle_gossip_def refresh_channels_def refresh_channel_channels new_graph_def
      detour_half channel_key_def get_direction_def flip: detour_channel_def)

lemma circle_inbound:
  "inbound circle_graph =
     [''a'' \<mapsto> [''u'' \<mapsto> [''1''], ''b'' \<mapsto> [''2'']], ''u'' \<mapsto> [''a'' \<mapsto> [''1''], ''b'' \<mapsto> [''3'']],
      ''b'' \<mapsto> [''a'' \<mapsto> [''2''], ''u'' \<mapsto> [''3'']]]"
  by (rule ext) (simp add: circle_graph_def circle_gossip_def refresh_channels_def new_graph_def
      refresh_channel_def Let_def channel_id_def channel_key_def get_direction_def add_channel_def allocate_def)

definition circle_ends :: "string \<Rightarrow> string \<times> string \<times> u64" where
  "circle_ends cid = (case channels circle_graph cid of
     None \<Rightarrow> ([], [], 0) | Some c \<Rightarrow> (chan_source c, chan_destination c, satoshis c))"

lemma circle_reach: "graph_reach circle_ends circle_graph"
proof -
  have "\<forall>c \<in> set circle_gossip. gossip_ok circle_ends c"
    by (simp add: circle_gossip_def gossip_ok_def circle_ends_def circle_channels channel_key_def
        get_direction_def) (simp add: detour_channel_def)
  then show ?thesis unfolding circle_graph_def by (intro reach_refresh reach_new)
qed

lemma detour_bolt7: "unat base < 2 ^ 32 \<Longrightarrow> bolt7_fees (detour_channel scid s d base)"
  by (simp add: bolt7_fees_def detour_channel_def)

lemma circle_bolt7: "gossip_bounded circle_graph"
  by (auto simp: gossip_bounded_def circle_channels detour_bolt7 split: if_splits)

definition circle_order :: "nat \<Rightarrow> string \<Rightarrow> string list" where
  "circle_order n v = [''a'', ''b'', ''u'']"

lemma circle_dijkstra:
  "dijkstra circle_graph circle_order ''a'' ''b'' 1000000 [''u'' \<mapsto> True] 1 =
     Ok [\<lparr>hop_channel = detour_channel ''2'' ''a'' ''b'' 4, hop_msat = 1000004, hop_delay = 40\<rparr>]"
proof -
  have start: "search_start circle_graph ''b'' 1000000 =
     \<lparr>dist = [''a'' \<mapsto> max_distance, ''u'' \<mapsto> max_distance, ''b'' \<mapsto> 0],
      hopm = Map.empty, queue = [detour_item ''b'' 1000000 0 0 0 0]\<rparr>"
    by (rule search.equality) (auto simp: search_start_def circle_inbound heap_init_def)
  have loop: "search_loop circle_graph [''u'' \<mapsto> True] ''a'' 1 circle_order 0 (search_start circle_graph ''b'' 1000000) =
     \<lparr>dist = [''a'' \<mapsto> 4, ''u'' \<mapsto> max_distance, ''b'' \<mapsto> 0],
      hopm = [''a'' \<mapsto> \<lparr>hop_channel = detour_channel ''2'' ''a'' ''b'' 4, hop_msat = 1000004, hop_delay = 40\<rparr>],
      queue = []\<rparr>"
    unfolding start
    by (subst search_loop.simps, simp add: detour_steps circle_channels circle_inbound circle_order_def,
        subst search_loop.simps, simp add: detour_steps circle_channels circle_inbound circle_order_def,
        rule ext, simp)
  show ?thesis
    unfolding dijkstra_def loop by (simp add: circle_inbound dist_of_def max_distance_def build_hops.simps)
qed


section \<open>The node and a rebalance\<close>

definition circle_peer :: "string \<Rightarrow> string \<Rightarrow> u64 \<Rightarrow> peer" where
  "circle_peer pid scid to_us = \<lparr>peer_id = pid, peer_connected = True, peer_channels =
     [\<lparr>pc_scid = scid, pc_state = NORMAL, pc_to_us = to_us, pc_total = 1000000000\<rparr>]\<rparr>"

definition circle_node :: "(string \<times> string) list node" where
  "circle_node = refresh_peers [circle_peer ''a'' ''1'' 600000000, circle_peer ''b'' ''3'' 300000000]
     (new_node ''u'' True 300 circle_graph [])"

lemma circle_node_simps [simp]:
  "n_id circle_node = ''u''" "n_graph circle_node = circle_graph" "n_db circle_node = []"
  "n_stopped circle_node = False" "n_save_stats circle_node = True"
  "n_peers circle_node =
     [''a'' \<mapsto> circle_peer ''a'' ''1'' 600000000, ''b'' \<mapsto> circle_peer ''b'' ''3'' 300000000]"
  by (simp_all add: circle_node_def refresh_peers_def new_node_def circle_peer_def)

lemma circle_node_good: "good_node circle_ends circle_node"
  by (simp add: good_node_def circle_reach circle_bolt7)

lemma circle_peers_ok: "peers_ok (n_peers circle_node)" "enumerates [''a'', ''b''] (n_peers circle_node)"
  by (auto simp: peers_ok_def enumerates_def circle_peer_def split: if_splits)

lemma circle_agree: "peers_agree circle_ends circle_node"
  by (auto simp: peers_agree_def circle_ends_def circle_channels channel_key_def get_direction_def
      circle_peer_def split: if_splits)

definition circle_rebalance :: rebalance where
  "circle_rebalance = new_rebalance (detour_channel ''1'' ''u'' ''a'' 0) (detour_channel ''3'' ''b'' ''u'' 5)
     1000000 10 1 3"

lemma circle_rebalance_simps [simp]:
  "rb_out circle_rebalance = detour_channel ''1'' ''u'' ''a'' 0"
  "rb_in circle_rebalance = detour_channel ''3'' ''b'' ''u'' 5"
  "rb_amount circle_rebalance = 1000000" "rb_max_ppm circle_rebalance = 10"
  "rb_attempts circle_rebalance = 1" "rb_max_hops circle_rebalance = 3"
  by (simp_all add: circle_rebalance_def new_rebalance_def)

lemma circle_rebalance_ok: "rebalance_ok circle_rebalance"
  by (simp add: rebalance_ok_def detour_bolt7)

definition circle_env :: "nat \<Rightarrow> attempt_env" where
  "circle_env k = \<lparr>ae_peers = \<lambda>_. [''a'', ''b''], ae_neighbours = circle_order, ae_preimage = [18, 171],
     ae_lite = None, ae_wait = Inr ()\<rparr>"

definition circle_hops :: "route_hop list" where
  "circle_hops =
     [\<lparr>hop_channel = detour_channel ''1'' ''u'' ''a'' 0, hop_msat = 1000009, hop_delay = 224\<rparr>,
      \<lparr>hop_channel = detour_channel ''2'' ''a'' ''b'' 4, hop_msat = 1000005, hop_delay = 184\<rparr>,
      \<lparr>hop_channel = detour_channel ''3'' ''b'' ''u'' 5, hop_msat = 1000000, hop_delay = 144\<rparr>]"

lemma circle_route:
  assumes "n_graph n = circle_graph" and "n_id n = ''u''"
  shows "rebalance_route circle_rebalance 3 circle_order n =
    Ok \<lparr>rt_destination = ''b'', rt_source = ''a'', rt_amount = 1000000, rt_hops = circle_hops\<rparr>"
  using circle_dijkstra assms
  by (simp add: rebalance_route_eq go_int_id full_route_def full_hops_def Let_def route_fee_ppm_def
      route_fee_def INITIAL_DELAY_def circle_hops_def)


text \<open>The first attempt succeeds.\<close>

lemma circle_validate:
  "validate_liquidity_parameters (\<lambda>_. [''a'', ''b'']) circle_rebalance circle_node = Ok ()"
  by (simp add: validate_liquidity_parameters_def get_peer_channel_from_graph_channel_def circle_peer_def
      check_connections_def check_liquidity_def is_peer_connected_def get_channel_peer_from_scid_def)

lemma circle_attempt:
  "\<exists>res n'. run_attempt map_library circle_rebalance 3 (circle_env 0) circle_node = (Ok res, n')
     \<and> res_status res = ''success''"
proof -
  let ?h = "hex_encode [171, 18]"
  let ?route = "\<lparr>rt_destination = ''b'', rt_source = ''a'', rt_amount = 1000000, rt_hops = circle_hops\<rparr>"
  define n1 where "n1 = circle_node\<lparr>n_db := [(?h, hex_encode [18, 171])]\<rparr>"
  have gen: "generate_preimage_hash_pair map_library [18, 171] circle_node = (Inr ?h, n1)"
    by (simp add: generate_preimage_hash_pair_def new_preimage_hash_pair_def Let_def with_db_def
        store_set_def map_library_def n1_def)
  have route: "rebalance_route circle_rebalance 3 circle_order n1 = Ok ?route"
    by (rule circle_route) (simp_all add: n1_def)
  obtain p where p: "new_pretty_route (n_graph n1) ?route ?h = Ok p"
    by (simp add: new_pretty_route_def Let_def circle_hops_def route_fee_def route_fee_ppm_def)
  obtain n2 where "send_pay map_library ?route ?h None (Inr ())
      (snd (node_save map_library (RoutePrefix @ ?h) (json_route map_library p) n1)) = (Ok (), n2)"
    by (simp add: send_pay_def Let_def)
  then have "try_route map_library circle_rebalance 3 (circle_env 0) circle_node = (Ok p, n2)"
    using gen route p by (simp add: try_route_def fire_route_def circle_env_def Let_def)
  then have "run_attempt map_library circle_rebalance 3 (circle_env 0) circle_node =
      (Ok (success_result circle_rebalance (n_graph n2) p), n2)"
    using circle_validate by (simp add: run_attempt_def circle_env_def)
  then show ?thesis by (simp add: success_result_def new_result_def Let_def)
qed

lemma circle_run:
  "\<exists>res n'. run map_library circle_rebalance circle_env (\<lambda>k n. n) circle_node = (Ok res, n')
     \<and> res_status res = ''success'' \<and> db_only circle_node n'"
proof -
  obtain res n' where a: "run_attempt map_library circle_rebalance 3 (circle_env 0) circle_node = (Ok res, n')"
    and "res_status res = ''success''" using circle_attempt by blast
  moreover have "db_only circle_node n'"
    using run_attempt_db [of circle_node map_library circle_rebalance 3 "circle_env 0"] a by simp
  ultimately show ?thesis
    by (simp add: run_def run_loop.simps [of map_library circle_rebalance circle_env "\<lambda>k n. n" 0])
qed

end
