(* ===== verification/Rebalance_Properties.thy ===== *)
theory Rebalance_Properties
  imports Circle
begin

text \<open>
  The properties of a single rebalance: its routes, the checks before a payment, the end of the loop, and the
  two commands that start one.
\<close>

section \<open>Routes\<close>

text \<open>C5. The route of a rebalance is a circle: it leaves through the outgoing channel, comes back through the
  incoming channel to where it started, and passes through us nowhere in between. It has at most the given
  number of hops, delivers exactly the amount with the final timelock, every hop carries what its successor
  needs, and its fee rate is within the limit.\<close>

theorem rebalance_route_circular:
  assumes "graph_reach ends (n_graph n)" and "gossip_bounded (n_graph n)"
    and "unat (rb_amount r) \<le> 2 ^ 40" and "3 \<le> mh" and "mh < 2 ^ 62"
    and "rebalance_route r mh ord n = Ok route"
  shows "hop_path (chan_source (rb_out r)) (rt_hops route) (chan_destination (rb_in r))
    \<and> (\<exists>mid. map hop_channel (rt_hops route) = rb_out r # mid @ [rb_in r] \<and> mid \<noteq> []
         \<and> (\<forall>c \<in> set mid. channels (n_graph n) (channel_id c) = Some c \<and> chan_source c \<noteq> n_id n))
    \<and> int (length (rt_hops route)) \<le> mh
    \<and> forwards (rt_hops route)
    \<and> last (rt_hops route) = \<lparr>hop_channel = rb_in r, hop_msat = rb_amount r, hop_delay = INITIAL_DELAY\<rparr>
    \<and> (\<exists>ppm \<le> rb_max_ppm r. route_fee_ppm route = Ok ppm)"
proof -
  have mh: "go_int (mh - 2) = mh - 2" using assms(4,5) by (intro go_int_id) simp_all
  obtain mid ppm where d: "dijkstra (n_graph n) ord (chan_destination (rb_out r)) (chan_source (rb_in r))
        (rb_amount r) [n_id n \<mapsto> True] (mh - 2) = Ok mid"
    and route: "route = full_route r mid" and mid: "mid \<noteq> []"
    and fee: "route_fee_ppm (full_route r mid) = Ok ppm" and le: "\<not> ppm > rb_max_ppm r"
    using assms(6) by (auto simp: rebalance_route_eq mh go_bind_eq_Ok split: if_splits)
  have f: "found_path (n_graph n) [n_id n \<mapsto> True] (rb_amount r) (chan_destination (rb_out r))
      (chan_source (rb_in r)) (mh - 2) mid"
    using dijkstra_found [OF assms(1-3) d] .
  have "\<forall>c \<in> set (map hop_channel mid). channels (n_graph n) (channel_id c) = Some c \<and> chan_source c \<noteq> n_id n"
    using f priced_bottleneck by (fastforce simp: found_path_def)
  then have "\<exists>mid'. map hop_channel (rt_hops route) = rb_out r # mid' @ [rb_in r] \<and> mid' \<noteq> []
      \<and> (\<forall>c \<in> set mid'. channels (n_graph n) (channel_id c) = Some c \<and> chan_source c \<noteq> n_id n)"
    using mid by (intro exI [of _ "map hop_channel mid"]) (simp add: route)
  moreover have "int (length mid) + 2 \<le> mh" using f assms(4) by (simp add: found_path_def)
  moreover have "hop_path (chan_source (rb_out r)) (rt_hops route) (chan_destination (rb_in r))"
    using f full_hops_path by (simp add: route found_path_def)
  moreover have "\<exists>ppm \<le> rb_max_ppm r. route_fee_ppm route = Ok ppm"
    using fee le by (intro exI [of _ ppm]) (simp add: route not_less)
  ultimately show ?thesis by (simp add: route full_hops_forwards)
qed

theorem rebalance_route_circular_witness:
  "\<exists>route. rebalance_route circle_rebalance 3 circle_order circle_node = Ok route
     \<and> hop_path ''u'' (rt_hops route) ''u'' \<and> length (rt_hops route) \<le> 3"
proof -
  have g: "graph_reach circle_ends (n_graph circle_node)" "gossip_bounded (n_graph circle_node)"
    by (simp_all add: circle_reach circle_bolt7)
  have route: "rebalance_route circle_rebalance 3 circle_order circle_node =
      Ok \<lparr>rt_destination = ''b'', rt_source = ''a'', rt_amount = 1000000, rt_hops = circle_hops\<rparr>"
    by (rule circle_route) simp_all
  from rebalance_route_circular [OF g _ _ _ route] route show ?thesis by auto
qed

text \<open>C20. The limit on the fee rate holds for the fee that is really paid: unless the product with a million
  overflows, the fee stays below the share \<open>(maxppm + 1) / 1000000\<close> of the amount; the division rounds down, so a
  route may exceed the limit by less than 1 ppm.\<close>

theorem fee_limit_holds:
  assumes "rebalance_route r mh ord n = Ok route" and "route_fee route = Ok fee"
    and "unat fee * 1000000 < 2 ^ 64"
  shows "unat fee * 1000000 < (unat (rb_max_ppm r) + 1) * unat (rb_amount r)"
proof -
  obtain mid ppm where route: "route = full_route r mid"
    and fee: "route_fee_ppm (full_route r mid) = Ok ppm" and le: "ppm \<le> rb_max_ppm r"
    using assms(1) by (auto simp: rebalance_route_eq go_bind_eq_Ok not_less split: if_splits)
  have nz: "rb_amount r \<noteq> 0" and ppm: "ppm = (fee * 1000000) div rb_amount r"
    using fee assms(2) by (auto simp: route route_fee_ppm_def split: if_splits)
  have "unat (fee * 1000000) = unat fee * 1000000" using assms(3) by (simp add: unat_mult64)
  then have "unat ppm = unat fee * 1000000 div unat (rb_amount r)" by (simp add: ppm unat_div)
  moreover have "unat ppm \<le> unat (rb_max_ppm r)" using le by (simp add: word_le_nat_alt)
  ultimately have "unat fee * 1000000 div unat (rb_amount r) < unat (rb_max_ppm r) + 1" by simp
  moreover have "0 < unat (rb_amount r)" using nz by (simp add: unat_gt_0)
  ultimately show ?thesis by (simp only: div_less_iff_less_mult)
qed

theorem fee_limit_holds_witness:
  "unat (9 :: u64) * 1000000 < (unat (rb_max_ppm circle_rebalance) + 1) * unat (rb_amount circle_rebalance)"
proof -
  have route: "rebalance_route circle_rebalance 3 circle_order circle_node =
      Ok \<lparr>rt_destination = ''b'', rt_source = ''a'', rt_amount = 1000000, rt_hops = circle_hops\<rparr>"
    by (rule circle_route) simp_all
  from fee_limit_holds [OF route, of 9] show ?thesis by (simp add: route_fee_def circle_hops_def)
qed

section \<open>The checks before a payment\<close>

text \<open>C19. An attempt that touches the database, and so every attempt that sends a payment, runs on a node that is
  not stopped, with both channels in normal state, both peers connected, enough balance of ours in the
  outgoing channel and enough balance of the peer in the incoming one.\<close>

theorem attempt_checks_channels:
  assumes "run_attempt B r mh env n = (out, n')" and "n' \<noteq> n \<or> out = Ok res"
  shows "\<not> n_stopped n \<and> (\<exists>ic oc. pc_scid ic = short_channel_id (rb_in r) \<and> pc_scid oc = short_channel_id (rb_out r)
    \<and> (\<exists>i p. n_peers n i = Some p \<and> ic \<in> set (peer_channels p))
    \<and> (\<exists>i p. n_peers n i = Some p \<and> oc \<in> set (peer_channels p))
    \<and> pc_state ic = NORMAL \<and> pc_state oc = NORMAL
    \<and> is_peer_connected (ae_peers env 2) ic n \<and> is_peer_connected (ae_peers env 3) oc n
    \<and> rb_amount r \<le> pc_total ic - pc_to_us ic \<and> rb_amount r \<le> pc_to_us oc)"
proof -
  have "\<not> n_stopped n" and v: "validate_liquidity_parameters (ae_peers env) r n = Ok ()"
    using assms by (auto simp: run_attempt_def split: if_splits go.splits)
  obtain ic oc where ic: "get_peer_channel_from_graph_channel (ae_peers env 0) (rb_in r) n = Ok ic"
    and oc: "get_peer_channel_from_graph_channel (ae_peers env 1) (rb_out r) n = Ok oc"
    and c: "check_connections (ae_peers env) ic oc n = Ok ()" and l: "check_liquidity (rb_amount r) ic oc = Ok ()"
    using v by (auto simp: validate_liquidity_parameters_def go_bind_eq_Ok)
  have own: "pc_scid c = short_channel_id gc \<and> (\<exists>i p. n_peers n i = Some p \<and> c \<in> set (peer_channels p))"
    if "get_peer_channel_from_graph_channel ord gc n = Ok c" for ord gc c
    using that find_peer_channel_Some
    by (fastforce simp: get_peer_channel_from_graph_channel_def split: option.splits)
  show ?thesis
    using \<open>\<not> n_stopped n\<close> own [OF ic] own [OF oc] c l
    by (auto simp: check_connections_def check_liquidity_def not_less split: if_splits)
qed

theorem attempt_checks_channels_witness:
  "\<exists>out. fst (run_attempt map_library circle_rebalance 3 (circle_env 0) circle_node) = Ok out
     \<and> \<not> n_stopped circle_node
     \<and> (\<exists>oc :: peer_channel. pc_scid oc = ''1'' \<and> pc_state oc = NORMAL \<and> 1000000 \<le> pc_to_us oc)"
proof -
  obtain res n' where run: "run_attempt map_library circle_rebalance 3 (circle_env 0) circle_node = (Ok res, n')"
    using circle_attempt by blast
  have "n' \<noteq> circle_node \<or> Ok res = Ok res" by simp
  note checks = attempt_checks_channels [OF run this]
  then obtain oc :: peer_channel where oc: "pc_scid oc = short_channel_id (rb_out circle_rebalance)" "pc_state oc = NORMAL"
    "rb_amount circle_rebalance \<le> pc_to_us oc" by (elim conjE exE) (rule that)
  have sample: "short_channel_id (rb_out circle_rebalance) = ''1''" "rb_amount circle_rebalance = 1000000" by simp_all
  have "\<not> n_stopped circle_node" using checks by (rule conjunct1)
  moreover have "\<exists>oc :: peer_channel. pc_scid oc = ''1'' \<and> pc_state oc = NORMAL \<and> 1000000 \<le> pc_to_us oc"
    using oc unfolding sample by blast
  ultimately show ?thesis using run by simp
qed

text \<open>A stopped node fires nothing: the rebalance ends after no attempt with a failure that says so, and the
  node is as the other goroutines left it.\<close>

theorem stopped_node_fires_nothing:
  assumes "n_stopped (others 0 n)" and "1 \<le> rb_attempts r" and "3 \<le> rb_max_hops r"
  shows "run B r envs others n = (Ok (failure_result r 1 (error_text ErrCircularStopped)), others 0 n)
    \<and> res_attempts (failure_result r 1 (error_text ErrCircularStopped)) = 0"
  using assms
  by (simp add: run_def run_loop.simps [of B r envs others 0] run_attempt_def is_route_too_expensive_def
      failure_result_def Let_def del: error_text.simps)

theorem stopped_node_fires_nothing_witness:
  "snd (run map_library circle_rebalance circle_env (\<lambda>k n. n) (set_stopped True circle_node))
     = set_stopped True circle_node"
  using stopped_node_fires_nothing [of "\<lambda>k n. n" "set_stopped True circle_node" circle_rebalance]
  by (simp add: set_stopped_def)

section \<open>The loop\<close>

text \<open>A rebalance between two different peers always ends with a result. A success stays within the limits on
  the fee rate, the hops and the attempts, and reports the amount, the peers and the fee of its route; a
  failure reports at most the allowed attempts. It never panics and never runs forever, whatever lightningd answers and
  whatever the other goroutines do in between to a node that they keep good.\<close>

theorem run_returns_result:
  assumes "others_keep (good_node ends) others" and "good_node ends n" and "rebalance_ok r" and "0 \<le> rb_attempts r"
  shows "\<exists>res n'. run B r envs others n = (Ok res, n') \<and> good_node ends n'
    \<and> (success_ok r res \<and> (\<exists>j \<ge> 1. j \<le> rb_attempts r \<and> res_attempts res = word_of_int j)
       \<or> res_status res = ''failure'' \<and> (\<exists>j \<ge> 0. j \<le> rb_attempts r \<and> res_attempts res = word_of_int j))"
  by (rule good.run_outcome [OF assms, of B envs]) blast

theorem run_returns_result_witness:
  "\<exists>res n'. run map_library circle_rebalance circle_env (\<lambda>k n. n) circle_node = (Ok res, n')
     \<and> success_ok circle_rebalance res \<and> res_attempts res = 1"
proof -
  obtain res n' where run: "run map_library circle_rebalance circle_env (\<lambda>k n. n) circle_node = (Ok res, n')"
    and "res_status res = ''success''" using circle_run by blast
  moreover have "others_keep (good_node circle_ends) (\<lambda>k n. n)" by (simp add: others_keep_def)
  ultimately show ?thesis
    using run_returns_result [OF _ circle_node_good circle_rebalance_ok, of "\<lambda>k n. n" map_library circle_env]
    by (auto simp: order_antisym_conv)
qed

text \<open>C35. With both channels at the same peer there is nothing to route: the path finder returns the empty list of
  hops and \<^verbatim>\<open>Prepend\<close> panics on it. The command by node excludes this case, the command by channel does not, so
  a rebalance between two channels with one peer, or of a channel with itself, crashes the plugin.\<close>

theorem same_peer_panics:
  assumes "graph_reach ends (n_graph n)" and "gossip_bounded (n_graph n)" and "badger_total B"
    and "unat (rb_amount r) \<le> 2 ^ 40" and "1 \<le> rb_attempts r" and "3 \<le> rb_max_hops r"
    and "chan_destination (rb_out r) = chan_source (rb_in r)"
    and "inbound (n_graph n) (chan_source (rb_in r)) \<noteq> None"
    and "\<not> n_stopped n" and "validate_liquidity_parameters (ae_peers (envs 0)) r n = Ok ()"
  shows "fst (run B r envs (\<lambda>k n. n) n) = Panic"
proof -
  let ?pair = "new_preimage_hash_pair B (ae_preimage (envs 0))"
  obtain db where db: "store_set B (pair_hash ?pair) (pair_preimage ?pair) (n_db n) = Inr db"
    using badger_totalD [OF assms(3)] .
  define n1 where "n1 = n\<lparr>n_db := db\<rparr>"
  have gen: "generate_preimage_hash_pair B (ae_preimage (envs 0)) n = (Inr (pair_hash ?pair), n1)"
    using db by (simp add: generate_preimage_hash_pair_def with_db_def Let_def n1_def)
  then have n1: "n_graph n1 = n_graph n"
    using db_only_fields(5) [OF db_only_generate [of n B "ae_preimage (envs 0)"]] by simp
  have "dijkstra (n_graph n1) (ae_neighbours (envs 0)) (chan_destination (rb_out r)) (chan_source (rb_in r))
      (rb_amount r) [n_id n1 \<mapsto> True] (go_int (3 - 2)) = Ok []"
    using dijkstra_same [OF graph_reach_ok [OF assms(1)] assms(2,4,8)] assms(7) n1 by simp
  then have "rebalance_route r 3 (ae_neighbours (envs 0)) n1 = Panic" by (simp add: rebalance_route_eq)
  then have "run_attempt B r 3 (envs 0) n = (Panic, n1)"
    using gen assms(9,10) by (simp add: run_attempt_def try_route_def)
  then show ?thesis using assms(5,6) by (simp add: run_def run_loop.simps [of B r envs "\<lambda>k n. n" 0])
qed

theorem same_peer_panics_witness:
  "fst (by_scid_call map_library (\<lambda>_. [''a'', ''b'']) circle_env (\<lambda>k n. n)
     \<lparr>sc_out_scid = ''1'', sc_in_scid = ''1'', sc_amount = 1000, sc_max_ppm = 10, sc_attempts = 1,
      sc_max_hops = 3\<rparr> circle_node) = Panic"
proof -
  let ?r = "new_rebalance (detour_channel ''1'' ''u'' ''a'' 0) (detour_channel ''1'' ''a'' ''u'' 0) 1000000 10 1 3"
  let ?q = "new_rebalance (detour_channel ''1'' ''u'' ''a'' 0) (detour_channel ''1'' ''a'' ''u'' 0) 1000 10 1 3"
  have v: "validate_liquidity_parameters (\<lambda>_. [''a'', ''b'']) ?r circle_node = Ok ()"
    by (simp add: validate_liquidity_parameters_def get_peer_channel_from_graph_channel_def
        new_rebalance_def circle_peer_def check_connections_def check_liquidity_def is_peer_connected_def
        get_channel_peer_from_scid_def)
  have su: "rebalance_setup (\<lambda>_. [''a'', ''b'']) ?q circle_node = Ok ?r"
    using v by (simp add: rebalance_setup_def set_defaults_def new_rebalance_def Let_def)
  have call: "by_scid_call map_library (\<lambda>_. [''a'', ''b'']) circle_env (\<lambda>k n. n)
     \<lparr>sc_out_scid = ''1'', sc_in_scid = ''1'', sc_amount = 1000, sc_max_ppm = 10, sc_attempts = 1,
      sc_max_hops = 3\<rparr> circle_node = run map_library ?r circle_env (\<lambda>k n. n) circle_node"
    using su by (simp add: by_scid_call_def get_outgoing_channel_from_scid_def
        get_incoming_channel_from_scid_def get_channel_peer_from_scid_def circle_peer_def get_channel_def
        circle_channels get_direction_def setup_and_run_def)
  have "fst (run map_library ?r circle_env (\<lambda>k n. n) circle_node) = Panic"
    using v by (intro same_peer_panics [of circle_ends] map_library_total)
      (simp_all add: circle_reach circle_bolt7 new_rebalance_def circle_inbound
        circle_env_def)
  then show ?thesis by (simp add: call)
qed

end
