(* ===== verification/Parallel.thy ===== *)
theory Parallel
  imports Rebalance_Sound
begin

text \<open>
  \<^verbatim>\<open>rebalance/parallel/\<close>: a pull fills one of our channels from many others, a push empties one into many others.
  Both split the amount and keep several rebalances of one split each in flight. What they share works on an
  \<open>abstract_rebalance\<close> and calls the six functions of the interface \<^verbatim>\<open>RebalanceMethods\<close>, which is a record of
  functions here as it is a method table in Go.

  Every rebalance in flight runs in its own goroutine, which ends by sending the result to the main one. What
  the main goroutine finds when it receives is a record \<open>wake\<close>: which goroutine ended, what the rebalance met
  while it ran, and what the other goroutines did to the node in the meantime.
\<close>

section \<open>Parameters\<close>

record settings =
  ab_amount :: u64
  ab_max_ppm :: u64
  ab_splits :: int
  ab_split_amount :: u64
  ab_attempts :: int
  ab_max_hops :: int

definition PAR_AMOUNT :: u64 where "PAR_AMOUNT = 400000"
definition PAR_SPLITS :: int where "PAR_SPLITS = 4"
definition PAR_SPLIT_AMOUNT :: u64 where "PAR_SPLIT_AMOUNT = 100000"

text \<open>The product with 1000 turns sats into msats and wraps around.\<close>

definition set_generic_defaults :: "settings \<Rightarrow> settings" where
  "set_generic_defaults s =
     (let s = (if ab_amount s = 0 then s\<lparr>ab_amount := PAR_AMOUNT\<rparr> else s);
          s = (if ab_splits s = 0 then s\<lparr>ab_splits := PAR_SPLITS\<rparr> else s);
          s = (if ab_split_amount s = 0 then s\<lparr>ab_split_amount := PAR_SPLIT_AMOUNT\<rparr> else s);
          s = (if ab_max_ppm s = 0 then s\<lparr>ab_max_ppm := DEFAULT_MAXPPM\<rparr> else s);
          s = (if ab_attempts s \<le> 0 then s\<lparr>ab_attempts := DEFAULT_ATTEMPTS\<rparr> else s);
          s = (if ab_max_hops s \<le> 0 then s\<lparr>ab_max_hops := DEFAULT_MAXHOPS\<rparr> else s);
          s = s\<lparr>ab_amount := ab_amount s * 1000\<rparr>
      in s\<lparr>ab_split_amount := ab_split_amount s * 1000\<rparr>)"

text \<open>\<^verbatim>\<open>Init\<close>, as far as it concerns the parameters.\<close>

definition init_settings :: "u64 \<Rightarrow> u64 \<Rightarrow> u64 \<Rightarrow> int \<Rightarrow> int \<Rightarrow> int \<Rightarrow> settings" where
  "init_settings amount maxppm splitamount splits attempts maxhops =
     set_generic_defaults \<lparr>ab_amount = amount, ab_max_ppm = maxppm, ab_splits = splits,
       ab_split_amount = splitamount, ab_attempts = attempts, ab_max_hops = maxhops\<rparr>"

definition validate_generic_parameters :: "settings \<Rightarrow> unit res" where
  "validate_generic_parameters s =
     (if ab_amount s < ab_split_amount s then Err ErrAmountLessThanSplitAmount
      else if ab_split_amount s = 0 then Panic
      else if ab_amount s mod ab_split_amount s \<noteq> 0 then Err ErrAmountNotMultipleOfSplitAmount
      else Ok ())"

section \<open>Results\<close>

text \<open>For each fee rate the sats that were moved at that rate.\<close>

type_synonym success = "u64 \<rightharpoonup> u64"

record par_result =
  pt_target :: u64
  pt_rebalanced :: u64
  pt_attempts :: u64
  pt_time :: string
  pt_successes :: "string \<rightharpoonup> success"

definition new_par_result :: "u64 \<Rightarrow> par_result" where
  "new_par_result target =
     \<lparr>pt_target = target div 1000, pt_rebalanced = 0, pt_attempts = 0, pt_time = [], pt_successes = Map.empty\<rparr>"

definition add_success_generic :: "string \<Rightarrow> u64 \<Rightarrow> u64 \<Rightarrow> par_result \<Rightarrow> par_result" where
  "add_success_generic alias ppm amount p =
     (let p = p\<lparr>pt_rebalanced := pt_rebalanced p + amount\<rparr>;
          s = (case pt_successes p alias of None \<Rightarrow> Map.empty | Some s \<Rightarrow> s);
          s = (if s ppm = None then s(ppm \<mapsto> 0) else s)
      in p\<lparr>pt_successes := (pt_successes p)(alias \<mapsto> s(ppm \<mapsto> go_get 0 s ppm + amount))\<rparr>)"

section \<open>State and interface\<close>

record abstract_rebalance = settings +
  ab_total_attempts :: u64
  ab_target :: channel
  ab_candidates :: "channel list"
  ab_rebalanced :: u64
  ab_in_flight :: u64
  ab_result :: par_result

text \<open>The methods get what they read of the receiver: the settings, the target, the queue, the result.\<close>

record 'd methods =
  m_is_good_candidate :: "(nat \<Rightarrow> string list) \<Rightarrow> settings \<Rightarrow> peer_channel \<Rightarrow> 'd node \<Rightarrow> bool res"
  m_can_use_channel :: "string list \<Rightarrow> peer_channel \<Rightarrow> 'd node \<Rightarrow> unit res"
  m_fire :: "channel \<Rightarrow> settings \<Rightarrow> channel \<Rightarrow> rebalance"
  m_enqueue_candidate :: "string list \<Rightarrow> result \<Rightarrow> 'd node \<Rightarrow> channel list \<Rightarrow> channel list res"
  m_candidate_direction :: "string \<Rightarrow> 'd node \<Rightarrow> string"
  m_add_success :: "result \<Rightarrow> 'd node \<Rightarrow> par_result \<Rightarrow> par_result"

section \<open>Candidates\<close>

definition get_candidates_list :: "string list \<Rightarrow> string list option \<Rightarrow> 'd node \<Rightarrow> peer list" where
  "get_candidates_list ord candidates_list n = (case candidates_list of
     None \<Rightarrow> get_map_values ord (n_peers n)
   | Some l \<Rightarrow> List.map_filter (n_peers n) l)"

text \<open>
  \<open>ords scid k\<close> is the order of the \<open>k\<close>-th loop over the peers while the channel \<open>scid\<close> is looked at. A good
  candidate that the graph does not know is skipped.

  The search holds the lock of the peers for reading, and each of those lookups takes it for reading once more.
  \<open>waits scid\<close> says that at one of the lookups for \<open>scid\<close> a writer of the peers has announced itself since the
  search began (\<^verbatim>\<open>RWMutex\<close> admits no new reader then): the lookup waits for the writer and the writer for the search.
\<close>

fun peer_candidates ::
  "'d methods \<Rightarrow> (string \<Rightarrow> nat \<Rightarrow> string list) \<Rightarrow> (string \<Rightarrow> bool) \<Rightarrow> settings \<Rightarrow> 'd node \<Rightarrow> string
     \<Rightarrow> peer_channel list \<Rightarrow> channel list res" where
  "peer_candidates M ords waits s n pid [] = Ok []"
| "peer_candidates M ords waits s n pid (c # cs) =
     (if waits (pc_scid c) then Hang
      else go_bind (m_is_good_candidate M (ords (pc_scid c)) s c n) (\<lambda>good.
           go_bind (peer_candidates M ords waits s n pid cs) (\<lambda>rest.
             Ok (if good
                 then case get_graph_channel_from_peer_channel c (m_candidate_direction M pid n) n of
                        Ok candidate \<Rightarrow> candidate # rest | _ \<Rightarrow> rest
                 else rest))))"

fun all_candidates ::
  "'d methods \<Rightarrow> (string \<Rightarrow> nat \<Rightarrow> string list) \<Rightarrow> (string \<Rightarrow> bool) \<Rightarrow> settings \<Rightarrow> 'd node \<Rightarrow> string
     \<Rightarrow> peer list \<Rightarrow> channel list res" where
  "all_candidates M ords waits s n exclude [] = Ok []"
| "all_candidates M ords waits s n exclude (p # ps) =
     (if peer_id p = exclude then all_candidates M ords waits s n exclude ps
      else go_bind (peer_candidates M ords waits s n (peer_id p) (peer_channels p)) (\<lambda>cs.
           go_bind (all_candidates M ords waits s n exclude ps) (\<lambda>rest. Ok (cs @ rest))))"

definition find_candidates ::
  "'d methods \<Rightarrow> string list \<Rightarrow> (string \<Rightarrow> nat \<Rightarrow> string list) \<Rightarrow> (string \<Rightarrow> bool) \<Rightarrow> settings
     \<Rightarrow> string list option \<Rightarrow> string \<Rightarrow> 'd node \<Rightarrow> channel list res" where
  "find_candidates M ord ords waits s candidates_list exclude n =
     go_bind (all_candidates M ords waits s n exclude (get_candidates_list ord candidates_list n)) (\<lambda>cs.
       if cs = [] then Err ErrNoCandidates else Ok cs)"

text \<open>The orders of the two loops over the peers while so many candidates are left in the queue.\<close>

record round_env =
  ro_find :: "nat \<Rightarrow> string list"
  ro_connected :: "nat \<Rightarrow> string list"

fun get_next_candidate ::
  "'d methods \<Rightarrow> round_env \<Rightarrow> 'd node \<Rightarrow> channel list \<Rightarrow> (channel \<times> channel list) option" where
  "get_next_candidate M env n [] = None"
| "get_next_candidate M env n (c # cs) =
     (case go_bind (get_peer_channel_from_graph_channel (ro_find env (length cs)) c n)
             (\<lambda>pc. m_can_use_channel M (ro_connected env (length cs)) pc n) of
        Ok _ \<Rightarrow> Some (c, cs)
      | _ \<Rightarrow> get_next_candidate M env n cs)"

section \<open>Firing\<close>

definition carry_on :: "abstract_rebalance \<Rightarrow> bool" where
  "carry_on a \<longleftrightarrow> ab_rebalanced a + ab_in_flight a < ab_amount a"

definition splits_in_flight :: "abstract_rebalance \<Rightarrow> int" where
  "splits_in_flight a = sint (ab_in_flight a div ab_split_amount a)"

lemma get_next_candidate_shorter:
  "get_next_candidate M env n cs = Some (c, rest) \<Longrightarrow> length rest < length cs"
  by (induction cs) (auto split: go.splits)

text \<open>The goroutines that are started are returned as the rebalances they run.\<close>

function fire_loop ::
  "'d methods \<Rightarrow> round_env \<Rightarrow> 'd node \<Rightarrow> abstract_rebalance \<Rightarrow> abstract_rebalance \<times> rebalance list" where
  "fire_loop M env n a =
     (if carry_on a \<and> splits_in_flight a < ab_splits a
      then case get_next_candidate M env n (ab_candidates a) of
             None \<Rightarrow> (a\<lparr>ab_candidates := []\<rparr>, [])
           | Some (c, rest) \<Rightarrow>
               let (a', fired) = fire_loop M env n
                     (a\<lparr>ab_candidates := rest, ab_in_flight := ab_in_flight a + ab_split_amount a\<rparr>)
               in (a', m_fire M (ab_target a) (settings.truncate a) c # fired)
      else (a, []))"
  by pat_completeness auto
termination
  by (relation "measure (\<lambda>(M, env, n, a). length (ab_candidates a))")
    (auto dest: get_next_candidate_shorter)

declare fire_loop.simps [simp del]

definition fire_candidates ::
  "'d methods \<Rightarrow> round_env \<Rightarrow> 'd node \<Rightarrow> abstract_rebalance \<Rightarrow> (abstract_rebalance \<times> rebalance list) res" where
  "fire_candidates M env n a = (if ab_split_amount a = 0 then Panic else Ok (fire_loop M env n a))"

section \<open>Waiting for results\<close>

definition update_amounts ::
  "result \<Rightarrow> abstract_rebalance \<Rightarrow> 'd node \<Rightarrow> (abstract_rebalance \<times> 'd node) res" where
  "update_amounts result a n =
     (let a1 = a\<lparr>ab_in_flight := ab_in_flight a - ab_split_amount a\<rparr>
      in if res_status result = ''success''
         then let a2 = a1\<lparr>ab_rebalanced := ab_rebalanced a1 + ab_split_amount a1\<rparr>
              in case res_route result of
                   None \<Rightarrow> Panic
                 | Some route \<Rightarrow>
                     if pr_hops route = [] then Panic
                     else go_bind (update_channel_balance (res_out result) (res_in result)
                            (ph_scid (hd (pr_hops route))) (ph_scid (last (pr_hops route)))
                            (res_amount result) n) (\<lambda>n'. Ok (a2, n'))
         else Ok (a1, n))"

record 'd wake =
  wk_pick :: nat
  wk_envs :: "nat \<Rightarrow> attempt_env"
  wk_others :: "nat \<Rightarrow> 'd node \<Rightarrow> 'd node"
  wk_after :: "'d node \<Rightarrow> 'd node"
  wk_enqueue :: "string list"
  wk_round :: round_env

text \<open>
  One turn of the loop in \<^verbatim>\<open>WaitForResult\<close>: goroutine number \<open>wk_pick\<close> (modulo the number of those that run)
  has ended and its result is received. The result is booked, a candidate that worked goes back to the
  front of the queue, and new rebalances are fired.
\<close>

definition book_result ::
  "'d methods \<Rightarrow> string list \<Rightarrow> result \<Rightarrow> abstract_rebalance \<Rightarrow> 'd node \<Rightarrow> abstract_rebalance res" where
  "book_result M ord result a n =
     (let a = a\<lparr>ab_total_attempts := ab_total_attempts a + res_attempts result\<rparr>
      in if res_status result = ''success''
         then let a = a\<lparr>ab_result := m_add_success M result n (ab_result a)\<rparr>
              in go_bind (m_enqueue_candidate M ord result n (ab_candidates a))
                   (\<lambda>cs. Ok (a\<lparr>ab_candidates := cs\<rparr>))
         else Ok a)"

definition handle_result ::
  "'d methods \<Rightarrow> 'd wake \<Rightarrow> result \<Rightarrow> abstract_rebalance \<Rightarrow> 'd node
     \<Rightarrow> (abstract_rebalance \<times> rebalance list \<times> 'd node) res" where
  "handle_result M w result a n =
     go_bind (book_result M (wk_enqueue w) result a n) (\<lambda>a1.
     go_bind (update_amounts result a1 n) (\<lambda>(a2, n').
     go_bind (fire_candidates M (wk_round w) n' a2) (\<lambda>(a3, fired). Ok (a3, fired, n'))))"

definition receive ::
  "'d library \<Rightarrow> 'd wake \<Rightarrow> rebalance list \<Rightarrow> 'd node \<Rightarrow> result res \<times> rebalance list \<times> 'd node" where
  "receive B w running n =
     (let i = wk_pick w mod length running;
          (result, n') = run B (running ! i) (wk_envs w) (wk_others w) n
      in (result, take i running @ drop (Suc i) running, wk_after w n'))"

text \<open>
  The loop ends when nothing is in flight. If something were in flight and no goroutine left, or if a
  goroutine never ended, it would wait forever. \<open>None\<close> is a loop with infinitely many turns.
\<close>

partial_function (option) wait_loop ::
  "'d methods \<Rightarrow> 'd library \<Rightarrow> (nat \<Rightarrow> 'd wake) \<Rightarrow> nat \<Rightarrow> rebalance list \<Rightarrow> abstract_rebalance \<Rightarrow> 'd node
     \<Rightarrow> (abstract_rebalance \<times> 'd node) res option" where
  [code]: "wait_loop M B wakes k running a n =
     (if ab_in_flight a = 0 then Some (Ok (a, n))
      else if running = [] then Some Hang
      else case receive B (wakes k) running n of
             (Err e, _, _) \<Rightarrow> Some (Err e)
           | (Panic, _, _) \<Rightarrow> Some Panic
           | (Hang, _, _) \<Rightarrow> Some Hang
           | (Ok result, rest, n1) \<Rightarrow>
               (case handle_result M (wakes k) result a n1 of
                  Err e \<Rightarrow> Some (Err e)
                | Panic \<Rightarrow> Some Panic
                | Hang \<Rightarrow> Some Hang
                | Ok (a', fired, n') \<Rightarrow> wait_loop M B wakes (Suc k) (rest @ fired) a' n'))"

text \<open>The states in which the loop can receive, whatever it is woken with; \<open>good\<close> restricts the wakes.\<close>

inductive turns ::
  "('d wake \<Rightarrow> bool) \<Rightarrow> 'd methods \<Rightarrow> 'd library \<Rightarrow> rebalance list \<times> abstract_rebalance \<times> 'd node
     \<Rightarrow> rebalance list \<times> abstract_rebalance \<times> 'd node \<Rightarrow> bool"
  for good M B st where
  turns_refl: "turns good M B st st"
| turns_step: "turns good M B st (running, a, n) \<Longrightarrow> ab_in_flight a \<noteq> 0 \<Longrightarrow> running \<noteq> [] \<Longrightarrow> good w \<Longrightarrow>
     receive B w running n = (Ok result, rest, n1) \<Longrightarrow>
     handle_result M w result a n1 = Ok (a', fired, n') \<Longrightarrow>
     turns good M B st (rest @ fired, a', n')"

inductive_cases turns_stepE: "turns good M B st (running, a, n)"

text \<open>\<open>elapsed\<close> is the duration in milliseconds.\<close>

definition wait_for_result ::
  "'d methods \<Rightarrow> 'd library \<Rightarrow> (nat \<Rightarrow> 'd wake) \<Rightarrow> u64 \<Rightarrow> rebalance list \<Rightarrow> abstract_rebalance \<Rightarrow> 'd node
     \<Rightarrow> (par_result \<times> 'd node) res option" where
  "wait_for_result M B wakes elapsed running a n =
     map_option (\<lambda>out. go_bind out (\<lambda>(a', n').
         Ok ((ab_result a')\<lparr>pt_attempts := ab_total_attempts a', pt_time := fmt_sats elapsed @ ''s''\<rparr>, n')))
       (wait_loop M B wakes 0 running (a\<lparr>ab_result := new_par_result (ab_amount a)\<rparr>) n)"

end
