(* ===== verification/PullPush.thy ===== *)
theory PullPush
  imports Parallel
begin

text \<open>
  \<^verbatim>\<open>rebalance/parallel/pull.go\<close> and \<^verbatim>\<open>push.go\<close>: the two commands, each with its parameters, its implementation
  of \<^verbatim>\<open>RebalanceMethods\<close>, and its call. A list of peers that is absent from the command is \<open>None\<close> (a nil slice),
  an empty one is not.
\<close>

section \<open>Pull\<close>

definition DEFAULT_MAX_OUT_PPM :: u64 where "DEFAULT_MAX_OUT_PPM = 50"
definition DEFAULT_DEPLETE_UP_TO_PERCENT :: f64 where "DEFAULT_DEPLETE_UP_TO_PERCENT = f64_0_2"
definition DEFAULT_DEPLETE_UP_TO_AMOUNT :: u64 where "DEFAULT_DEPLETE_UP_TO_AMOUNT = 1000000"

record pull =
  pl_in_scid :: string
  pl_out_list :: "string list option"
  pl_max_out_ppm :: u64
  pl_amount :: u64
  pl_max_ppm :: u64
  pl_splits :: int
  pl_split_amount :: u64
  pl_deplete_percent :: f64
  pl_deplete_amount :: u64
  pl_attempts :: int
  pl_max_hops :: int

definition pull_set_defaults :: "pull \<Rightarrow> pull" where
  "pull_set_defaults p =
     (let p = (if f64_le_zero (pl_deplete_percent p)
               then p\<lparr>pl_deplete_percent := DEFAULT_DEPLETE_UP_TO_PERCENT\<rparr> else p);
          p = (if pl_deplete_amount p = 0 then p\<lparr>pl_deplete_amount := DEFAULT_DEPLETE_UP_TO_AMOUNT\<rparr> else p);
          p = (if pl_max_out_ppm p = 0 then p\<lparr>pl_max_out_ppm := DEFAULT_MAX_OUT_PPM\<rparr> else p)
      in p\<lparr>pl_deplete_amount := pl_deplete_amount p * 1000\<rparr>)"

definition pull_validate :: "pull \<Rightarrow> settings \<Rightarrow> unit res" where
  "pull_validate p s =
     go_bind (validate_generic_parameters s) (\<lambda>_.
       if f64_gt_one (pl_deplete_percent p) \<or> f64_lt_zero (pl_deplete_percent p)
       then Err ErrDepleteUpToPercentInvalid else Ok ())"

definition pull_is_good_candidate ::
  "pull \<Rightarrow> (nat \<Rightarrow> string list) \<Rightarrow> settings \<Rightarrow> peer_channel \<Rightarrow> 'd node \<Rightarrow> bool res" where
  "pull_is_good_candidate p ords s c n =
     (case get_outgoing_channel_from_scid (ords 0) (pc_scid c) n of
        Ok outgoing \<Rightarrow> go_bind (compute_fee_ppm outgoing (ab_split_amount s)) (\<lambda>ppm. Ok (ppm < pl_max_out_ppm p))
      | Err e \<Rightarrow> Ok False | Panic \<Rightarrow> Panic | Hang \<Rightarrow> Hang)"

definition deplete_threshold :: "pull \<Rightarrow> peer_channel \<Rightarrow> u64" where
  "deplete_threshold p c = go_min (pl_deplete_amount p) (mul_trunc (pc_total c) (pl_deplete_percent p))"

definition pull_can_use_channel :: "pull \<Rightarrow> string list \<Rightarrow> peer_channel \<Rightarrow> 'd node \<Rightarrow> unit res" where
  "pull_can_use_channel p ord c n =
     (if pc_to_us c < deplete_threshold p c then Err ErrChannelDepleted
      else if pc_state c \<noteq> NORMAL then Err ErrChannelNotInNormalState
      else if \<not> is_peer_connected ord c n then Err ErrOutgoingPeerDisconnected
      else Ok ())"

definition pull_fire :: "channel \<Rightarrow> settings \<Rightarrow> channel \<Rightarrow> rebalance" where
  "pull_fire target s candidate =
     new_rebalance candidate target (ab_split_amount s) (ab_max_ppm s) (ab_attempts s) (ab_max_hops s)"

text \<open>A result without a route is a nil pointer, a route without hops an empty slice: both panic.\<close>

definition result_scids :: "result \<Rightarrow> string list res" where
  "result_scids result = (case res_route result of
     None \<Rightarrow> Panic
   | Some route \<Rightarrow> if pr_hops route = [] then Panic else Ok (map ph_scid (pr_hops route)))"

definition pull_enqueue_candidate ::
  "string list \<Rightarrow> result \<Rightarrow> 'd node \<Rightarrow> channel list \<Rightarrow> channel list res" where
  "pull_enqueue_candidate ord result n cs =
     go_bind (result_scids result) (\<lambda>scids.
       case get_outgoing_channel_from_scid ord (hd scids) n of
         Ok candidate \<Rightarrow> Ok (candidate # cs)
       | Err e \<Rightarrow> Ok cs | Panic \<Rightarrow> Panic | Hang \<Rightarrow> Hang)"

definition pull_candidate_direction :: "string \<Rightarrow> 'd node \<Rightarrow> string" where
  "pull_candidate_direction pid n = get_direction (n_id n) pid"

definition alias_or_unknown :: "graph \<Rightarrow> string \<Rightarrow> string" where
  "alias_or_unknown g pid = (case aliases g pid of Some alias \<Rightarrow> alias | None \<Rightarrow> ''unknown'')"

definition pull_add_success :: "result \<Rightarrow> 'd node \<Rightarrow> par_result \<Rightarrow> par_result" where
  "pull_add_success result n =
     add_success_generic (alias_or_unknown (n_graph n) (res_out result)) (res_ppm result) (res_amount result)"

definition pull_methods :: "pull \<Rightarrow> 'd methods" where
  "pull_methods p = \<lparr>
     m_is_good_candidate = pull_is_good_candidate p,
     m_can_use_channel = pull_can_use_channel p,
     m_fire = pull_fire,
     m_enqueue_candidate = pull_enqueue_candidate,
     m_candidate_direction = pull_candidate_direction,
     m_add_success = pull_add_success\<rparr>"

section \<open>Push\<close>

definition DEFAULT_MIN_OUT_PPM :: u64 where "DEFAULT_MIN_OUT_PPM = 50"
definition DEFAULT_FILL_UP_TO_PERCENT :: f64 where "DEFAULT_FILL_UP_TO_PERCENT = f64_0_8"
definition DEFAULT_FILL_UP_TO_AMOUNT :: u64 where "DEFAULT_FILL_UP_TO_AMOUNT = 10000000"

record push =
  ps_out_scid :: string
  ps_in_list :: "string list option"
  ps_min_out_ppm :: u64
  ps_amount :: u64
  ps_max_ppm :: u64
  ps_splits :: int
  ps_split_amount :: u64
  ps_attempts :: int
  ps_max_hops :: int
  ps_fill_percent :: f64
  ps_fill_amount :: u64

definition push_set_defaults :: "push \<Rightarrow> push" where
  "push_set_defaults p =
     (let p = (if ps_min_out_ppm p = 0 then p\<lparr>ps_min_out_ppm := DEFAULT_MIN_OUT_PPM\<rparr> else p);
          p = (if f64_le_zero (ps_fill_percent p)
               then p\<lparr>ps_fill_percent := DEFAULT_FILL_UP_TO_PERCENT\<rparr> else p);
          p = (if ps_fill_amount p = 0 then p\<lparr>ps_fill_amount := DEFAULT_FILL_UP_TO_AMOUNT\<rparr> else p)
      in p\<lparr>ps_fill_amount := ps_fill_amount p * 1000\<rparr>)"

definition push_validate :: "push \<Rightarrow> settings \<Rightarrow> unit res" where
  "push_validate p s =
     go_bind (validate_generic_parameters s) (\<lambda>_.
       if f64_gt_one (ps_fill_percent p) \<or> f64_lt_zero (ps_fill_percent p)
       then Err ErrDepleteUpToPercentInvalid else Ok ())"

definition push_is_good_candidate ::
  "push \<Rightarrow> (nat \<Rightarrow> string list) \<Rightarrow> settings \<Rightarrow> peer_channel \<Rightarrow> 'd node \<Rightarrow> bool res" where
  "push_is_good_candidate p ords s c n =
     (case get_incoming_channel_from_scid (ords 0) (pc_scid c) n of
        Ok incoming \<Rightarrow> go_bind (compute_fee_ppm incoming (ab_split_amount s)) (\<lambda>in_ppm.
          if in_ppm > ab_max_ppm s then Ok False
          else case get_outgoing_channel_from_scid (ords 1) (pc_scid c) n of
                 Ok outgoing \<Rightarrow>
                   go_bind (compute_fee_ppm outgoing (ab_split_amount s)) (\<lambda>ppm. Ok (ppm > ps_min_out_ppm p))
               | Err e \<Rightarrow> Ok False | Panic \<Rightarrow> Panic | Hang \<Rightarrow> Hang)
      | Err e \<Rightarrow> Ok False | Panic \<Rightarrow> Panic | Hang \<Rightarrow> Hang)"

definition fill_threshold :: "push \<Rightarrow> peer_channel \<Rightarrow> u64" where
  "fill_threshold p c = go_min (ps_fill_amount p) (mul_trunc (pc_total c) (ps_fill_percent p))"

definition push_can_use_channel :: "push \<Rightarrow> string list \<Rightarrow> peer_channel \<Rightarrow> 'd node \<Rightarrow> unit res" where
  "push_can_use_channel p ord c n =
     (if pc_total c - pc_to_us c < fill_threshold p c then Err ErrChannelFilled
      else if pc_state c \<noteq> NORMAL then Err ErrChannelNotInNormalState
      else if \<not> is_peer_connected ord c n then Err ErrIncomingPeerDisconnected
      else Ok ())"

definition push_fire :: "channel \<Rightarrow> settings \<Rightarrow> channel \<Rightarrow> rebalance" where
  "push_fire target s candidate =
     new_rebalance target candidate (ab_split_amount s) (ab_max_ppm s) (ab_attempts s) (ab_max_hops s)"

definition push_enqueue_candidate ::
  "string list \<Rightarrow> result \<Rightarrow> 'd node \<Rightarrow> channel list \<Rightarrow> channel list res" where
  "push_enqueue_candidate ord result n cs =
     go_bind (result_scids result) (\<lambda>scids.
       case get_incoming_channel_from_scid ord (last scids) n of
         Ok candidate \<Rightarrow> Ok (candidate # cs)
       | Err e \<Rightarrow> Ok cs | Panic \<Rightarrow> Panic | Hang \<Rightarrow> Hang)"

definition push_candidate_direction :: "string \<Rightarrow> 'd node \<Rightarrow> string" where
  "push_candidate_direction pid n = get_direction pid (n_id n)"

definition push_add_success :: "result \<Rightarrow> 'd node \<Rightarrow> par_result \<Rightarrow> par_result" where
  "push_add_success result n =
     add_success_generic (alias_or_unknown (n_graph n) (res_in result)) (res_ppm result) (res_amount result)"

definition push_methods :: "push \<Rightarrow> 'd methods" where
  "push_methods p = \<lparr>
     m_is_good_candidate = push_is_good_candidate p,
     m_can_use_channel = push_can_use_channel p,
     m_fire = push_fire,
     m_enqueue_candidate = push_enqueue_candidate,
     m_candidate_direction = push_candidate_direction,
     m_add_success = push_add_success\<rparr>"

section \<open>The calls\<close>

text \<open>
  What a call meets: the orders of its loops over the peers, the writers of the peers that announce themselves while
  it searches for candidates, and what happens while it waits for its rebalances.
\<close>

record 'd call_env =
  ce_target :: "string list"
  ce_peers :: "string list"
  ce_good :: "string \<Rightarrow> nat \<Rightarrow> string list"
  ce_writer :: "string \<Rightarrow> bool"
  ce_round :: round_env
  ce_wakes :: "nat \<Rightarrow> 'd wake"
  ce_elapsed :: u64

text \<open>The second half of \<^verbatim>\<open>Call\<close>, the same in both commands once the target is known.\<close>

definition start_rebalance :: "settings \<Rightarrow> channel \<Rightarrow> channel list \<Rightarrow> abstract_rebalance" where
  "start_rebalance s target candidates =
     settings.extend s (abstract_rebalance.fields 0 target candidates 0 0 (new_par_result 0))"

definition fire_and_wait ::
  "'d methods \<Rightarrow> 'd library \<Rightarrow> 'd call_env \<Rightarrow> abstract_rebalance \<Rightarrow> 'd node \<Rightarrow> (par_result \<times> 'd node) res option" where
  "fire_and_wait M B env a n = (case fire_candidates M (ce_round env) n a of
     Ok (a', fired) \<Rightarrow> wait_for_result M B (ce_wakes env) (ce_elapsed env) fired a' n
   | Err e \<Rightarrow> Some (Err e) | Panic \<Rightarrow> Some Panic | Hang \<Rightarrow> Some Hang)"

definition pull_prepare ::
  "'d call_env \<Rightarrow> pull \<Rightarrow> 'd node \<Rightarrow> (pull \<times> abstract_rebalance) res" where
  "pull_prepare env p n =
     (if pl_in_scid p = [] then Err ErrNoRequiredParameter
      else let s = init_settings (pl_amount p) (pl_max_ppm p) (pl_split_amount p) (pl_splits p)
                     (pl_attempts p) (pl_max_hops p);
               p = (if pl_out_list p \<noteq> None then p\<lparr>pl_max_out_ppm := 2 ^ 63\<rparr> else p);
               p = pull_set_defaults p
           in go_bind (pull_validate p s) (\<lambda>_.
              go_bind (get_incoming_channel_from_scid (ce_target env) (pl_in_scid p) n) (\<lambda>target.
              go_bind (find_candidates (pull_methods p) (ce_peers env) (ce_good env) (ce_writer env) s (pl_out_list p)
                         (chan_source target) n) (\<lambda>candidates.
                Ok (p, start_rebalance s target candidates)))))"

definition pull_call ::
  "'d library \<Rightarrow> 'd call_env \<Rightarrow> pull \<Rightarrow> 'd node \<Rightarrow> (par_result \<times> 'd node) res option" where
  "pull_call B env p n = (case pull_prepare env p n of
     Ok (p', a) \<Rightarrow> fire_and_wait (pull_methods p') B env a n
   | Err e \<Rightarrow> Some (Err e) | Panic \<Rightarrow> Some Panic | Hang \<Rightarrow> Some Hang)"

definition push_prepare ::
  "'d call_env \<Rightarrow> push \<Rightarrow> 'd node \<Rightarrow> (push \<times> abstract_rebalance) res" where
  "push_prepare env p n =
     (if ps_out_scid p = [] then Err ErrNoRequiredParameter
      else let s = init_settings (ps_amount p) (ps_max_ppm p) (ps_split_amount p) (ps_splits p)
                     (ps_attempts p) (ps_max_hops p);
               p = (if ps_in_list p \<noteq> None then p\<lparr>ps_min_out_ppm := 0\<rparr> else p);
               p = push_set_defaults p
           in go_bind (push_validate p s) (\<lambda>_.
              go_bind (get_outgoing_channel_from_scid (ce_target env) (ps_out_scid p) n) (\<lambda>target.
              go_bind (find_candidates (push_methods p) (ce_peers env) (ce_good env) (ce_writer env) s (ps_in_list p)
                         (chan_destination target) n) (\<lambda>candidates.
                Ok (p, start_rebalance s target candidates)))))"

definition push_call ::
  "'d library \<Rightarrow> 'd call_env \<Rightarrow> push \<Rightarrow> 'd node \<Rightarrow> (par_result \<times> 'd node) res option" where
  "push_call B env p n = (case push_prepare env p n of
     Ok (p', a) \<Rightarrow> fire_and_wait (push_methods p') B env a n
   | Err e \<Rightarrow> Some (Err e) | Panic \<Rightarrow> Some Panic | Hang \<Rightarrow> Some Hang)"

end
