(* ===== verification/Parallel_Sound.thy ===== *)
theory Parallel_Sound
  imports Parallel
begin

text \<open>
  Correctness of what pull and push share, proved once against the contract of the six methods: the amounts
  in flight and moved never exceed the target, at most \<^verbatim>\<open>splits\<close> rebalances run at once, no two of them use the
  same candidate, and the loop ends, with the result adding up.
\<close>

section \<open>Settings\<close>

text \<open>What validation and the bounds on the amounts give.\<close>

definition settings_ok :: "settings \<Rightarrow> bool" where
  "settings_ok s \<longleftrightarrow> ab_split_amount s \<noteq> 0 \<and> 1000 dvd unat (ab_split_amount s)
     \<and> unat (ab_split_amount s) dvd unat (ab_amount s) \<and> unat (ab_amount s) < 2 ^ 62
     \<and> unat (ab_split_amount s) \<le> 2 ^ 40 \<and> 0 \<le> ab_attempts s \<and> ab_max_hops s \<le> 12"

lemma truncate_fields [simp]:
  "ab_amount (settings.truncate a) = ab_amount a" "ab_max_ppm (settings.truncate a) = ab_max_ppm a"
  "ab_splits (settings.truncate a) = ab_splits a" "ab_split_amount (settings.truncate a) = ab_split_amount a"
  "ab_attempts (settings.truncate a) = ab_attempts a" "ab_max_hops (settings.truncate a) = ab_max_hops a"
  by (simp_all add: settings.defs)

lemma truncate_updates [simp]:
  "settings.truncate (a\<lparr>ab_total_attempts := w\<rparr>) = settings.truncate a"
  "settings.truncate (a\<lparr>ab_candidates := cs\<rparr>) = settings.truncate a"
  "settings.truncate (a\<lparr>ab_rebalanced := x\<rparr>) = settings.truncate a"
  "settings.truncate (a\<lparr>ab_in_flight := y\<rparr>) = settings.truncate a"
  "settings.truncate (a\<lparr>ab_result := p\<rparr>) = settings.truncate a"
  by (simp_all add: settings.defs)

section \<open>Successes add up\<close>

definition success_sum :: "success \<Rightarrow> u64" where
  "success_sum s = (\<Sum>ppm \<in> dom s. go_get 0 s ppm)"

definition success_total :: "par_result \<Rightarrow> u64" where
  "success_total p = (\<Sum>alias \<in> dom (pt_successes p). success_sum (go_get Map.empty (pt_successes p) alias))"

definition successes_finite :: "par_result \<Rightarrow> bool" where
  "successes_finite p \<longleftrightarrow> finite (dom (pt_successes p))
     \<and> (\<forall>alias. finite (dom (go_get Map.empty (pt_successes p) alias)))"

text \<open>No success is listed under a fee rate above the limit.\<close>

definition rates_within :: "u64 \<Rightarrow> par_result \<Rightarrow> bool" where
  "rates_within limit p \<longleftrightarrow> (\<forall>alias ppm. go_get Map.empty (pt_successes p) alias ppm \<noteq> None \<longrightarrow> ppm \<le> limit)"

lemma sum_bump:
  fixes f g :: "'a \<Rightarrow> u64"
  assumes "finite A" and "\<And>x. x \<noteq> a \<Longrightarrow> g x = f x" and "g a = f a + d" and "a \<notin> A \<Longrightarrow> f a = 0"
  shows "sum g (insert a A) = sum f A + d"
proof -
  have "sum g (insert a A) = g a + sum g (A - {a})" using assms(1) by (rule sum.insert_remove)
  also have "sum g (A - {a}) = sum f (A - {a})" using assms(2) by (intro sum.cong) auto
  also have "f a + sum f (A - {a}) = sum f A"
  proof (cases "a \<in> A")
    case True
    then show ?thesis using sum.remove [OF assms(1), of a f] by simp
  next
    case False
    then show ?thesis using assms(4) by simp
  qed
  ultimately show ?thesis using assms(3) by (simp add: algebra_simps)
qed

lemma success_sum_add:
  assumes "finite (dom s)"
  shows "success_sum (s(ppm \<mapsto> go_get 0 s ppm + d)) = success_sum s + d"
  using sum_bump [OF assms, of ppm "go_get 0 (s(ppm \<mapsto> go_get 0 s ppm + d))" "go_get 0 s" d]
  by (simp add: success_sum_def go_get_def domIff split: option.split)

lemma add_success_eq:
  "add_success_generic alias ppm amount p =
     (let s = go_get Map.empty (pt_successes p) alias
      in p\<lparr>pt_rebalanced := pt_rebalanced p + amount,
           pt_successes := (pt_successes p)(alias \<mapsto> s(ppm \<mapsto> go_get 0 s ppm + amount))\<rparr>)"
  by (auto simp: add_success_generic_def go_get_def Let_def split: option.split)

lemma add_success_total:
  assumes "successes_finite p"
  shows "success_total (add_success_generic alias ppm amount p) = success_total p + amount"
    and "successes_finite (add_success_generic alias ppm amount p)"
proof -
  let ?s = "go_get Map.empty (pt_successes p) alias"
  let ?s' = "?s(ppm \<mapsto> go_get 0 ?s ppm + amount)"
  have fin: "finite (dom (pt_successes p))" "finite (dom ?s)" using assms by (simp_all add: successes_finite_def)
  have "(\<Sum>x \<in> insert alias (dom (pt_successes p)).
          success_sum (go_get Map.empty ((pt_successes p)(alias \<mapsto> ?s')) x))
      = (\<Sum>x \<in> dom (pt_successes p). success_sum (go_get Map.empty (pt_successes p) x)) + amount"
    using success_sum_add [OF fin(2), of ppm amount]
    by (intro sum_bump fin) (simp_all add: go_get_def domIff success_sum_def)
  then show "success_total (add_success_generic alias ppm amount p) = success_total p + amount"
    by (simp add: success_total_def add_success_eq Let_def)
  show "successes_finite (add_success_generic alias ppm amount p)"
    using assms by (simp add: successes_finite_def add_success_eq Let_def)
qed

lemma add_success_rates:
  "rates_within limit p \<Longrightarrow> ppm \<le> limit \<Longrightarrow> rates_within limit (add_success_generic alias ppm amount p)"
  by (auto simp: rates_within_def add_success_eq Let_def go_get_def split: if_splits)

lemma add_success_rebalanced [simp]:
  "pt_rebalanced (add_success_generic alias ppm amount p) = pt_rebalanced p + amount"
  "pt_target (add_success_generic alias ppm amount p) = pt_target p"
  by (simp_all add: add_success_eq Let_def)

section \<open>The queue\<close>

lemma get_next_candidate_suffix:
  "get_next_candidate M env n cs = Some (c, rest) \<Longrightarrow> \<exists>skipped. cs = skipped @ c # rest"
proof (induction cs)
  case (Cons c' cs)
  then show ?case by (auto split: go.splits)
qed simp

section \<open>The invariant\<close>

text \<open>
  \<open>cs\<close> are the candidates in flight, in the order of the goroutines. Amounts are multiples of the split, and
  what was moved and what is in flight stay within the target.
\<close>

definition amounts_ok :: "settings \<Rightarrow> nat \<Rightarrow> abstract_rebalance \<Rightarrow> bool" where
  "amounts_ok s k a \<longleftrightarrow> settings.truncate a = s
     \<and> unat (ab_in_flight a) = k * unat (ab_split_amount s)
     \<and> unat (ab_split_amount s) dvd unat (ab_rebalanced a)
     \<and> unat (ab_rebalanced a) + unat (ab_in_flight a) \<le> unat (ab_amount s)"

definition result_ok :: "abstract_rebalance \<Rightarrow> bool" where
  "result_ok a \<longleftrightarrow> successes_finite (ab_result a) \<and> pt_target (ab_result a) = ab_amount a div 1000
     \<and> pt_rebalanced (ab_result a) = ab_rebalanced a div 1000
     \<and> success_total (ab_result a) = pt_rebalanced (ab_result a) \<and> rates_within (ab_max_ppm a) (ab_result a)"

text \<open>Firing stops only for one of three reasons.\<close>

definition settled :: "abstract_rebalance \<Rightarrow> bool" where
  "settled a \<longleftrightarrow> \<not> carry_on a \<or> ab_splits a \<le> splits_in_flight a \<or> ab_candidates a = []"

lemma amounts_ok_simps:
  assumes "settings_ok s" and "amounts_ok s k a"
  shows "ab_amount a = ab_amount s" "ab_split_amount a = ab_split_amount s" "ab_splits a = ab_splits s"
    and "carry_on a \<longleftrightarrow> unat (ab_rebalanced a) + unat (ab_in_flight a) < unat (ab_amount s)"
    and "splits_in_flight a = int k"
proof -
  have a: "settings.truncate a = s" and le: "unat (ab_rebalanced a) + unat (ab_in_flight a) \<le> unat (ab_amount s)"
    and k: "unat (ab_in_flight a) = k * unat (ab_split_amount s)"
    using assms(2) by (simp_all add: amounts_ok_def)
  show f: "ab_amount a = ab_amount s" "ab_split_amount a = ab_split_amount s" "ab_splits a = ab_splits s"
    using a by auto
  have "unat (ab_amount s) < 4611686018427387904" "0 < unat (ab_split_amount s)"
    using assms(1) by (simp_all add: settings_ok_def unat_gt_0)
  then show "carry_on a \<longleftrightarrow> unat (ab_rebalanced a) + unat (ab_in_flight a) < unat (ab_amount s)"
    using le by (simp add: carry_on_def f word_less_nat_alt unat_add64)
  have "k \<le> unat (ab_in_flight a)" using k \<open>0 < unat (ab_split_amount s)\<close> by simp
  then have "k < 4611686018427387904" using le \<open>unat (ab_amount s) < 4611686018427387904\<close> by linarith
  moreover have "unat (ab_in_flight a div ab_split_amount a) = k"
    using k \<open>0 < unat (ab_split_amount s)\<close> by (simp add: unat_div64 f)
  ultimately show "splits_in_flight a = int k" by (simp add: splits_in_flight_def sint_u64)
qed

lemma amounts_ok_frame [simp]:
  "amounts_ok s k (a\<lparr>ab_total_attempts := w\<rparr>) = amounts_ok s k a"
  "amounts_ok s k (a\<lparr>ab_candidates := cs\<rparr>) = amounts_ok s k a"
  "amounts_ok s k (a\<lparr>ab_result := p\<rparr>) = amounts_ok s k a"
  by (simp_all add: amounts_ok_def)

lemma multiple_room:
  fixes d :: nat
  assumes "d dvd a" and "d dvd b" and "a < b"
  shows "a + d \<le> b"
proof -
  obtain i j where "a = d * i" "b = d * j" using assms(1,2) by (elim dvdE)
  moreover from this have "i < j" using assms(3) by (cases "d = 0") simp_all
  then have "d * (i + 1) \<le> d * j" by (intro mult_le_mono2) simp
  ultimately show ?thesis by simp
qed

text \<open>A split that is fired, one that failed, one that succeeded.\<close>

lemma amounts_ok_fire:
  assumes "settings_ok s" and "amounts_ok s k a" and "carry_on a"
  shows "amounts_ok s (Suc k) (a\<lparr>ab_in_flight := ab_in_flight a + ab_split_amount a\<rparr>)"
proof -
  note f = amounts_ok_simps [OF assms(1,2)]
  have dvd: "unat (ab_split_amount s) dvd unat (ab_amount s)" and b: "unat (ab_amount s) < 4611686018427387904"
    using assms(1) by (simp_all add: settings_ok_def)
  have room: "unat (ab_rebalanced a) + unat (ab_in_flight a) + unat (ab_split_amount s) \<le> unat (ab_amount s)"
    using assms(2,3) f(4) dvd by (intro multiple_room) (simp_all add: amounts_ok_def)
  then have "unat (ab_in_flight a + ab_split_amount s) = unat (ab_in_flight a) + unat (ab_split_amount s)"
    using b by (intro unat_add64) simp
  then show ?thesis using assms(2) room by (simp add: amounts_ok_def f(2))
qed

lemma amounts_ok_failure:
  assumes "settings_ok s" and "amounts_ok s (Suc k) a"
  shows "amounts_ok s k (a\<lparr>ab_in_flight := ab_in_flight a - ab_split_amount a\<rparr>)"
proof -
  have "unat (ab_in_flight a) = unat (ab_split_amount s) + k * unat (ab_split_amount s)"
    using assms(2) by (simp add: amounts_ok_def)
  moreover from this have "unat (ab_in_flight a - ab_split_amount s) = unat (ab_in_flight a) - unat (ab_split_amount s)"
    by (intro unat_sub64) simp
  ultimately show ?thesis
    using assms(2) amounts_ok_simps(2) [OF assms] by (simp add: amounts_ok_def)
qed

lemma amounts_ok_success:
  assumes "settings_ok s" and "amounts_ok s (Suc k) a"
  shows "amounts_ok s k (a\<lparr>ab_in_flight := ab_in_flight a - ab_split_amount a,
      ab_rebalanced := ab_rebalanced a + ab_split_amount a\<rparr>)"
    and "unat (ab_rebalanced a + ab_split_amount s) = unat (ab_rebalanced a) + unat (ab_split_amount s)"
proof -
  have k: "unat (ab_in_flight a) = unat (ab_split_amount s) + k * unat (ab_split_amount s)"
    and le: "unat (ab_rebalanced a) + unat (ab_in_flight a) \<le> unat (ab_amount s)"
    and b: "unat (ab_amount s) < 4611686018427387904"
    using assms by (simp_all add: amounts_ok_def settings_ok_def)
  show r: "unat (ab_rebalanced a + ab_split_amount s) = unat (ab_rebalanced a) + unat (ab_split_amount s)"
    using k le b by (intro unat_add64) simp
  have "unat (ab_in_flight a - ab_split_amount s) = k * unat (ab_split_amount s)"
    using k by (simp add: unat_sub64)
  then show "amounts_ok s k (a\<lparr>ab_in_flight := ab_in_flight a - ab_split_amount a,
      ab_rebalanced := ab_rebalanced a + ab_split_amount a\<rparr>)"
    using assms(2) amounts_ok_simps(2) [OF assms] r k by (simp add: amounts_ok_def)
qed

definition state_ok ::
  "'d methods \<Rightarrow> (channel \<Rightarrow> channel \<Rightarrow> bool) \<Rightarrow> channel \<Rightarrow> settings \<Rightarrow> channel list \<Rightarrow> rebalance list
     \<Rightarrow> abstract_rebalance \<Rightarrow> bool" where
  "state_ok M candidate_ok target s cs running a \<longleftrightarrow> amounts_ok s (length cs) a \<and> ab_target a = target
     \<and> running = map (m_fire M target s) cs \<and> (\<forall>c \<in> set cs \<union> set (ab_candidates a). candidate_ok target c)"

text \<open>What firing leaves as it is, and where the new candidates in flight come from.\<close>

definition fired_from :: "abstract_rebalance \<Rightarrow> channel list \<Rightarrow> abstract_rebalance \<Rightarrow> bool" where
  "fired_from a cs a' \<longleftrightarrow> ab_amount a' = ab_amount a \<and> ab_max_ppm a' = ab_max_ppm a \<and> ab_rebalanced a' = ab_rebalanced a
     \<and> ab_result a' = ab_result a
     \<and> ab_total_attempts a' = ab_total_attempts a
     \<and> mset cs + mset (ab_candidates a') \<subseteq># mset (ab_candidates a)"

text \<open>The loop is at the point where it waits.\<close>

definition waiting ::
  "('d node \<Rightarrow> bool) \<Rightarrow> 'd methods \<Rightarrow> (channel \<Rightarrow> channel \<Rightarrow> bool) \<Rightarrow> channel \<Rightarrow> settings \<Rightarrow> channel list
     \<Rightarrow> rebalance list \<Rightarrow> abstract_rebalance \<Rightarrow> 'd node \<Rightarrow> bool" where
  "waiting ok M candidate_ok target s cs running a n \<longleftrightarrow>
     ok n \<and> state_ok M candidate_ok target s cs running a \<and> settled a \<and> result_ok a"

text \<open>
  What a turn of the loop brings down: the short channel ids that are queued or in flight become no more, and
  the number of turns that are left becomes less, as a success moves a split and a failure costs its candidate.
\<close>

definition scids :: "channel list \<Rightarrow> abstract_rebalance \<Rightarrow> string multiset" where
  "scids cs a = image_mset short_channel_id (mset cs + mset (ab_candidates a))"

definition turns_left :: "settings \<Rightarrow> channel list \<Rightarrow> abstract_rebalance \<Rightarrow> nat" where
  "turns_left s cs a = (unat (ab_amount s) - unat (ab_rebalanced a)) div unat (ab_split_amount s)
     + length cs + length (ab_candidates a)"

definition turn_ok :: "settings \<Rightarrow> channel list \<Rightarrow> abstract_rebalance \<Rightarrow> channel list \<Rightarrow> abstract_rebalance \<Rightarrow> bool" where
  "turn_ok s cs a cs' a' \<longleftrightarrow> scids cs' a' \<subseteq># scids cs a \<and> turns_left s cs' a' < turns_left s cs a
     \<and> length cs' \<le> max (length cs) (nat (ab_splits s))
     \<and> unat (ab_total_attempts a') \<le> unat (ab_total_attempts a) + nat (ab_attempts s)"

lemma fired_from_scids:
  assumes "fired_from a fresh a'" and "image_mset short_channel_id (mset kept + mset (ab_candidates a)) \<subseteq># X"
  shows "scids (kept @ fresh) a' \<subseteq># X"
proof -
  have "image_mset short_channel_id (mset fresh + mset (ab_candidates a')) \<subseteq>#
      image_mset short_channel_id (mset (ab_candidates a))"
    using assms(1) unfolding fired_from_def by (intro image_mset_subseteq_mono) simp
  then have "scids (kept @ fresh) a' \<subseteq># image_mset short_channel_id (mset kept + mset (ab_candidates a))"
    by (simp add: scids_def ac_simps)
  then show ?thesis using assms(2) by (rule subset_mset.order_trans)
qed

lemma fired_from_length:
  assumes "fired_from a fresh a'"
  shows "length fresh + length (ab_candidates a') \<le> length (ab_candidates a)"
  using size_mset_mono [of "mset fresh + mset (ab_candidates a')" "mset (ab_candidates a)"] assms
  by (simp add: fired_from_def)

lemma distinct_subset_mset:
  assumes "distinct xs" and "mset ys \<subseteq># mset xs"
  shows "distinct ys"
proof -
  have "count (mset ys) y \<le> count (mset xs) y" for y using assms(2) by (simp add: subseteq_mset_def)
  moreover have "count (mset xs) y \<le> 1" for y using assms(1) by (simp add: distinct_count_atmost_1)
  ultimately have "count (mset ys) y \<le> 1" for y by (meson order_trans)
  then have "count (mset ys) y = (if y \<in> set ys then 1 else 0)" for y
    using count_greater_eq_one_iff [of "mset ys" y] by (simp add: le_antisym count_eq_zero_iff)
  then show ?thesis by (simp add: distinct_count_atmost_1)
qed

lemma result_ok_success:
  assumes "settings_ok s" and "result_ok a" and "ppm \<le> ab_max_ppm a"
    and "unat (ab_rebalanced a + ab_split_amount s) = unat (ab_rebalanced a) + unat (ab_split_amount s)"
  shows "result_ok (a\<lparr>ab_result := add_success_generic alias ppm (ab_split_amount s div 1000) (ab_result a),
      ab_rebalanced := ab_rebalanced a + ab_split_amount s\<rparr>)"
proof -
  let ?x = "ab_rebalanced a" and ?d = "ab_split_amount s"
  have d: "1000 dvd unat ?d" using assms(1) by (simp add: settings_ok_def)
  have "unat (?x div 1000) + unat (?d div 1000) < 2 ^ 64"
    using unat_lt_2p64 [of ?x] unat_lt_2p64 [of ?d] by (simp add: unat_div64)
  then have "unat (?x div 1000 + ?d div 1000) = unat ?x div 1000 + unat ?d div 1000"
    by (simp add: unat_add64 unat_div64)
  also have "\<dots> = unat (?x + ?d) div 1000" using d assms(4) by (simp add: div_plus_div_distrib_dvd_right)
  finally have "?x div 1000 + ?d div 1000 = (?x + ?d) div 1000" by (simp add: u64_eq_iff unat_div64)
  then show ?thesis
    using assms(2,3) add_success_total [of "ab_result a"] by (simp add: result_ok_def add_success_rates)
qed

section \<open>The contract of the methods\<close>

definition wake_ok :: "('d node \<Rightarrow> bool) \<Rightarrow> 'd wake \<Rightarrow> bool" where
  "wake_ok ok w \<longleftrightarrow> others_keep ok (wk_others w) \<and> (\<forall>n. ok n \<longrightarrow> ok (wk_after w n))"

text \<open>
  A rebalance that is fired has the amount of a split and can run; after a success its candidate, found again
  under the same short channel id, may be put back into the queue; the peers whose balances are updated exist.
\<close>

locale split_methods = node_invariant ends ok
  for ends :: "string \<Rightarrow> string \<times> string \<times> u64" and ok :: "'d node \<Rightarrow> bool" +
  fixes M :: "'d methods" and candidate_ok :: "channel \<Rightarrow> channel \<Rightarrow> bool"
    and candidate_of :: "rebalance \<Rightarrow> channel"
  assumes fire_candidate: "candidate_of (m_fire M target s c) = c"
    and fire_amount: "rb_amount (m_fire M target s c) = ab_split_amount s"
    and fire_max_ppm: "rb_max_ppm (m_fire M target s c) = ab_max_ppm s"
    and fire_attempts: "rb_attempts (m_fire M target s c) = ab_attempts s"
    and fire_ok: "settings_ok s \<Longrightarrow> candidate_ok target c \<Longrightarrow> rebalance_ok (m_fire M target s c)"
    and enqueue: "ok n \<Longrightarrow> candidate_ok target c \<Longrightarrow> success_ok (m_fire M target s c) res \<Longrightarrow>
      \<exists>new. m_enqueue_candidate M ord res n cs = Ok (new @ cs)
        \<and> (new = [] \<or> (\<exists>c'. new = [c'] \<and> candidate_ok target c' \<and> short_channel_id c' = short_channel_id c))"
    and balances: "ok n \<Longrightarrow> candidate_ok target c \<Longrightarrow> success_ok (m_fire M target s c) res \<Longrightarrow>
      \<exists>n'. update_channel_balance (res_out res) (res_in res) out_scid in_scid x n = Ok n' \<and> ok n'"
    and add_success: "\<exists>alias. m_add_success M res n p = add_success_generic alias (res_ppm res) (res_amount res) p"
begin

lemma fire_loop_ok:
  assumes "settings_ok s"
  shows "state_ok M candidate_ok target s cs running a \<Longrightarrow> fire_loop M env n a = (a', fired) \<Longrightarrow>
    \<exists>cs'. state_ok M candidate_ok target s (cs @ cs') (running @ fired) a' \<and> settled a' \<and> fired_from a cs' a'
      \<and> length (cs @ cs') \<le> max (length cs) (nat (ab_splits s))"
proof (induction M env n a arbitrary: cs running a' fired rule: fire_loop.induct)
  case (1 N env n a)
  have am: "amounts_ok s (length cs) a" using "1.prems"(1) by (simp add: state_ok_def)
  note f = amounts_ok_simps [OF assms am]
  show ?case
  proof (cases "carry_on a \<and> splits_in_flight a < ab_splits a")
    case False
    then have "a' = a" "fired = []" using "1.prems"(2) by (simp_all add: fire_loop.simps split: if_splits)
    moreover have "settled a" using False by (auto simp: settled_def)
    ultimately show ?thesis using "1.prems"(1) by (intro exI [of _ "[]"]) (simp add: fired_from_def)
  next
    case True
    show ?thesis
    proof (cases "get_next_candidate N env n (ab_candidates a)")
      case None
      then have "a' = a\<lparr>ab_candidates := []\<rparr>" "fired = []"
        using True "1.prems"(2) by (simp_all add: fire_loop.simps)
      then show ?thesis using "1.prems"(1)
        by (intro exI [of _ "[]"]) (auto simp: fired_from_def settled_def state_ok_def)
    next
      case (Some x)
      then obtain c rest where x: "get_next_candidate N env n (ab_candidates a) = Some (c, rest)"
        by (cases x) simp
      then obtain skipped where q: "ab_candidates a = skipped @ c # rest"
        using get_next_candidate_suffix by blast
      let ?a = "a\<lparr>ab_candidates := rest, ab_in_flight := ab_in_flight a + ab_split_amount a\<rparr>"
      obtain b fs where rec: "fire_loop N env n ?a = (b, fs)" by fastforce
      then have out: "a' = b" "fired = m_fire N (ab_target a) (settings.truncate a) c # fs"
        using True x "1.prems"(2) by (simp_all add: fire_loop.simps [of N env n a])
      have "amounts_ok s (Suc (length cs)) (a\<lparr>ab_in_flight := ab_in_flight a + ab_split_amount a\<rparr>)"
        using amounts_ok_fire [OF assms am] True by simp
      then have "state_ok N candidate_ok target s (cs @ [c]) (running @ [m_fire N (ab_target a) (settings.truncate a) c]) ?a"
        using "1.prems"(1) by (auto simp: state_ok_def q amounts_ok_def)
      from "1.IH" [OF True x refl this rec] obtain cs' where
        IH: "state_ok N candidate_ok target s ((cs @ [c]) @ cs') ((running @ [m_fire N (ab_target a) (settings.truncate a) c]) @ fs) b"
          "settled b" "fired_from ?a cs' b" "length ((cs @ [c]) @ cs') \<le> max (length (cs @ [c])) (nat (ab_splits s))"
        by blast
      have "Suc (length cs) \<le> nat (ab_splits s)" using True f(3,5) by (simp add: Suc_le_eq zless_nat_eq_int_zless)
      then have "length (cs @ c # cs') \<le> max (length cs) (nat (ab_splits s))" using IH(4) by simp
      moreover have "fired_from a (c # cs') b"
        using IH(3) subset_mset.add_increasing [of "mset skipped" "mset cs' + mset (ab_candidates b)" "mset rest"]
        by (simp add: fired_from_def q)
      ultimately show ?thesis using IH(1,2) out by (intro exI [of _ "c # cs'"]) simp
    qed
  qed
qed

lemma fire_candidates_ok:
  assumes "settings_ok s" and "state_ok M candidate_ok target s cs running a" and "result_ok a"
  obtains a' fired fresh where "fire_candidates M env n a = Ok (a', fired)"
    and "state_ok M candidate_ok target s (cs @ fresh) (running @ fired) a'" and "settled a'" and "result_ok a'"
    and "fired_from a fresh a'" and "length (cs @ fresh) \<le> max (length cs) (nat (ab_splits s))"
proof -
  obtain a' fired where f: "fire_loop M env n a = (a', fired)" by fastforce
  have "amounts_ok s (length cs) a" using assms(2) by (simp add: state_ok_def)
  then have "ab_split_amount a \<noteq> 0" using amounts_ok_simps(2) [OF assms(1)] assms(1) by (simp add: settings_ok_def)
  then have "fire_candidates M env n a = Ok (a', fired)" using f by (simp add: fire_candidates_def)
  moreover from fire_loop_ok [OF assms(1,2) f] obtain fresh where
    "state_ok M candidate_ok target s (cs @ fresh) (running @ fired) a'" "settled a'" "fired_from a fresh a'"
    "length (cs @ fresh) \<le> max (length cs) (nat (ab_splits s))" by blast
  moreover from this(3) have "result_ok a'" using assms(3) by (simp add: result_ok_def fired_from_def)
  ultimately show ?thesis using that by blast
qed

lemma handle_failure:
  assumes "settings_ok s" and "waiting ok M candidate_ok target s (cs1 @ c # cs2) running a n0" and "ok n"
    and "rest = map (m_fire M target s) (cs1 @ cs2)" and "res_status res = ''failure''"
    and "unat (res_attempts res) \<le> nat (ab_attempts s)"
  shows "\<exists>a' fired n' cs'. handle_result M w res a n = Ok (a', fired, n')
    \<and> waiting ok M candidate_ok target s cs' (rest @ fired) a' n' \<and> turn_ok s (cs1 @ c # cs2) a cs' a'"
proof -
  let ?a1 = "a\<lparr>ab_total_attempts := ab_total_attempts a + res_attempts res\<rparr>"
  let ?a2 = "?a1\<lparr>ab_in_flight := ab_in_flight ?a1 - ab_split_amount ?a1\<rparr>"
  have st: "amounts_ok s (Suc (length (cs1 @ cs2))) a" and r: "result_ok a"
    using assms(2) by (simp_all add: waiting_def state_ok_def)
  then have "amounts_ok s (length (cs1 @ cs2)) ?a2" by (intro amounts_ok_failure [OF assms(1)]) simp
  then have "state_ok M candidate_ok target s (cs1 @ cs2) rest ?a2"
    using assms(2,4) by (auto simp: waiting_def state_ok_def)
  moreover have "result_ok ?a2" using r by (simp add: result_ok_def)
  ultimately obtain a' fired fresh where f: "fire_candidates M (wk_round w) n ?a2 = Ok (a', fired)"
    and st': "state_ok M candidate_ok target s ((cs1 @ cs2) @ fresh) (rest @ fired) a'" "settled a'" "result_ok a'"
    and frm: "fired_from ?a2 fresh a'"
    and len: "length ((cs1 @ cs2) @ fresh) \<le> max (length (cs1 @ cs2)) (nat (ab_splits s))"
    by (rule fire_candidates_ok [OF assms(1)])
  have "handle_result M w res a n = Ok (a', fired, n)"
    using assms(5) f by (simp add: handle_result_def book_result_def update_amounts_def Let_def)
  moreover have "scids ((cs1 @ cs2) @ fresh) a' \<subseteq># scids (cs1 @ c # cs2) a"
    by (rule fired_from_scids [OF frm]) (simp add: scids_def)
  moreover have "unat (ab_total_attempts a') \<le> unat (ab_total_attempts a) + nat (ab_attempts s)"
    using frm assms(6) unat_plus_le [of "ab_total_attempts a" "res_attempts res"] by (simp add: fired_from_def)
  moreover have "turns_left s ((cs1 @ cs2) @ fresh) a' < turns_left s (cs1 @ c # cs2) a"
    using fired_from_length [OF frm] frm by (simp add: turns_left_def fired_from_def)
  ultimately show ?thesis using st' assms(3) len unfolding waiting_def turn_ok_def by fastforce
qed

lemma handle_success:
  assumes "settings_ok s" and "waiting ok M candidate_ok target s (cs1 @ c # cs2) running a n0" and "ok n"
    and "rest = map (m_fire M target s) (cs1 @ cs2)" and "success_ok (m_fire M target s c) res"
    and "unat (res_attempts res) \<le> nat (ab_attempts s)"
  shows "\<exists>a' fired n' cs'. handle_result M w res a n = Ok (a', fired, n')
    \<and> waiting ok M candidate_ok target s cs' (rest @ fired) a' n' \<and> turn_ok s (cs1 @ c # cs2) a cs' a'"
proof -
  have st: "amounts_ok s (Suc (length (cs1 @ cs2))) a" and r: "result_ok a" and c: "candidate_ok target c"
    using assms(2) by (auto simp: waiting_def state_ok_def)
  obtain nm where nm: "m_add_success M res n (ab_result a) =
      add_success_generic nm (res_ppm res) (ab_split_amount s div 1000) (ab_result a)"
    using add_success [of res n "ab_result a"] assms(5) by (auto simp: success_ok_def fire_amount)
  obtain new where new: "m_enqueue_candidate M (wk_enqueue w) res n (ab_candidates a) = Ok (new @ ab_candidates a)"
    and new': "new = [] \<or> (\<exists>c'. new = [c'] \<and> candidate_ok target c' \<and> short_channel_id c' = short_channel_id c)"
    using enqueue [OF assms(3) c assms(5)] by blast
  obtain p where p: "res_route res = Some p" "pr_hops p \<noteq> []"
    using assms(5) by (auto simp: success_ok_def within_limits_def)
  obtain n' where n': "update_channel_balance (res_out res) (res_in res) (ph_scid (hd (pr_hops p)))
      (ph_scid (last (pr_hops p))) (res_amount res) n = Ok n'" "ok n'"
    using balances [OF assms(3) c assms(5)] by blast
  define a1 where "a1 = a\<lparr>ab_total_attempts := ab_total_attempts a + res_attempts res,
      ab_result := add_success_generic nm (res_ppm res) (ab_split_amount s div 1000) (ab_result a),
      ab_candidates := new @ ab_candidates a\<rparr>"
  define a2 where "a2 = a1\<lparr>ab_in_flight := ab_in_flight a1 - ab_split_amount a1,
      ab_rebalanced := ab_rebalanced a1 + ab_split_amount a1\<rparr>"
  have split: "ab_split_amount a = ab_split_amount s" using amounts_ok_simps(2) [OF assms(1) st] .
  have "res_ppm res \<le> ab_max_ppm s" using assms(5) by (auto simp: success_ok_def within_limits_def fire_max_ppm)
  then have ppm: "res_ppm res \<le> ab_max_ppm a" using st truncate_fields(2) [of a] by (simp add: amounts_ok_def)
  note more = amounts_ok_success [OF assms(1) st]
  have a1: "amounts_ok s (Suc (length (cs1 @ cs2))) a1" using st by (simp add: a1_def)
  have "amounts_ok s (length (cs1 @ cs2)) a2" unfolding a2_def using amounts_ok_success(1) [OF assms(1) a1] .
  then have "state_ok M candidate_ok target s (cs1 @ cs2) rest a2"
    using assms(2,4) new' by (auto simp: waiting_def state_ok_def a1_def a2_def)
  moreover have "result_ok a2"
    using result_ok_success [OF assms(1) r ppm more(2), of nm] split
    by (simp add: a1_def a2_def result_ok_def)
  ultimately obtain a' fired fresh where f: "fire_candidates M (wk_round w) n' a2 = Ok (a', fired)"
    and st': "state_ok M candidate_ok target s ((cs1 @ cs2) @ fresh) (rest @ fired) a'" "settled a'" "result_ok a'"
    and frm: "fired_from a2 fresh a'"
    and len: "length ((cs1 @ cs2) @ fresh) \<le> max (length (cs1 @ cs2)) (nat (ab_splits s))"
    by (rule fire_candidates_ok [OF assms(1)])
  have "handle_result M w res a n = Ok (a', fired, n')"
    using assms(5) f p n' nm new
    by (simp add: handle_result_def book_result_def update_amounts_def Let_def success_ok_def fire_amount
        a1_def a2_def)
  moreover have "image_mset short_channel_id (mset new) \<subseteq># {#short_channel_id c#}" using new' by auto
  then have "image_mset short_channel_id (mset (cs1 @ cs2) + mset (ab_candidates a2)) \<subseteq># scids (cs1 @ c # cs2) a"
    by (simp add: scids_def a1_def a2_def ac_simps subset_mset.add_left_mono)
  then have "scids ((cs1 @ cs2) @ fresh) a' \<subseteq># scids (cs1 @ c # cs2) a"
    by (rule fired_from_scids [OF frm])
  moreover have "unat (ab_total_attempts a') \<le> unat (ab_total_attempts a) + nat (ab_attempts s)"
    using frm assms(6) unat_plus_le [of "ab_total_attempts a" "res_attempts res"]
    by (simp add: fired_from_def a1_def a2_def)
  moreover have "turns_left s ((cs1 @ cs2) @ fresh) a' < turns_left s (cs1 @ c # cs2) a"
  proof -
    let ?d = "unat (ab_split_amount s)" and ?room = "unat (ab_amount s) - unat (ab_rebalanced a)"
    have "unat (ab_rebalanced a') = unat (ab_rebalanced a) + ?d"
      using frm more(2) split by (simp add: fired_from_def a1_def a2_def)
    moreover have "unat (ab_rebalanced a') \<le> unat (ab_amount s)" using st'(1) by (simp add: state_ok_def amounts_ok_def)
    moreover have d: "0 < ?d" using assms(1) by (simp add: settings_ok_def unat_gt_0)
    ultimately have "?d \<le> ?room" and eq: "unat (ab_amount s) - unat (ab_rebalanced a') = ?room - ?d" by linarith+
    then have "(?room - ?d) div ?d + 1 = ?room div ?d" using d by (simp add: le_div_geq)
    moreover have "length new \<le> 1" using new' by auto
    ultimately show ?thesis
      using fired_from_length [OF frm] by (simp add: turns_left_def eq a1_def a2_def)
  qed
  ultimately show ?thesis using st' n'(2) len unfolding waiting_def turn_ok_def by fastforce
qed

text \<open>One turn of the loop: a goroutine has ended with a result, and handling it succeeds.\<close>

lemma turn:
  assumes "settings_ok s" and "waiting ok M candidate_ok target s cs running a n" and "ab_in_flight a \<noteq> 0"
    and "wake_ok ok w"
  obtains result rest n1 a' fired n' cs' where "running \<noteq> []" and "receive B w running n = (Ok result, rest, n1)"
    and "handle_result M w result a n1 = Ok (a', fired, n')"
    and "waiting ok M candidate_ok target s cs' (rest @ fired) a' n'" and "turn_ok s cs a cs' a'"
proof -
  have st: "amounts_ok s (length cs) a" and running: "running = map (m_fire M target s) cs"
    and good: "\<forall>c \<in> set cs. candidate_ok target c" and n: "ok n"
    using assms(2) by (auto simp: waiting_def state_ok_def)
  have "unat (ab_in_flight a) \<noteq> 0" using assms(3) by (simp add: unat_eq_zero)
  then have "cs \<noteq> []" using st by (auto simp: amounts_ok_def)
  define i where "i = wk_pick w mod length running"
  have i: "i < length cs" using \<open>cs \<noteq> []\<close> by (simp add: i_def running)
  let ?r = "m_fire M target s (cs ! i)"
  have r: "rebalance_ok ?r" "rb_attempts ?r = ab_attempts s" "0 \<le> ab_attempts s"
    using fire_ok [OF assms(1)] fire_attempts good i assms(1) by (simp_all add: settings_ok_def)
  obtain res n1 where run: "run B ?r (wk_envs w) (wk_others w) n = (Ok res, n1)" and "ok n1"
    and res: "success_ok ?r res \<and> (\<exists>j \<ge> 1. j \<le> rb_attempts ?r \<and> res_attempts res = word_of_int j)
       \<or> res_status res = ''failure'' \<and> (\<exists>j \<ge> 0. j \<le> rb_attempts ?r \<and> res_attempts res = word_of_int j)"
  proof (rule run_outcome [of "wk_others w" n ?r B "wk_envs w"])
    show "others_keep ok (wk_others w)" using assms(4) by (simp add: wake_ok_def)
    show "ok n" by (rule n)
    show "rebalance_ok ?r" by (rule r(1))
    show "0 \<le> rb_attempts ?r" using r(2,3) by simp
  qed blast
  then have n1: "ok (wk_after w n1)" using assms(4) by (simp add: wake_ok_def)
  have att: "unat (res_attempts res) \<le> nat (ab_attempts s)"
  proof -
    have weak: "0 \<le> j" if "1 \<le> j" for j :: int using that by simp
    obtain j where j: "0 \<le> j" "j \<le> ab_attempts s" "res_attempts res = word_of_int j"
      using res weak unfolding r(2) by metis
    have "unat (word_of_int j :: u64) \<le> nat j" using j(1)
      by (simp add: unsigned_of_int nat_le_eq_zle take_bit_int_less_eq_self_iff)
    then show ?thesis using j by (simp add: nat_le_eq_zle)
  qed
  have split: "cs = take i cs @ cs ! i # drop (Suc i) cs" using i by (rule id_take_nth_drop)
  have w: "waiting ok M candidate_ok target s (take i cs @ cs ! i # drop (Suc i) cs) running a n"
    using assms(2) split by simp
  define rest where "rest = take i running @ drop (Suc i) running"
  have rest: "rest = map (m_fire M target s) (take i cs @ drop (Suc i) cs)"
    by (simp add: rest_def running take_map drop_map)
  have rcv: "receive B w running n = (Ok res, rest, wk_after w n1)"
  proof -
    have "running ! i = ?r" using i by (simp add: running)
    then show ?thesis using run unfolding receive_def Let_def i_def [symmetric] rest_def by simp
  qed
  from res have "\<exists>a' fired n' cs'. handle_result M w res a (wk_after w n1) = Ok (a', fired, n')
    \<and> waiting ok M candidate_ok target s cs' (rest @ fired) a' n' \<and> turn_ok s cs a cs' a'"
    using handle_success [OF assms(1) w n1 rest _ att] handle_failure [OF assms(1) w n1 rest _ att] split by auto
  then show ?thesis using that rcv \<open>cs \<noteq> []\<close> running by blast
qed

lemma wait_loop_returns:
  assumes "settings_ok s" and "\<forall>k. wake_ok ok (wakes k)"
  shows "waiting ok M candidate_ok target s cs running a n \<Longrightarrow>
    \<exists>a' n'. wait_loop M B wakes k running a n = Some (Ok (a', n')) \<and> ab_in_flight a' = 0
      \<and> waiting ok M candidate_ok target s [] [] a' n'
      \<and> unat (ab_total_attempts a') \<le> unat (ab_total_attempts a) + turns_left s cs a * nat (ab_attempts s)"
proof (induction "turns_left s cs a" arbitrary: cs running a n k rule: less_induct)
  case less
  show ?case
  proof (cases "ab_in_flight a = 0")
    case True
    have "amounts_ok s (length cs) a" using less.prems by (simp add: waiting_def state_ok_def)
    then have "cs = []" using True assms(1) by (simp add: amounts_ok_def settings_ok_def unat_eq_zero)
    then have "running = []" using less.prems by (simp add: waiting_def state_ok_def)
    with \<open>cs = []\<close> True less.prems show ?thesis by (simp add: wait_loop.simps)
  next
    case False
    from turn [OF assms(1) less.prems False, of "wakes k" B] assms(2) obtain result rest n1 a' fired n' cs'
      where ne: "running \<noteq> []" and rcv: "receive B (wakes k) running n = (Ok result, rest, n1)"
        and h: "handle_result M (wakes k) result a n1 = Ok (a', fired, n')"
        and w: "waiting ok M candidate_ok target s cs' (rest @ fired) a' n'" and t: "turn_ok s cs a cs' a'" by blast
    have "wait_loop M B wakes k running a n = wait_loop M B wakes (Suc k) (rest @ fired) a' n'"
      using False ne rcv h by (subst wait_loop.simps) simp
    moreover have lt: "turns_left s cs' a' < turns_left s cs a" using t by (simp add: turn_ok_def)
    moreover from less.hyps [OF this w] obtain b m where
      "wait_loop M B wakes (Suc k) (rest @ fired) a' n' = Some (Ok (b, m))" "ab_in_flight b = 0"
      "waiting ok M candidate_ok target s [] [] b m"
      "unat (ab_total_attempts b) \<le> unat (ab_total_attempts a') + turns_left s cs' a' * nat (ab_attempts s)" by blast
    moreover have "turns_left s cs' a' * nat (ab_attempts s) + nat (ab_attempts s) \<le> turns_left s cs a * nat (ab_attempts s)"
      using mult_le_mono1 [of "Suc (turns_left s cs' a')" "turns_left s cs a" "nat (ab_attempts s)"] lt by simp
    moreover have "unat (ab_total_attempts a') \<le> unat (ab_total_attempts a) + nat (ab_attempts s)"
      using t by (simp add: turn_ok_def)
    ultimately show ?thesis by fastforce
  qed
qed

text \<open>What holds whenever the loop waits.\<close>

lemma turns_invariant:
  assumes "settings_ok s"
  shows "turns (wake_ok ok) M B st st' \<Longrightarrow> st = (running, a, n) \<Longrightarrow> st' = (running', a', n') \<Longrightarrow>
    waiting ok M candidate_ok target s cs running a n \<Longrightarrow>
    \<exists>cs'. waiting ok M candidate_ok target s cs' running' a' n' \<and> scids cs' a' \<subseteq># scids cs a
      \<and> length cs' \<le> max (length cs) (nat (ab_splits s))"
proof (induction arbitrary: running' a' n' rule: turns.induct)
  case turns_refl
  then show ?case by (intro exI [of _ cs]) simp
next
  case (turns_step running1 a1 n1 w result rest n2 a2 fired n3)
  then obtain cs1 where w1: "waiting ok M candidate_ok target s cs1 running1 a1 n1" "scids cs1 a1 \<subseteq># scids cs a"
    "length cs1 \<le> max (length cs) (nat (ab_splits s))" by blast
  from turn [OF assms w1(1) turns_step.hyps(2,4), of B] turns_step.hyps(5,6) obtain cs2 where
    "waiting ok M candidate_ok target s cs2 (rest @ fired) a2 n3" "turn_ok s cs1 a1 cs2 a2"
    by (metis (no_types, lifting) Pair_inject go.inject(1))
  moreover from this(2) have "scids cs2 a2 \<subseteq># scids cs a" "length cs2 \<le> max (length cs) (nat (ab_splits s))"
    using w1 by (auto simp: turn_ok_def intro: subset_mset.order_trans)
  ultimately show ?case using turns_step.prems by (intro exI [of _ cs2]) simp
qed

end

end
