(* ===== verification/PullPush_Sound.thy ===== *)
theory PullPush_Sound
  imports PullPush Parallel_Sound
begin

text \<open>
  Pull and push meet the contract of the shared part: their methods only ever fire rebalances between
  different peers that the node knows. The invariant of the node adds to a good graph that our channels are
  with the peers that the gossip says, and that no peer we had at the start is forgotten.
\<close>

section \<open>The invariant of the node\<close>

definition net_ok ::
  "(string \<Rightarrow> string \<times> string \<times> u64) \<Rightarrow> string \<Rightarrow> string set \<Rightarrow> 'd node \<Rightarrow> bool" where
  "net_ok ends me D n \<longleftrightarrow> good_node ends n \<and> peers_ok (n_peers n) \<and> peers_agree ends n \<and> n_id n = me
     \<and> D \<subseteq> dom (n_peers n)"

interpretation net: node_invariant ends "net_ok ends me D" for ends me D
proof unfold_locales
  fix n n' :: "'d node"
  assume "db_only n n'"
  then show "net_ok ends me D n' = net_ok ends me D n"
    by (simp add: net_ok_def good_node_db_only peers_agree_def db_only_fields)
qed (simp add: net_ok_def)

lemma own_channel_found:
  assumes "net_ok ends me D n" and "find_peer_channel ord scid (n_peers n) = Some (p, pc)"
  shows "own_scid ends me scid (peer_id p)" and "peer_id p \<in> dom (n_peers n)"
proof -
  obtain i where i: "n_peers n i = Some p" "pc \<in> set (peer_channels p)" "pc_scid pc = scid"
    using find_peer_channel_Some [OF assms(2)] by blast
  then have "peer_id p = i" using peers_okD(1) assms(1) by (auto simp: net_ok_def)
  then show "own_scid ends me scid (peer_id p)" "peer_id p \<in> dom (n_peers n)"
    using i assms(1) by (auto simp: net_ok_def peers_agree_def own_scid_def)
qed

text \<open>Our channels in the graph, by direction.\<close>

lemma own_channel_in_graph:
  assumes "net_ok ends me D n" and "own_scid ends me scid i"
  shows "channels (n_graph n) (scid @ ''/'' @ get_direction me i) = Some c \<Longrightarrow>
      short_channel_id c = scid \<and> chan_source c = me \<and> chan_destination c = i \<and> bolt7_fees c"
    and "channels (n_graph n) (scid @ ''/'' @ get_direction i me) = Some c \<Longrightarrow>
      short_channel_id c = scid \<and> chan_source c = i \<and> chan_destination c = me \<and> bolt7_fees c"
proof -
  have g: "graph_reach ends (n_graph n)" "gossip_bounded (n_graph n)"
    using assms(1) by (simp_all add: net_ok_def good_node_def)
  obtain cap cap' where "ends (channel_key scid me i) = (me, i, cap)" "ends (channel_key scid i me) = (i, me, cap')"
    using assms(2) by (auto simp: own_scid_def)
  then show "channels (n_graph n) (scid @ ''/'' @ get_direction me i) = Some c \<Longrightarrow>
      short_channel_id c = scid \<and> chan_source c = me \<and> chan_destination c = i \<and> bolt7_fees c"
    and "channels (n_graph n) (scid @ ''/'' @ get_direction i me) = Some c \<Longrightarrow>
      short_channel_id c = scid \<and> chan_source c = i \<and> chan_destination c = me \<and> bolt7_fees c"
    using own_channel_ends [OF g(1)] g(2) by (blast intro: gossip_bounded_def [THEN iffD1, rule_format])+
qed

lemma outgoing_found:
  assumes "net_ok ends me D n" and "get_outgoing_channel_from_scid ord scid n = Ok c"
  obtains i where "own_scid ends me scid i" and "i \<in> dom (n_peers n)" and "short_channel_id c = scid"
    and "chan_source c = me" and "chan_destination c = i" and "bolt7_fees c"
proof -
  from assms(2) obtain p where p: "get_channel_peer_from_scid ord scid n = Ok p"
    and c: "channels (n_graph n) (scid @ ''/'' @ get_direction (n_id n) (peer_id p)) = Some c"
    by (rule outgoing_channel_cases)
  from p obtain pc where "find_peer_channel ord scid (n_peers n) = Some (p, pc)"
    by (auto simp: get_channel_peer_from_scid_def split: option.splits)
  note own = own_channel_found [OF assms(1) this]
  have "n_id n = me" using assms(1) by (simp add: net_ok_def)
  then show ?thesis using own_channel_in_graph(1) [OF assms(1) own(1)] c own that by auto
qed

lemma incoming_found:
  assumes "net_ok ends me D n" and "get_incoming_channel_from_scid ord scid n = Ok c"
  obtains i where "own_scid ends me scid i" and "i \<in> dom (n_peers n)" and "short_channel_id c = scid"
    and "chan_source c = i" and "chan_destination c = me" and "bolt7_fees c"
proof -
  from assms(2) obtain p where p: "get_channel_peer_from_scid ord scid n = Ok p"
    and c: "channels (n_graph n) (scid @ ''/'' @ get_direction (peer_id p) (n_id n)) = Some c"
    by (rule incoming_channel_cases)
  from p obtain pc where "find_peer_channel ord scid (n_peers n) = Some (p, pc)"
    by (auto simp: get_channel_peer_from_scid_def split: option.splits)
  note own = own_channel_found [OF assms(1) this]
  have "n_id n = me" using assms(1) by (simp add: net_ok_def)
  then show ?thesis using own_channel_in_graph(2) [OF assms(1) own(1)] c own that by auto
qed

lemma net_ok_balances:
  assumes "net_ok ends me D n" and "out_peer \<in> D" and "in_peer \<in> D"
  shows "\<exists>n'. update_channel_balance out_peer in_peer out_scid in_scid amount n = Ok n' \<and> net_ok ends me D n'"
proof -
  have "peers_ok (n_peers n)" "n_peers n out_peer \<noteq> None" "n_peers n in_peer \<noteq> None"
    using assms by (auto simp: net_ok_def)
  then obtain n' where "update_channel_balance out_peer in_peer out_scid in_scid amount n = Ok n'"
    and "n_graph n' = n_graph n" "n_id n' = n_id n" "dom (n_peers n') = dom (n_peers n)"
      "peers_ok (n_peers n')" "peers_agree ends n' = peers_agree ends n"
    by (rule update_channel_balance_keeps)
  then show ?thesis using assms(1) by (auto simp: net_ok_def good_node_def)
qed

lemma success_scids:
  assumes "success_ok r res"
  shows "\<exists>mids. result_scids res = Ok (short_channel_id (rb_out r) # mids @ [short_channel_id (rb_in r)])"
  using assms by (auto simp: success_ok_def within_limits_def result_scids_def)

section \<open>From the peers to the result\<close>

lemma start_rebalance_simps [simp]:
  "settings.truncate (start_rebalance s target cs) = s" "ab_target (start_rebalance s target cs) = target"
  "ab_candidates (start_rebalance s target cs) = cs" "ab_rebalanced (start_rebalance s target cs) = 0"
  "ab_in_flight (start_rebalance s target cs) = 0" "ab_total_attempts (start_rebalance s target cs) = 0"
  by (simp_all add: start_rebalance_def settings.defs abstract_rebalance.defs)

context split_methods
begin

lemma fires:
  assumes "settings_ok s"
  obtains a fired where "fire_candidates M env n (start_rebalance s target cs) = Ok (a, fired)"
proof -
  have "ab_split_amount (start_rebalance s target cs) \<noteq> 0"
    using truncate_fields(4) [of "start_rebalance s target cs"] assms by (simp add: settings_ok_def)
  then show ?thesis using that by (cases "fire_loop M env n (start_rebalance s target cs)") (simp add: fire_candidates_def)
qed

lemma started:
  assumes "settings_ok s" and "ok n" and "\<forall>c \<in> set cs. candidate_ok target c"
    and "fire_candidates M env n (start_rebalance s target cs) = Ok (a, fired)"
  obtains flying where
    "waiting ok M candidate_ok target s flying fired (a\<lparr>ab_result := new_par_result (ab_amount a)\<rparr>) n"
    and "scids flying a \<subseteq># image_mset short_channel_id (mset cs)" and "length flying \<le> nat (ab_splits s)"
    and "ab_amount a = ab_amount s" and "ab_total_attempts a = 0"
    and "turns_left s flying a \<le> unat (ab_amount s) div unat (ab_split_amount s) + length cs"
proof -
  let ?a = "start_rebalance s target cs"
  have f: "fire_loop M env n ?a = (a, fired)" using assms(4) by (simp add: fire_candidates_def split: if_splits)
  have "state_ok M candidate_ok target s [] [] ?a" using assms(3) by (simp add: state_ok_def amounts_ok_def)
  from fire_loop_ok [OF assms(1) this f] obtain flying where
    st: "state_ok M candidate_ok target s flying fired a" and se: "settled a" and frm: "fired_from ?a flying a"
    and len: "length flying \<le> nat (ab_splits s)" by auto
  have am: "ab_amount a = ab_amount s"
    using amounts_ok_simps(1) [OF assms(1)] st by (auto simp: state_ok_def)
  have "waiting ok M candidate_ok target s flying fired (a\<lparr>ab_result := new_par_result (ab_amount a)\<rparr>) n"
    using st se frm assms(2)
    by (simp add: waiting_def state_ok_def settled_def carry_on_def splits_in_flight_def result_ok_def
        new_par_result_def successes_finite_def success_total_def rates_within_def go_get_def fired_from_def)
  moreover have "scids flying a \<subseteq># image_mset short_channel_id (mset cs)"
    using fired_from_scids [OF frm, of "[]" "image_mset short_channel_id (mset cs)"] by simp
  moreover have "turns_left s flying a \<le> unat (ab_amount s) div unat (ab_split_amount s) + length cs"
    using fired_from_length [OF frm] frm by (simp add: turns_left_def fired_from_def)
  ultimately show ?thesis using that len am frm by (auto simp: fired_from_def)
qed

lemma fire_and_wait_returns:
  assumes "settings_ok s" and "ok n" and "\<forall>c \<in> set cs. candidate_ok target c"
    and "\<forall>k. wake_ok ok (ce_wakes env k)"
  shows "\<exists>res n'. fire_and_wait M B env (start_rebalance s target cs) n = Some (Ok (res, n')) \<and> ok n'
    \<and> pt_target res = ab_amount s div 1000 \<and> unat (pt_rebalanced res) \<le> unat (pt_target res)
    \<and> success_total res = pt_rebalanced res \<and> rates_within (ab_max_ppm s) res
    \<and> unat (pt_attempts res) \<le>
        (unat (ab_amount s) div unat (ab_split_amount s) + length cs) * nat (ab_attempts s)"
proof -
  obtain a fired where f: "fire_candidates M (ce_round env) n (start_rebalance s target cs) = Ok (a, fired)"
    by (rule fires [OF assms(1)])
  from started [OF assms(1-3) f] obtain flying where
    w: "waiting ok M candidate_ok target s flying fired (a\<lparr>ab_result := new_par_result (ab_amount a)\<rparr>) n"
    and am: "ab_amount a = ab_amount s" "ab_total_attempts a = 0"
      "turns_left s flying a \<le> unat (ab_amount s) div unat (ab_split_amount s) + length cs" by blast
  from wait_loop_returns [OF assms(1,4) w, of B 0] obtain b n' where
    b: "wait_loop M B (ce_wakes env) 0 fired (a\<lparr>ab_result := new_par_result (ab_amount a)\<rparr>) n = Some (Ok (b, n'))"
    and wb: "waiting ok M candidate_ok target s [] [] b n'"
    and att: "unat (ab_total_attempts b) \<le> turns_left s flying a * nat (ab_attempts s)"
    using am(2) by (auto simp: turns_left_def)
  have amb: "ab_amount b = ab_amount s" "ab_max_ppm b = ab_max_ppm s" "unat (ab_rebalanced b) \<le> unat (ab_amount s)" and r: "result_ok b" and "ok n'"
    using wb amounts_ok_simps(1) [OF assms(1)] truncate_fields(2) [of b] by (auto simp: waiting_def state_ok_def amounts_ok_def)
  let ?res = "(ab_result b)\<lparr>pt_attempts := ab_total_attempts b, pt_time := fmt_sats (ce_elapsed env) @ ''s''\<rparr>"
  have "fire_and_wait M B env (start_rebalance s target cs) n = Some (Ok (?res, n'))"
    using f b by (simp add: fire_and_wait_def wait_for_result_def)
  moreover have "pt_target ?res = ab_amount s div 1000" "success_total ?res = pt_rebalanced ?res"
    "rates_within (ab_max_ppm s) ?res"
    using r amb by (simp_all add: result_ok_def success_total_def rates_within_def)
  moreover have "unat (pt_rebalanced ?res) \<le> unat (ab_amount s div 1000)"
    using r amb by (simp add: result_ok_def unat_div64 div_le_mono)
  moreover have "unat (pt_attempts ?res) \<le>
      (unat (ab_amount s) div unat (ab_split_amount s) + length cs) * nat (ab_attempts s)"
    using order_trans [OF att mult_le_mono1 [OF am(3)]] by simp
  ultimately show ?thesis using \<open>ok n'\<close> by (intro exI [of _ ?res] exI [of _ n']) simp
qed

end

lemma subset_add_mset: "A \<subseteq># B \<Longrightarrow> A \<subseteq># add_mset x B"
  by (rule subset_mset.order_trans [of A B]) simp_all

text \<open>A writer of the peers waits while one of the channels that our peers have is judged.\<close>

definition writer_met :: "(string \<Rightarrow> bool) \<Rightarrow> 'd node \<Rightarrow> bool" where
  "writer_met waits n \<longleftrightarrow> (\<exists>p \<in> ran (n_peers n). \<exists>pc \<in> set (peer_channels p). waits (pc_scid pc))"

lemma peer_candidates_waits:
  "peer_candidates M ords waits s n pid cs = peer_candidates M ords (\<lambda>_. False) s n pid cs
   \<or> peer_candidates M ords waits s n pid cs = Hang \<and> (\<exists>c \<in> set cs. waits (pc_scid c))"
proof (induction cs)
  case (Cons c cs)
  then show ?case by (cases "m_is_good_candidate M (ords (pc_scid c)) s c n") auto
qed simp

lemma all_candidates_waits:
  "all_candidates M ords waits s n ex ps = all_candidates M ords (\<lambda>_. False) s n ex ps
   \<or> all_candidates M ords waits s n ex ps = Hang \<and> (\<exists>p \<in> set ps. \<exists>c \<in> set (peer_channels p). waits (pc_scid c))"
proof (induction ps)
  case (Cons p ps)
  then show ?case
    using peer_candidates_waits [of M ords waits s n "peer_id p" "peer_channels p"]
    by (cases "peer_candidates M ords (\<lambda>_. False) s n (peer_id p) (peer_channels p)") auto
qed simp

lemma get_map_values_ran: "set (get_map_values ks m) \<subseteq> ran m"
  by (induction ks) (auto simp: ran_def split: option.split)

text \<open>A search either meets such a writer and hangs, or does not notice it.\<close>

lemma find_candidates_waits:
  "find_candidates M ord ords waits s cl ex n = find_candidates M ord ords (\<lambda>_. False) s cl ex n
   \<or> find_candidates M ord ords waits s cl ex n = Hang \<and> writer_met waits n"
proof -
  have "p \<in> ran (n_peers n)" if "p \<in> set (get_candidates_list ord cl n)" for p
    using that get_map_values_ran [of ord "n_peers n"]
    by (cases cl) (auto simp: get_candidates_list_def List.map_filter_def ran_def)
  then show ?thesis
    using all_candidates_waits [of M ords waits s n ex "get_candidates_list ord cl n"]
    by (fastforce simp: find_candidates_def writer_met_def)
qed

text \<open>And it does hang when it gets to the channel, where judging the channels before that one returns.\<close>

lemma peer_candidates_hang:
  assumes "\<And>os pc. \<exists>b. m_is_good_candidate M os s pc n = Ok b"
  shows "peer_candidates M ords waits s n pid cs = Hang \<longleftrightarrow> (\<exists>c \<in> set cs. waits (pc_scid c))"
    and "(\<exists>xs. peer_candidates M ords waits s n pid cs = Ok xs) \<or> peer_candidates M ords waits s n pid cs = Hang"
proof (induction cs)
  case (Cons c cs)
  obtain b where b: "m_is_good_candidate M (ords (pc_scid c)) s c n = Ok b" using assms by blast
  {
    case 1
    then show ?case using b Cons by (cases "peer_candidates M ords waits s n pid cs") auto
  next
    case 2
    then show ?case using b Cons by auto
  }
qed simp_all

lemma all_candidates_hang:
  assumes "\<And>os pc. \<exists>b. m_is_good_candidate M os s pc n = Ok b"
  shows "all_candidates M ords waits s n ex ps = Hang
    \<longleftrightarrow> (\<exists>p \<in> set ps. peer_id p \<noteq> ex \<and> (\<exists>c \<in> set (peer_channels p). waits (pc_scid c)))"
    and "(\<exists>xs. all_candidates M ords waits s n ex ps = Ok xs) \<or> all_candidates M ords waits s n ex ps = Hang"
proof (induction ps)
  case (Cons p ps)
  note peer = peer_candidates_hang [OF assms, of ords waits "peer_id p" "peer_channels p"]
  {
    case 1
    then show ?case using peer Cons
      by (cases "peer_candidates M ords waits s n (peer_id p) (peer_channels p)"; cases "all_candidates M ords waits s n ex ps") auto
  next
    case 2
    then show ?case using peer Cons by auto
  }
qed simp_all

text \<open>
  What the methods promise about the choice of candidates: judging a channel never fails, and a channel of a peer
  other than that of the target is a candidate under the short channel id that the peer has it under. \<open>D\<close> are the
  peers at the start of the call.
\<close>

locale candidate_methods = split_methods ends ok M candidate_ok candidate_of
  for ends :: "string \<Rightarrow> string \<times> string \<times> u64" and ok :: "'d node \<Rightarrow> bool" and M :: "'d methods"
    and candidate_ok :: "channel \<Rightarrow> channel \<Rightarrow> bool" and candidate_of :: "rebalance \<Rightarrow> channel" +
  fixes D :: "string set" and target_ok :: "channel \<Rightarrow> bool" and excluded :: "channel \<Rightarrow> string"
  assumes ok_peers: "ok n \<Longrightarrow> peers_ok (n_peers n)"
    and judged: "ab_split_amount s \<noteq> 0 \<Longrightarrow> \<exists>b. m_is_good_candidate M ords s pc n = Ok b"
    and candidate_found: "ok n \<Longrightarrow> target_ok target \<Longrightarrow> n_peers n i = Some p \<Longrightarrow> i \<in> D \<Longrightarrow> i \<noteq> excluded target \<Longrightarrow>
      pc \<in> set (peer_channels p) \<Longrightarrow>
      get_graph_channel_from_peer_channel pc (m_candidate_direction M i n) n = Ok c \<Longrightarrow>
      candidate_ok target c \<and> short_channel_id c = pc_scid pc"
begin

lemma peer_candidates_ok:
  assumes "ok n" and "target_ok target" and "n_peers n i = Some p" and "i \<in> D" and "i \<noteq> excluded target"
    and "ab_split_amount s \<noteq> 0"
  shows "set pcs \<subseteq> set (peer_channels p) \<Longrightarrow> \<exists>cs. peer_candidates M ords (\<lambda>_. False) s n i pcs = Ok cs
    \<and> (\<forall>c \<in> set cs. candidate_ok target c) \<and> mset (map short_channel_id cs) \<subseteq># mset (map pc_scid pcs)"
proof (induction pcs)
  case (Cons pc pcs)
  then obtain cs where cs: "peer_candidates M ords (\<lambda>_. False) s n i pcs = Ok cs" "\<forall>c \<in> set cs. candidate_ok target c"
    "mset (map short_channel_id cs) \<subseteq># mset (map pc_scid pcs)" by auto
  obtain b where b: "m_is_good_candidate M (ords (pc_scid pc)) s pc n = Ok b" using judged [OF assms(6)] by blast
  show ?case
  proof (cases "\<exists>c. b \<and> get_graph_channel_from_peer_channel pc (m_candidate_direction M i n) n = Ok c")
    case True
    then obtain c where c: b "get_graph_channel_from_peer_channel pc (m_candidate_direction M i n) n = Ok c" by blast
    then have "candidate_ok target c" "short_channel_id c = pc_scid pc"
      using candidate_found [OF assms(1-5)] Cons.prems by auto
    then show ?thesis using b c cs by (intro exI [of _ "c # cs"]) simp
  next
    case False
    then have "peer_candidates M ords (\<lambda>_. False) s n i (pc # pcs) = Ok cs"
      using b cs(1) by (cases "get_graph_channel_from_peer_channel pc (m_candidate_direction M i n) n") auto
    then show ?thesis using cs(2) subset_add_mset [OF cs(3)] by (intro exI [of _ cs]) simp
  qed
qed simp

lemma all_candidates_ok:
  assumes "ok n" and "target_ok target" and "dom (n_peers n) \<subseteq> D" and "ab_split_amount s \<noteq> 0"
  shows "\<forall>p \<in> set ps. n_peers n (peer_id p) = Some p \<Longrightarrow> \<exists>cs. all_candidates M ords (\<lambda>_. False) s n (excluded target) ps = Ok cs
    \<and> (\<forall>c \<in> set cs. candidate_ok target c)
    \<and> mset (map short_channel_id cs) \<subseteq># mset (concat (map (\<lambda>p. map pc_scid (peer_channels p)) ps))"
proof (induction ps)
  case (Cons p ps)
  then obtain cs where cs: "all_candidates M ords (\<lambda>_. False) s n (excluded target) ps = Ok cs" "\<forall>c \<in> set cs. candidate_ok target c"
    "mset (map short_channel_id cs) \<subseteq># mset (concat (map (\<lambda>p. map pc_scid (peer_channels p)) ps))" by auto
  show ?case
  proof (cases "peer_id p = excluded target")
    case True
    then show ?thesis using cs by (intro exI [of _ cs]) (simp add: subset_mset.add_increasing)
  next
    case False
    have p: "n_peers n (peer_id p) = Some p" "peer_id p \<in> D" using Cons.prems assms(3) by auto
    from peer_candidates_ok [OF assms(1,2) p False assms(4), of "peer_channels p"] obtain cs1 where
      "peer_candidates M ords (\<lambda>_. False) s n (peer_id p) (peer_channels p) = Ok cs1" "\<forall>c \<in> set cs1. candidate_ok target c"
      "mset (map short_channel_id cs1) \<subseteq># mset (map pc_scid (peer_channels p))" by auto
    then show ?thesis using cs False by (intro exI [of _ "cs1 @ cs"]) (auto intro: subset_mset.add_mono)
  qed
qed simp

lemma find_candidates_ok:
  assumes "ok n" and "target_ok target" and "dom (n_peers n) \<subseteq> D" and "ab_split_amount s \<noteq> 0"
    and "find_candidates M ord ords waits s cl (excluded target) n = out"
  shows "out = Hang \<and> writer_met waits n \<or> out = Err ErrNoCandidates \<or> (\<exists>cs. out = Ok cs \<and> (\<forall>c \<in> set cs. candidate_ok target c)
    \<and> (distinct (case cl of None \<Rightarrow> ord | Some l \<Rightarrow> l) \<longrightarrow> distinct (map short_channel_id cs)))"
proof -
  let ?ks = "case cl of None \<Rightarrow> ord | Some l \<Rightarrow> l"
  let ?ps = "get_candidates_list ord cl n"
  have mf: "get_map_values ks m = List.map_filter m ks" for ks and m :: "string \<rightharpoonup> peer"
    by (induction ks) (auto simp: List.map_filter_simps split: option.split)
  have ps: "?ps = List.map_filter (n_peers n) ?ks"
    by (simp add: get_candidates_list_def mf split: option.split)
  have id: "peer_id p = i" if "n_peers n i = Some p" for i p using peers_okD(1) [OF ok_peers [OF assms(1)] that] .
  have known: "\<forall>p \<in> set ?ps. n_peers n (peer_id p) = Some p" using id by (auto simp: ps List.map_filter_def)
  from all_candidates_ok [OF assms(1-4) this] obtain cs where
    cs: "all_candidates M ords (\<lambda>_. False) s n (excluded target) ?ps = Ok cs" "\<forall>c \<in> set cs. candidate_ok target c"
    "mset (map short_channel_id cs) \<subseteq># mset (concat (map (\<lambda>p. map pc_scid (peer_channels p)) ?ps))" by blast
  have "distinct (concat (map (\<lambda>p. map pc_scid (peer_channels p)) ?ps))" if "distinct ?ks"
  proof -
    have "distinct (map peer_id (List.map_filter (n_peers n) ks)) \<and> peer_id ` set (List.map_filter (n_peers n) ks) \<subseteq> set ks"
      if "distinct ks" for ks
      using that by (induction ks) (auto simp: List.map_filter_simps id split: option.split)
    then have d: "distinct (map peer_id ?ps)" using that ps by simp
    have "\<forall>p \<in> set qs. n_peers n (peer_id p) = Some p \<Longrightarrow> distinct (map peer_id qs) \<Longrightarrow>
        distinct (concat (map (\<lambda>p. map pc_scid (peer_channels p)) qs))" for qs
    proof (induction qs)
      case (Cons q qs)
      have "distinct (map pc_scid (peer_channels q))"
        using peers_okD(2) [OF ok_peers [OF assms(1)], of "peer_id q" q] Cons.prems(1) by simp
      moreover have "pc_scid ` set (peer_channels q) \<inter> pc_scid ` set (peer_channels p) = {}" if "p \<in> set qs" for p
        using peers_okD(3) [OF ok_peers [OF assms(1)], of "peer_id q" q "peer_id p" p] Cons.prems that by fastforce
      ultimately show ?case using Cons by auto
    qed simp
    then show ?thesis using known d by blast
  qed
  then have "distinct ?ks \<longrightarrow> distinct (map short_channel_id cs)" using cs(3) distinct_subset_mset by blast
  moreover have "find_candidates M ord ords (\<lambda>_. False) s cl (excluded target) n =
      (if cs = [] then Err ErrNoCandidates else Ok cs)"
    using cs(1) by (simp add: find_candidates_def)
  ultimately show ?thesis
    using find_candidates_waits [of M ord ords waits s cl "excluded target" n] assms(5) cs(2) by (cases "cs = []") auto
qed

end

section \<open>The two commands meet the contract\<close>

definition pull_candidate_ok ::
  "(string \<Rightarrow> string \<times> string \<times> u64) \<Rightarrow> string \<Rightarrow> string set \<Rightarrow> channel \<Rightarrow> channel \<Rightarrow> bool" where
  "pull_candidate_ok ends me D target c \<longleftrightarrow> bolt7_fees target \<and> chan_source target \<in> D \<and> chan_destination c \<in> D
     \<and> chan_destination c \<noteq> chan_source target \<and> own_scid ends me (short_channel_id c) (chan_destination c)"

definition push_candidate_ok ::
  "(string \<Rightarrow> string \<times> string \<times> u64) \<Rightarrow> string \<Rightarrow> string set \<Rightarrow> channel \<Rightarrow> channel \<Rightarrow> bool" where
  "push_candidate_ok ends me D target c \<longleftrightarrow> bolt7_fees c \<and> chan_destination target \<in> D \<and> chan_source c \<in> D
     \<and> chan_source c \<noteq> chan_destination target \<and> own_scid ends me (short_channel_id c) (chan_source c)"

lemma pull_simps [simp]:
  "m_fire (pull_methods p) = pull_fire" "m_enqueue_candidate (pull_methods p) = pull_enqueue_candidate"
  "m_add_success (pull_methods p) = pull_add_success" "m_is_good_candidate (pull_methods p) = pull_is_good_candidate p"
  "m_candidate_direction (pull_methods p) = pull_candidate_direction"
  "rb_out (pull_fire t s c) = c" "rb_in (pull_fire t s c) = t" "rb_amount (pull_fire t s c) = ab_split_amount s"
  "rb_max_ppm (pull_fire t s c) = ab_max_ppm s" "rb_attempts (pull_fire t s c) = ab_attempts s" "rb_max_hops (pull_fire t s c) = ab_max_hops s"
  by (simp_all add: pull_methods_def pull_fire_def new_rebalance_def)

lemma push_simps [simp]:
  "m_fire (push_methods q) = push_fire" "m_enqueue_candidate (push_methods q) = push_enqueue_candidate"
  "m_add_success (push_methods q) = push_add_success" "m_is_good_candidate (push_methods q) = push_is_good_candidate q"
  "m_candidate_direction (push_methods q) = push_candidate_direction"
  "rb_in (push_fire t s c) = c" "rb_out (push_fire t s c) = t" "rb_amount (push_fire t s c) = ab_split_amount s"
  "rb_max_ppm (push_fire t s c) = ab_max_ppm s" "rb_attempts (push_fire t s c) = ab_attempts s" "rb_max_hops (push_fire t s c) = ab_max_hops s"
  by (simp_all add: push_methods_def push_fire_def new_rebalance_def)

lemma pull_enqueue_ok:
  assumes "net_ok ends me D n" and "pull_candidate_ok ends me D target c" and "success_ok (pull_fire target s c) res"
  shows "\<exists>new. pull_enqueue_candidate ord res n cs = Ok (new @ cs) \<and> (new = [] \<or>
    (\<exists>c'. new = [c'] \<and> pull_candidate_ok ends me D target c' \<and> short_channel_id c' = short_channel_id c))"
proof -
  obtain mids where scids: "result_scids res = Ok (short_channel_id c # mids)"
    using success_scids [OF assms(3)] by auto
  show ?thesis
  proof (cases "get_outgoing_channel_from_scid ord (short_channel_id c) n")
    case (Ok c')
    from assms(1) this obtain i where "own_scid ends me (short_channel_id c) i" "short_channel_id c' = short_channel_id c"
      "chan_destination c' = i" by (rule outgoing_found)
    then have "pull_candidate_ok ends me D target c'"
      using assms(2) own_scid_unique unfolding pull_candidate_ok_def by metis
    with Ok scids \<open>short_channel_id c' = short_channel_id c\<close> show ?thesis
      by (intro exI [of _ "[c']"]) (simp add: pull_enqueue_candidate_def)
  next
    case (Err e)
    then show ?thesis using scids by (simp add: pull_enqueue_candidate_def)
  qed (use own_channel_lookup_returns(1) [of ord "short_channel_id c" n] in auto)
qed

lemma push_enqueue_ok:
  assumes "net_ok ends me D n" and "push_candidate_ok ends me D target c" and "success_ok (push_fire target s c) res"
  shows "\<exists>new. push_enqueue_candidate ord res n cs = Ok (new @ cs) \<and> (new = [] \<or>
    (\<exists>c'. new = [c'] \<and> push_candidate_ok ends me D target c' \<and> short_channel_id c' = short_channel_id c))"
proof -
  obtain scids where scids: "result_scids res = Ok scids" "last scids = short_channel_id c"
    using success_scids [OF assms(3)] by auto
  show ?thesis
  proof (cases "get_incoming_channel_from_scid ord (short_channel_id c) n")
    case (Ok c')
    from assms(1) this obtain i where "own_scid ends me (short_channel_id c) i" "short_channel_id c' = short_channel_id c"
      "chan_source c' = i" "bolt7_fees c'" by (rule incoming_found)
    then have "push_candidate_ok ends me D target c'"
      using assms(2) own_scid_unique unfolding push_candidate_ok_def by metis
    with Ok scids \<open>short_channel_id c' = short_channel_id c\<close> show ?thesis
      by (intro exI [of _ "[c']"]) (simp add: push_enqueue_candidate_def)
  next
    case (Err e)
    then show ?thesis using scids by (simp add: push_enqueue_candidate_def)
  qed (use own_channel_lookup_returns(2) [of ord "short_channel_id c" n] in auto)
qed

text \<open>The target must be with a peer that we know; its fees are those of the gossip.\<close>

definition pull_target_ok :: "string set \<Rightarrow> channel \<Rightarrow> bool" where
  "pull_target_ok D target \<longleftrightarrow> bolt7_fees target \<and> chan_source target \<in> D"

definition push_target_ok :: "string set \<Rightarrow> channel \<Rightarrow> bool" where
  "push_target_ok D target \<longleftrightarrow> chan_destination target \<in> D"

lemma lookup_returns:
  "get_outgoing_channel_from_scid ord scid n \<noteq> Panic" "get_outgoing_channel_from_scid ord scid n \<noteq> Hang"
  "get_incoming_channel_from_scid ord scid n \<noteq> Panic" "get_incoming_channel_from_scid ord scid n \<noteq> Hang"
  using own_channel_lookup_returns [of ord scid n] by auto

lemma pull_judged:
  assumes "ab_split_amount s \<noteq> 0"
  shows "\<exists>b. pull_is_good_candidate p ords s pc n = Ok b"
  using assms by (auto simp: lookup_returns pull_is_good_candidate_def compute_fee_ppm_def split: go.split)

lemma push_judged:
  assumes "ab_split_amount s \<noteq> 0"
  shows "\<exists>b. push_is_good_candidate q ords s pc n = Ok b"
  using assms by (auto simp: lookup_returns push_is_good_candidate_def compute_fee_ppm_def split: go.split)

lemma peer_channel_in_graph:
  assumes "get_graph_channel_from_peer_channel pc dir n = Ok c"
  shows "channels (n_graph n) (pc_scid pc @ ''/'' @ dir) = Some c"
  using assms by (simp add: get_graph_channel_from_peer_channel_def get_channel_eq_Ok)

lemma known_scid:
  assumes "net_ok ends me D n" and "n_peers n i = Some p" and "pc \<in> set (peer_channels p)"
  shows "own_scid ends me (pc_scid pc) i"
  using assms by (auto simp: net_ok_def peers_agree_def own_scid_def)

lemma pull_candidate_found:
  assumes "net_ok ends me D n" and "pull_target_ok D target" and "n_peers n i = Some p" and "i \<in> D"
    and "i \<noteq> chan_source target" and "pc \<in> set (peer_channels p)"
    and "get_graph_channel_from_peer_channel pc (pull_candidate_direction i n) n = Ok c"
  shows "pull_candidate_ok ends me D target c \<and> short_channel_id c = pc_scid pc"
proof -
  note own = known_scid [OF assms(1,3,6)]
  have "channels (n_graph n) (pc_scid pc @ ''/'' @ get_direction me i) = Some c"
    using peer_channel_in_graph [OF assms(7)] assms(1) by (simp add: pull_candidate_direction_def net_ok_def)
  from own_channel_in_graph(1) [OF assms(1) own this] show ?thesis
    using assms(2,4,5) own by (simp add: pull_candidate_ok_def pull_target_ok_def)
qed

lemma push_candidate_found:
  assumes "net_ok ends me D n" and "push_target_ok D target" and "n_peers n i = Some p" and "i \<in> D"
    and "i \<noteq> chan_destination target" and "pc \<in> set (peer_channels p)"
    and "get_graph_channel_from_peer_channel pc (push_candidate_direction i n) n = Ok c"
  shows "push_candidate_ok ends me D target c \<and> short_channel_id c = pc_scid pc"
proof -
  note own = known_scid [OF assms(1,3,6)]
  have "channels (n_graph n) (pc_scid pc @ ''/'' @ get_direction i me) = Some c"
    using peer_channel_in_graph [OF assms(7)] assms(1) by (simp add: push_candidate_direction_def net_ok_def)
  from own_channel_in_graph(2) [OF assms(1) own this] show ?thesis
    using assms(2,4,5) own by (simp add: push_candidate_ok_def push_target_ok_def)
qed

interpretation pull: candidate_methods ends "net_ok ends me D" "pull_methods p" "pull_candidate_ok ends me D" rb_out
  D "pull_target_ok D" chan_source
  for ends me D p
proof unfold_locales
  fix s target c
  assume "settings_ok s" and "pull_candidate_ok ends me D target c"
  then show "rebalance_ok (m_fire (pull_methods p) target s c)"
    by (auto simp: settings_ok_def pull_candidate_ok_def rebalance_ok_def)
next
  fix n :: "'d node" and target c s res out_scid in_scid x
  assume "net_ok ends me D n" "pull_candidate_ok ends me D target c" "success_ok (m_fire (pull_methods p) target s c) res"
  then show "\<exists>n'. update_channel_balance (res_out res) (res_in res) out_scid in_scid x n = Ok n' \<and> net_ok ends me D n'"
    by (intro net_ok_balances) (auto simp: success_ok_def pull_candidate_ok_def)
next
  fix n :: "'d node" and target i p' pc c
  assume "net_ok ends me D n" "pull_target_ok D target" "n_peers n i = Some p'" "i \<in> D" "i \<noteq> chan_source target"
    "pc \<in> set (peer_channels p')"
    "get_graph_channel_from_peer_channel pc (m_candidate_direction (pull_methods p) i n) n = Ok c"
  then show "pull_candidate_ok ends me D target c \<and> short_channel_id c = pc_scid pc"
    by (intro pull_candidate_found) simp_all
qed (auto simp: pull_add_success_def net_ok_def pull_judged intro: pull_enqueue_ok)

interpretation push: candidate_methods ends "net_ok ends me D" "push_methods q" "push_candidate_ok ends me D" rb_in
  D "push_target_ok D" chan_destination
  for ends me D q
proof unfold_locales
  fix s target c
  assume "settings_ok s" and "push_candidate_ok ends me D target c"
  then show "rebalance_ok (m_fire (push_methods q) target s c)"
    by (auto simp: settings_ok_def push_candidate_ok_def rebalance_ok_def)
next
  fix n :: "'d node" and target c s res out_scid in_scid x
  assume "net_ok ends me D n" "push_candidate_ok ends me D target c" "success_ok (m_fire (push_methods q) target s c) res"
  then show "\<exists>n'. update_channel_balance (res_out res) (res_in res) out_scid in_scid x n = Ok n' \<and> net_ok ends me D n'"
    by (intro net_ok_balances) (auto simp: success_ok_def push_candidate_ok_def)
next
  fix n :: "'d node" and target i p' pc c
  assume "net_ok ends me D n" "push_target_ok D target" "n_peers n i = Some p'" "i \<in> D" "i \<noteq> chan_destination target"
    "pc \<in> set (peer_channels p')"
    "get_graph_channel_from_peer_channel pc (m_candidate_direction (push_methods q) i n) n = Ok c"
  then show "push_candidate_ok ends me D target c \<and> short_channel_id c = pc_scid pc"
    by (intro push_candidate_found) simp_all
qed (auto simp: push_add_success_def net_ok_def push_judged intro: push_enqueue_ok)

end
