(* ===== verification/Circle_Pull.thy ===== *)
theory Circle_Pull
  imports Circle PullPush_Sound
begin

text \<open>
  The small network of \<open>Circle\<close> for pull and push: 2000 sats in splits of 1000 are pulled into the channel with \<open>b\<close>
  from the channel with \<open>a\<close>, and pushed the same way.
\<close>

section \<open>A pull\<close>

definition circle_pull :: pull where
  "circle_pull = \<lparr>pl_in_scid = ''3'', pl_out_list = None, pl_max_out_ppm = 0, pl_amount = 2000, pl_max_ppm = 10,
     pl_splits = 2, pl_split_amount = 1000, pl_deplete_percent = F64 1 2, pl_deplete_amount = 0, pl_attempts = 1,
     pl_max_hops = 3\<rparr>"

definition circle_round :: round_env where
  "circle_round = \<lparr>ro_find = \<lambda>_. [''a'', ''b''], ro_connected = \<lambda>_. [''a'', ''b'']\<rparr>"

definition circle_call_env :: "(string \<times> string) list call_env" where
  "circle_call_env = \<lparr>ce_target = [''a'', ''b''], ce_peers = [''a'', ''b''], ce_good = \<lambda>_ _. [''a'', ''b''], ce_writer = \<lambda>_. False,
     ce_round = circle_round, ce_wakes = \<lambda>k. \<lparr>wk_pick = 0, wk_envs = circle_env, wk_others = \<lambda>_ n. n,
       wk_after = \<lambda>n. n, wk_enqueue = [''a'', ''b''], wk_round = circle_round\<rparr>, ce_elapsed = 1500\<rparr>"

definition circle_settings :: settings where
  "circle_settings = \<lparr>ab_amount = 2000000, ab_max_ppm = 10, ab_splits = 2,
   ab_split_amount = 1000000, ab_attempts = 1, ab_max_hops = 3\<rparr>"

definition circle_pull_filled :: pull where
  "circle_pull_filled = circle_pull\<lparr>pl_deplete_amount := 1000000000, pl_max_out_ppm := 50\<rparr>"

lemma circle_init: "init_settings 2000 10 1000 2 1 3 = circle_settings"
  by (simp add: init_settings_def set_generic_defaults_def Let_def circle_settings_def)

lemma circle_prepare: "pull_prepare circle_call_env circle_pull circle_node =
   Ok (circle_pull_filled,
     start_rebalance circle_settings (detour_channel ''3'' ''b'' ''u'' 5) [detour_channel ''1'' ''u'' ''a'' 0])"
  by (simp add: pull_prepare_def circle_pull_def circle_pull_filled_def pull_set_defaults_def Let_def f64_le_zero_def
   DEFAULT_DEPLETE_UP_TO_AMOUNT_def DEFAULT_MAX_OUT_PPM_def circle_init circle_settings_def
   pull_validate_def validate_generic_parameters_def f64_gt_one_def f64_lt_zero_def
   get_incoming_channel_from_scid_def get_channel_peer_from_scid_def circle_call_env_def circle_peer_def get_channel_def
   circle_channels get_direction_def find_candidates_def get_candidates_list_def pull_is_good_candidate_def
   get_outgoing_channel_from_scid_def compute_fee_ppm_def get_graph_channel_from_peer_channel_def pull_candidate_direction_def)

lemma circle_usable:
  "pull_can_use_channel circle_pull_filled [''a'', ''b''] \<lparr>pc_scid = ''1'', pc_state = NORMAL, pc_to_us = 600000000,
     pc_total = 1000000000\<rparr> circle_node = Ok ()"
  by (simp add: pull_can_use_channel_def deplete_threshold_def circle_pull_filled_def circle_pull_def go_min_def
     mul_trunc_def is_peer_connected_def get_channel_peer_from_scid_def circle_peer_def)

lemma circle_next:
  "get_next_candidate (pull_methods circle_pull_filled) circle_round circle_node [detour_channel ''1'' ''u'' ''a'' 0]
     = Some (detour_channel ''1'' ''u'' ''a'' 0, [])"
  using circle_usable
  by (simp add: get_peer_channel_from_graph_channel_def circle_round_def circle_peer_def pull_methods_def)

lemma circle_fired:
  "fire_candidates (pull_methods circle_pull_filled) circle_round circle_node
     (start_rebalance circle_settings (detour_channel ''3'' ''b'' ''u'' 5) [detour_channel ''1'' ''u'' ''a'' 0])
    = Ok ((start_rebalance circle_settings (detour_channel ''3'' ''b'' ''u'' 5) [detour_channel ''1'' ''u'' ''a'' 0])
        \<lparr>ab_candidates := [], ab_in_flight := 1000000\<rparr>, [circle_rebalance])"
proof -
  let ?a = "start_rebalance circle_settings (detour_channel ''3'' ''b'' ''u'' 5) [detour_channel ''1'' ''u'' ''a'' 0]"
  have f: "ab_amount ?a = 2000000" "ab_split_amount ?a = 1000000" "ab_splits ?a = 2"
    using truncate_fields [of ?a] by (simp_all add: circle_settings_def)
  have r: "pull_fire (detour_channel ''3'' ''b'' ''u'' 5) circle_settings (detour_channel ''1'' ''u'' ''a'' 0) = circle_rebalance"
    by (simp add: pull_fire_def circle_rebalance_def circle_settings_def)
  show ?thesis
    by (simp add: fire_candidates_def f, subst fire_loop.simps,
        simp add: carry_on_def splits_in_flight_def circle_next f r del: get_next_candidate.simps,
        subst fire_loop.simps, simp add: carry_on_def splits_in_flight_def f)
qed

section \<open>A push\<close>

definition circle_push :: push where
  "circle_push = \<lparr>ps_out_scid = ''1'', ps_in_list = None, ps_min_out_ppm = 4, ps_amount = 2000, ps_max_ppm = 10,
     ps_splits = 2, ps_split_amount = 1000, ps_attempts = 1, ps_max_hops = 3, ps_fill_percent = F64 1 2,
     ps_fill_amount = 0\<rparr>"

definition circle_push_filled :: push where
  "circle_push_filled = circle_push\<lparr>ps_fill_amount := 10000000000\<rparr>"

lemma circle_push_prepare: "push_prepare circle_call_env circle_push circle_node =
   Ok (circle_push_filled,
     start_rebalance circle_settings (detour_channel ''1'' ''u'' ''a'' 0) [detour_channel ''3'' ''b'' ''u'' 5])"
  by (simp add: push_prepare_def circle_push_def circle_push_filled_def push_set_defaults_def Let_def f64_le_zero_def
   DEFAULT_FILL_UP_TO_AMOUNT_def DEFAULT_MIN_OUT_PPM_def circle_init circle_settings_def
   push_validate_def validate_generic_parameters_def f64_gt_one_def f64_lt_zero_def
   get_incoming_channel_from_scid_def get_channel_peer_from_scid_def circle_call_env_def circle_peer_def get_channel_def
   circle_channels get_direction_def find_candidates_def get_candidates_list_def push_is_good_candidate_def
   get_outgoing_channel_from_scid_def compute_fee_ppm_def get_graph_channel_from_peer_channel_def push_candidate_direction_def)

section \<open>The invariant holds\<close>

lemma circle_net_ok: "net_ok circle_ends ''u'' {''a'', ''b''} circle_node"
  by (auto simp: net_ok_def circle_node_good circle_agree circle_peers_ok(1) simp del: circle_node_simps(6))
    (simp_all add: dom_def)

lemma circle_wakes: "wake_ok ok (ce_wakes circle_call_env k)"
  by (simp add: wake_ok_def others_keep_def circle_call_env_def)

lemma circle_dom: "dom (n_peers circle_node) = {''a'', ''b''}"
  by (auto split: if_splits)

end
