(* ===== verification/PullPush_Properties.thy ===== *)
theory PullPush_Properties
  imports Circle_Pull
begin

text \<open>
  The properties of pull and push. The bounds on the parameters are far above any real amount: an amount below
  \<open>2 ^ 50\<close> sats, splits of at most \<open>2 ^ 30\<close> sats (about 10 BTC each), at most 12 hops.
\<close>

section \<open>Parameters\<close>

definition moderate_amounts :: "u64 \<Rightarrow> u64 \<Rightarrow> int \<Rightarrow> bool" where
  "moderate_amounts amount splitamount maxhops \<longleftrightarrow>
     unat amount < 2 ^ 50 \<and> unat splitamount \<le> 2 ^ 30 \<and> maxhops \<le> 12"

definition or_default :: "u64 \<Rightarrow> u64 \<Rightarrow> u64" where
  "or_default x d = (if x = 0 then d else x)"

lemma init_settings_fields:
  "ab_amount (init_settings amount maxppm splitamount splits attempts maxhops) = or_default amount PAR_AMOUNT * 1000"
  "ab_split_amount (init_settings amount maxppm splitamount splits attempts maxhops) =
     or_default splitamount PAR_SPLIT_AMOUNT * 1000"
  "ab_attempts (init_settings amount maxppm splitamount splits attempts maxhops) =
     (if attempts \<le> 0 then DEFAULT_ATTEMPTS else attempts)"
  "ab_max_hops (init_settings amount maxppm splitamount splits attempts maxhops) =
     (if maxhops \<le> 0 then DEFAULT_MAXHOPS else maxhops)"
  "ab_max_ppm (init_settings amount maxppm splitamount splits attempts maxhops) = or_default maxppm DEFAULT_MAXPPM"
  "ab_splits (init_settings amount maxppm splitamount splits attempts maxhops) =
     (if splits = 0 then PAR_SPLITS else splits)"
  by (simp_all add: init_settings_def set_generic_defaults_def Let_def or_default_def)

lemma init_settings_ok:
  assumes "moderate_amounts amount splitamount maxhops"
    and "s = init_settings amount maxppm splitamount splits attempts maxhops"
    and "validate_generic_parameters s = Ok ()"
  shows "settings_ok s" and "ab_amount s div 1000 = or_default amount PAR_AMOUNT"
proof -
  let ?a = "or_default amount PAR_AMOUNT" and ?d = "or_default splitamount PAR_SPLIT_AMOUNT"
  have b: "unat ?a < 1125899906842624" "unat ?d \<le> 1073741824" "0 < unat ?d"
    using assms(1) by (auto simp: moderate_amounts_def or_default_def PAR_AMOUNT_def PAR_SPLIT_AMOUNT_def unat_gt_0)
  have a: "unat (ab_amount s) = unat ?a * 1000" and d: "unat (ab_split_amount s) = unat ?d * 1000"
    using b unat_mult64 [of ?a 1000] unat_mult64 [of ?d 1000] by (simp_all add: assms(2) init_settings_fields)
  show "ab_amount s div 1000 = ?a" using a by (simp add: u64_eq_iff unat_div64)
  have "ab_amount s mod ab_split_amount s = 0" using assms(3) by (auto simp: validate_generic_parameters_def split: if_splits)
  then have "unat (ab_amount s) mod unat (ab_split_amount s) = 0" using unat_mod64 by (metis unat_0)
  then have "unat (ab_split_amount s) dvd unat (ab_amount s)" by (simp add: mod_eq_0_iff_dvd)
  moreover have "ab_split_amount s \<noteq> 0" using b d by (auto simp flip: unat_eq_zero)
  ultimately show "settings_ok s"
    using a b d assms(1) by (simp add: settings_ok_def init_settings_fields assms(2) moderate_amounts_def
        DEFAULT_ATTEMPTS_def DEFAULT_MAXHOPS_def)
qed

lemma validate_returns_split:
  "validate_generic_parameters s = Panic \<Longrightarrow> ab_split_amount s = 0"
  "validate_generic_parameters s \<noteq> Hang"
  by (auto simp: validate_generic_parameters_def split: if_splits)

lemma moderate_split_nonzero:
  assumes "moderate_amounts amount splitamount maxhops"
  shows "ab_split_amount (init_settings amount maxppm splitamount splits attempts maxhops) \<noteq> 0"
proof -
  let ?d = "or_default splitamount PAR_SPLIT_AMOUNT"
  have b: "unat ?d \<le> 1073741824" "0 < unat ?d"
    using assms by (auto simp: moderate_amounts_def or_default_def PAR_SPLIT_AMOUNT_def unat_gt_0)
  then have "unat (?d * 1000) = unat ?d * 1000" using unat_mult64 [of ?d 1000] by simp
  then show ?thesis using b by (simp add: init_settings_fields flip: unat_eq_zero)
qed

section \<open>Preparation\<close>

text \<open>The peers at the start of a call are those that must not be forgotten while it runs.\<close>

definition call_ok :: "(string \<Rightarrow> string \<times> string \<times> u64) \<Rightarrow> 'd call_env \<Rightarrow> 'd node \<Rightarrow> bool" where
  "call_ok ends env n \<longleftrightarrow> net_ok ends (n_id n) (dom (n_peers n)) n
     \<and> (\<forall>k. wake_ok (net_ok ends (n_id n) (dom (n_peers n))) (ce_wakes env k))"

definition pull_settings :: "pull \<Rightarrow> settings" where
  "pull_settings p = init_settings (pl_amount p) (pl_max_ppm p) (pl_split_amount p) (pl_splits p)
     (pl_attempts p) (pl_max_hops p)"

definition push_settings :: "push \<Rightarrow> settings" where
  "push_settings p = init_settings (ps_amount p) (ps_max_ppm p) (ps_split_amount p) (ps_splits p)
     (ps_attempts p) (ps_max_hops p)"

lemma pull_prepare_outcome:
  assumes "call_ok ends env n" and "moderate_amounts (pl_amount p) (pl_split_amount p) (pl_max_hops p)"
  shows "(\<exists>e. pull_prepare env p n = Err e) \<or>
    pull_prepare env p n = Hang \<and> writer_met (ce_writer env) n \<or>
    (\<exists>p' target cs. pull_prepare env p n = Ok (p', start_rebalance (pull_settings p) target cs)
       \<and> settings_ok (pull_settings p) \<and> ab_amount (pull_settings p) div 1000 = or_default (pl_amount p) PAR_AMOUNT
       \<and> (\<forall>c \<in> set cs. pull_candidate_ok ends (n_id n) (dom (n_peers n)) target c)
       \<and> (distinct (case pl_out_list p of None \<Rightarrow> ce_peers env | Some l \<Rightarrow> l) \<longrightarrow> distinct (map short_channel_id cs)))"
proof -
  let ?s = "pull_settings p" and ?D = "dom (n_peers n)"
  define q where "q = pull_set_defaults (if pl_out_list p \<noteq> None then p\<lparr>pl_max_out_ppm := 2 ^ 63\<rparr> else p)"
  have l: "pl_out_list q = pl_out_list p" by (simp add: q_def pull_set_defaults_def Let_def)
  have s: "pull_settings p = init_settings (pl_amount p) (pl_max_ppm p) (pl_split_amount p) (pl_splits p)
      (pl_attempts p) (pl_max_hops p)" by (simp add: pull_settings_def)
  have net: "net_ok ends (n_id n) ?D n" using assms(1) by (simp add: call_ok_def)
  have nz: "ab_split_amount ?s \<noteq> 0" using moderate_split_nonzero [OF assms(2)] s by simp
  have prep: "pull_prepare env p n = (if pl_in_scid p = [] then Err ErrNoRequiredParameter
      else go_bind (pull_validate q ?s) (\<lambda>_. go_bind (get_incoming_channel_from_scid (ce_target env) (pl_in_scid q) n)
        (\<lambda>target. go_bind (find_candidates (pull_methods q) (ce_peers env) (ce_good env) (ce_writer env) ?s (pl_out_list q)
          (chan_source target) n) (\<lambda>cs. Ok (q, start_rebalance ?s target cs)))))"
    by (simp add: pull_prepare_def q_def pull_settings_def Let_def)
  show ?thesis
  proof (cases "pull_validate q ?s")
    case (Ok u)
    then have v: "validate_generic_parameters ?s = Ok ()" by (auto simp: pull_validate_def go_bind_eq_Ok)
    show ?thesis
    proof (cases "get_incoming_channel_from_scid (ce_target env) (pl_in_scid q) n")
      case target: (Ok target)
      from net target obtain i where "i \<in> ?D" "chan_source target = i" "bolt7_fees target" by (rule incoming_found)
      then have "pull_target_ok ?D target" by (simp add: pull_target_ok_def)
      then consider (hang) "find_candidates (pull_methods q) (ce_peers env) (ce_good env) (ce_writer env) ?s (pl_out_list p)
            (chan_source target) n = Hang" "writer_met (ce_writer env) n"
        | (none) "find_candidates (pull_methods q) (ce_peers env) (ce_good env) (ce_writer env) ?s (pl_out_list p)
            (chan_source target) n = Err ErrNoCandidates"
        | (some) cs where "find_candidates (pull_methods q) (ce_peers env) (ce_good env) (ce_writer env) ?s (pl_out_list p)
            (chan_source target) n = Ok cs" "\<forall>c \<in> set cs. pull_candidate_ok ends (n_id n) ?D target c"
          "distinct (case pl_out_list p of None \<Rightarrow> ce_peers env | Some l \<Rightarrow> l) \<longrightarrow> distinct (map short_channel_id cs)"
        using pull.find_candidates_ok [where p = q and ord = "ce_peers env" and ords = "ce_good env"
            and waits = "ce_writer env" and cl = "pl_out_list p", OF net _ order_refl nz refl] by blast
      then show ?thesis
      proof cases
        case hang
        then show ?thesis using Ok target by (simp add: prep l)
      next
        case none
        then show ?thesis using Ok target by (simp add: prep l)
      next
        case (some cs)
        show ?thesis
        proof (cases "pl_in_scid p = []")
          case False
          then have "pull_prepare env p n = Ok (q, start_rebalance ?s target cs)"
            using Ok target some(1) by (simp add: prep l)
          then show ?thesis using some(2,3) init_settings_ok [OF assms(2) s v] by blast
        qed (simp add: prep)
      qed
    qed (use Ok in \<open>simp_all add: prep lookup_returns\<close>)
  next
    case Panic
    then show ?thesis using validate_returns_split [of ?s] nz
      by (cases "validate_generic_parameters ?s") (auto simp: pull_validate_def split: if_splits)
  next
    case Hang
    then show ?thesis using validate_returns_split [of ?s]
      by (cases "validate_generic_parameters ?s") (auto simp: pull_validate_def split: if_splits)
  qed (simp add: prep)
qed

lemma push_prepare_outcome:
  assumes "call_ok ends env n" and "moderate_amounts (ps_amount p) (ps_split_amount p) (ps_max_hops p)"
  shows "(\<exists>e. push_prepare env p n = Err e) \<or>
    push_prepare env p n = Hang \<and> writer_met (ce_writer env) n \<or>
    (\<exists>p' target cs. push_prepare env p n = Ok (p', start_rebalance (push_settings p) target cs)
       \<and> settings_ok (push_settings p) \<and> ab_amount (push_settings p) div 1000 = or_default (ps_amount p) PAR_AMOUNT
       \<and> (\<forall>c \<in> set cs. push_candidate_ok ends (n_id n) (dom (n_peers n)) target c)
       \<and> (distinct (case ps_in_list p of None \<Rightarrow> ce_peers env | Some l \<Rightarrow> l) \<longrightarrow> distinct (map short_channel_id cs)))"
proof -
  let ?s = "push_settings p" and ?D = "dom (n_peers n)"
  define q where "q = push_set_defaults (if ps_in_list p \<noteq> None then p\<lparr>ps_min_out_ppm := 0\<rparr> else p)"
  have l: "ps_in_list q = ps_in_list p" by (simp add: q_def push_set_defaults_def Let_def)
  have s: "push_settings p = init_settings (ps_amount p) (ps_max_ppm p) (ps_split_amount p) (ps_splits p)
      (ps_attempts p) (ps_max_hops p)" by (simp add: push_settings_def)
  have net: "net_ok ends (n_id n) ?D n" using assms(1) by (simp add: call_ok_def)
  have nz: "ab_split_amount ?s \<noteq> 0" using moderate_split_nonzero [OF assms(2)] s by simp
  have prep: "push_prepare env p n = (if ps_out_scid p = [] then Err ErrNoRequiredParameter
      else go_bind (push_validate q ?s) (\<lambda>_. go_bind (get_outgoing_channel_from_scid (ce_target env) (ps_out_scid q) n)
        (\<lambda>target. go_bind (find_candidates (push_methods q) (ce_peers env) (ce_good env) (ce_writer env) ?s (ps_in_list q)
          (chan_destination target) n) (\<lambda>cs. Ok (q, start_rebalance ?s target cs)))))"
    by (simp add: push_prepare_def q_def push_settings_def Let_def)
  show ?thesis
  proof (cases "push_validate q ?s")
    case (Ok u)
    then have v: "validate_generic_parameters ?s = Ok ()" by (auto simp: push_validate_def go_bind_eq_Ok)
    show ?thesis
    proof (cases "get_outgoing_channel_from_scid (ce_target env) (ps_out_scid q) n")
      case target: (Ok target)
      from net target obtain i where "i \<in> ?D" "chan_destination target = i" by (rule outgoing_found)
      then have "push_target_ok ?D target" by (simp add: push_target_ok_def)
      then consider (hang) "find_candidates (push_methods q) (ce_peers env) (ce_good env) (ce_writer env) ?s (ps_in_list p)
            (chan_destination target) n = Hang" "writer_met (ce_writer env) n"
        | (none) "find_candidates (push_methods q) (ce_peers env) (ce_good env) (ce_writer env) ?s (ps_in_list p)
            (chan_destination target) n = Err ErrNoCandidates"
        | (some) cs where "find_candidates (push_methods q) (ce_peers env) (ce_good env) (ce_writer env) ?s (ps_in_list p)
            (chan_destination target) n = Ok cs" "\<forall>c \<in> set cs. push_candidate_ok ends (n_id n) ?D target c"
          "distinct (case ps_in_list p of None \<Rightarrow> ce_peers env | Some l \<Rightarrow> l) \<longrightarrow> distinct (map short_channel_id cs)"
        using push.find_candidates_ok [where q = q and ord = "ce_peers env" and ords = "ce_good env"
            and waits = "ce_writer env" and cl = "ps_in_list p", OF net _ order_refl nz refl] by blast
      then show ?thesis
      proof cases
        case hang
        then show ?thesis using Ok target by (simp add: prep l)
      next
        case none
        then show ?thesis using Ok target by (simp add: prep l)
      next
        case (some cs)
        show ?thesis
        proof (cases "ps_out_scid p = []")
          case False
          then have "push_prepare env p n = Ok (q, start_rebalance ?s target cs)"
            using Ok target some(1) by (simp add: prep l)
          then show ?thesis using some(2,3) init_settings_ok [OF assms(2) s v] by blast
        qed (simp add: prep)
      qed
    qed (use Ok in \<open>simp_all add: prep lookup_returns\<close>)
  next
    case Panic
    then show ?thesis using validate_returns_split [of ?s] nz
      by (cases "validate_generic_parameters ?s") (auto simp: push_validate_def split: if_splits)
  next
    case Hang
    then show ?thesis using validate_returns_split [of ?s]
      by (cases "validate_generic_parameters ?s") (auto simp: push_validate_def split: if_splits)
  qed (simp add: prep)
qed

section \<open>Every call returns\<close>

lemma pull_outcome:
  assumes "call_ok ends env n" and "moderate_amounts (pl_amount p) (pl_split_amount p) (pl_max_hops p)"
  shows "(\<exists>e. pull_call B env p n = Some (Err e)) \<or>
    pull_call B env p n = Some Hang \<and> writer_met (ce_writer env) n \<or>
    (\<exists>res n'. pull_call B env p n = Some (Ok (res, n')) \<and> net_ok ends (n_id n) (dom (n_peers n)) n'
       \<and> pt_target res = or_default (pl_amount p) PAR_AMOUNT \<and> unat (pt_rebalanced res) \<le> unat (pt_target res)
       \<and> success_total res = pt_rebalanced res \<and> rates_within (or_default (pl_max_ppm p) DEFAULT_MAXPPM) res
       \<and> (\<exists>p' a. pull_prepare env p n = Ok (p', a) \<and> unat (pt_attempts res) \<le>
            (unat (ab_amount a) div unat (ab_split_amount a) + length (ab_candidates a)) * nat (ab_attempts a)))"
  using pull_prepare_outcome [OF assms]
proof (elim disjE exE conjE)
  fix p' target cs
  assume prep: "pull_prepare env p n = Ok (p', start_rebalance (pull_settings p) target cs)"
    and s: "settings_ok (pull_settings p)" "ab_amount (pull_settings p) div 1000 = or_default (pl_amount p) PAR_AMOUNT"
    and cs: "\<forall>c \<in> set cs. pull_candidate_ok ends (n_id n) (dom (n_peers n)) target c"
  have net: "net_ok ends (n_id n) (dom (n_peers n)) n"
    and wakes: "\<forall>k. wake_ok (net_ok ends (n_id n) (dom (n_peers n))) (ce_wakes env k)"
    using assms(1) by (simp_all add: call_ok_def)
  have fields: "ab_amount (start_rebalance (pull_settings p) target cs) = ab_amount (pull_settings p)"
    "ab_split_amount (start_rebalance (pull_settings p) target cs) = ab_split_amount (pull_settings p)"
    "ab_attempts (start_rebalance (pull_settings p) target cs) = ab_attempts (pull_settings p)"
    using truncate_fields [of "start_rebalance (pull_settings p) target cs"] by simp_all
  from pull.fire_and_wait_returns [where p = p', OF s(1) net cs wakes, of B] show ?thesis
    using prep s(2) fields by (auto simp: pull_call_def pull_settings_def init_settings_fields)
qed (simp_all add: pull_call_def)

text \<open>C8. What a call of a pull can come to, whatever its rebalances meet and whatever the other goroutines do that keeps
  the node well-formed: an error before anything is fired, or a result, or, only when a writer of the peers announces
  itself while a channel is judged, the deadlock of the search for candidates (C15). There is no panic and no other way
  to wait forever, and the result comes after finitely many received ones. It names the requested amount, at most
  that much was moved, the amounts listed by peer and fee rate add up to the amount that was moved, no fee rate is above
  the one that was asked for or the default one, and the attempts are bounded by those of as many rebalances as there
  are splits in the amount and candidates. Conditions: an amount below \<open>2 ^ 50\<close> sats, a split of at most \<open>2 ^ 30\<close> sats,
  which excludes the panic of C36, and at most 12 hops; fees within the u32 of BOLT 7; our peers and their channels as
  the gossip has them (\<open>net_ok\<close>); all locks other than the one of that search become free again (C10).\<close>

theorem pull_returns:
  assumes "call_ok ends env n" and "moderate_amounts (pl_amount p) (pl_split_amount p) (pl_max_hops p)"
  shows "(\<exists>e. pull_call B env p n = Some (Err e)) \<or>
    pull_call B env p n = Some Hang \<and> writer_met (ce_writer env) n \<or>
    (\<exists>res n'. pull_call B env p n = Some (Ok (res, n')) \<and> net_ok ends (n_id n) (dom (n_peers n)) n'
       \<and> pt_target res = or_default (pl_amount p) PAR_AMOUNT \<and> unat (pt_rebalanced res) \<le> unat (pt_target res)
       \<and> success_total res = pt_rebalanced res \<and> rates_within (or_default (pl_max_ppm p) DEFAULT_MAXPPM) res
       \<and> (\<exists>p' a. pull_prepare env p n = Ok (p', a) \<and> unat (pt_attempts res) \<le>
            (unat (ab_amount a) div unat (ab_split_amount a) + length (ab_candidates a)) * nat (ab_attempts a)))"
  by (rule pull_outcome [OF assms])

lemma circle_call_ok: "call_ok circle_ends circle_call_env circle_node"
  by (simp only: call_ok_def circle_dom circle_wakes circle_net_ok circle_node_simps(1) simp_thms)

lemma circle_pull_settings: "pull_settings circle_pull = circle_settings"
  by (simp add: pull_settings_def circle_pull_def circle_init)

lemma circle_settings_ok: "settings_ok circle_settings"
  by (simp add: settings_ok_def circle_settings_def)

lemma circle_pull_moderate:
  "moderate_amounts (pl_amount circle_pull) (pl_split_amount circle_pull) (pl_max_hops circle_pull)"
  "moderate_amounts (ps_amount circle_push) (ps_split_amount circle_push) (ps_max_hops circle_push)"
  by (simp_all add: moderate_amounts_def circle_pull_def circle_push_def)

theorem pull_returns_witness:
  "\<exists>res n'. pull_call map_library circle_call_env circle_pull circle_node = Some (Ok (res, n'))
     \<and> pt_target res = 2000 \<and> unat (pt_rebalanced res) \<le> 2000"
proof -
  let ?t = "detour_channel ''3'' ''b'' ''u'' 5" and ?c = "detour_channel ''1'' ''u'' ''a'' 0"
  have "own_scid circle_ends ''u'' ''1'' ''a''"
    by (simp add: own_scid_def circle_ends_def circle_channels channel_key_def get_direction_def)
  then have cs: "\<forall>c \<in> set [?c]. pull_candidate_ok circle_ends ''u'' {''a'', ''b''} ?t c"
    by (simp add: pull_candidate_ok_def detour_bolt7)
  have "\<exists>res n'. pull_call map_library circle_call_env circle_pull circle_node = Some (Ok (res, n'))"
    using pull.fire_and_wait_returns [OF circle_settings_ok circle_net_ok cs, of circle_call_env circle_pull_filled
        map_library] circle_wakes by (auto simp: pull_call_def circle_prepare)
  with pull_returns [OF circle_call_ok circle_pull_moderate(1), of map_library] show ?thesis
    by (auto simp: or_default_def circle_pull_def)
qed

text \<open>The other end: when a writer waits for the peers while the channel with \<open>a\<close> is judged, the same pull hangs.\<close>

lemma circle_pull_hangs:
  "pull_call map_library (circle_call_env\<lparr>ce_writer := \<lambda>scid. scid = ''1''\<rparr>) circle_pull circle_node = Some Hang"
  by (simp add: pull_call_def pull_prepare_def circle_pull_def pull_set_defaults_def Let_def f64_le_zero_def
   DEFAULT_DEPLETE_UP_TO_AMOUNT_def DEFAULT_MAX_OUT_PPM_def circle_init circle_settings_def
   pull_validate_def validate_generic_parameters_def f64_gt_one_def f64_lt_zero_def
   get_incoming_channel_from_scid_def get_channel_peer_from_scid_def circle_call_env_def circle_peer_def get_channel_def
   circle_channels get_direction_def find_candidates_def get_candidates_list_def)

lemma push_outcome:
  assumes "call_ok ends env n" and "moderate_amounts (ps_amount q) (ps_split_amount q) (ps_max_hops q)"
  shows "(\<exists>e. push_call B env q n = Some (Err e)) \<or>
    push_call B env q n = Some Hang \<and> writer_met (ce_writer env) n \<or>
    (\<exists>res n'. push_call B env q n = Some (Ok (res, n')) \<and> net_ok ends (n_id n) (dom (n_peers n)) n'
       \<and> pt_target res = or_default (ps_amount q) PAR_AMOUNT \<and> unat (pt_rebalanced res) \<le> unat (pt_target res)
       \<and> success_total res = pt_rebalanced res \<and> rates_within (or_default (ps_max_ppm q) DEFAULT_MAXPPM) res
       \<and> (\<exists>q' a. push_prepare env q n = Ok (q', a) \<and> unat (pt_attempts res) \<le>
            (unat (ab_amount a) div unat (ab_split_amount a) + length (ab_candidates a)) * nat (ab_attempts a)))"
  using push_prepare_outcome [OF assms]
proof (elim disjE exE conjE)
  fix q' target cs
  assume prep: "push_prepare env q n = Ok (q', start_rebalance (push_settings q) target cs)"
    and s: "settings_ok (push_settings q)" "ab_amount (push_settings q) div 1000 = or_default (ps_amount q) PAR_AMOUNT"
    and cs: "\<forall>c \<in> set cs. push_candidate_ok ends (n_id n) (dom (n_peers n)) target c"
  have net: "net_ok ends (n_id n) (dom (n_peers n)) n"
    and wakes: "\<forall>k. wake_ok (net_ok ends (n_id n) (dom (n_peers n))) (ce_wakes env k)"
    using assms(1) by (simp_all add: call_ok_def)
  have fields: "ab_amount (start_rebalance (push_settings q) target cs) = ab_amount (push_settings q)"
    "ab_split_amount (start_rebalance (push_settings q) target cs) = ab_split_amount (push_settings q)"
    "ab_attempts (start_rebalance (push_settings q) target cs) = ab_attempts (push_settings q)"
    using truncate_fields [of "start_rebalance (push_settings q) target cs"] by simp_all
  from push.fire_and_wait_returns [where q = q', OF s(1) net cs wakes, of B] show ?thesis
    using prep s(2) fields by (auto simp: push_call_def push_settings_def init_settings_fields)
qed (simp_all add: push_call_def)

text \<open>C26. A push comes to the same ends under the same conditions: an error before anything is fired, a result, or, only
  when a writer of the peers announces itself while a channel is judged, the deadlock of the search for candidates
  (C15). Its result keeps the limits of a pull's: the requested amount is named, at most that much was moved, the
  listed amounts add up to it, no listed fee rate is above the limit, and the attempts are bounded. Conditions as for a
  pull: an amount below \<open>2 ^ 50\<close> sats, splits of at most \<open>2 ^ 30\<close> sats and 12 hops at most, fees within the u32 of BOLT 7,
  peers as the gossip has them, and all other locks become free again (C10).\<close>

theorem push_returns:
  assumes "call_ok ends env n" and "moderate_amounts (ps_amount q) (ps_split_amount q) (ps_max_hops q)"
  shows "(\<exists>e. push_call B env q n = Some (Err e)) \<or>
    push_call B env q n = Some Hang \<and> writer_met (ce_writer env) n \<or>
    (\<exists>res n'. push_call B env q n = Some (Ok (res, n')) \<and> net_ok ends (n_id n) (dom (n_peers n)) n'
       \<and> pt_target res = or_default (ps_amount q) PAR_AMOUNT \<and> unat (pt_rebalanced res) \<le> unat (pt_target res)
       \<and> success_total res = pt_rebalanced res \<and> rates_within (or_default (ps_max_ppm q) DEFAULT_MAXPPM) res
       \<and> (\<exists>q' a. push_prepare env q n = Ok (q', a) \<and> unat (pt_attempts res) \<le>
            (unat (ab_amount a) div unat (ab_split_amount a) + length (ab_candidates a)) * nat (ab_attempts a)))"
  by (rule push_outcome [OF assms])

theorem push_returns_witness:
  "\<exists>res n'. push_call map_library circle_call_env circle_push circle_node = Some (Ok (res, n'))
     \<and> pt_target res = 2000 \<and> unat (pt_rebalanced res) \<le> 2000"
proof -
  let ?c = "detour_channel ''3'' ''b'' ''u'' 5" and ?t = "detour_channel ''1'' ''u'' ''a'' 0"
  have "own_scid circle_ends ''u'' ''3'' ''b''"
    by (simp add: own_scid_def circle_ends_def circle_channels channel_key_def get_direction_def)
  then have cs: "\<forall>c \<in> set [?c]. push_candidate_ok circle_ends ''u'' {''a'', ''b''} ?t c"
    by (simp add: push_candidate_ok_def detour_bolt7)
  have "\<exists>res n'. push_call map_library circle_call_env circle_push circle_node = Some (Ok (res, n'))"
    using push.fire_and_wait_returns [OF circle_settings_ok circle_net_ok cs, of circle_call_env circle_push_filled
        map_library] circle_wakes by (auto simp: push_call_def circle_push_prepare)
  with push_returns [OF circle_call_ok circle_pull_moderate(2), of map_library] show ?thesis
    by (auto simp: or_default_def circle_push_def)
qed

section \<open>What is in flight\<close>

text \<open>C3. Whenever a pull waits: every rebalance in flight has the amount of one split and goes into the target
  channel; no two of them leave through the same channel; at most \<^verbatim>\<open>splits\<close> of them are in flight; the
  recorded amount in flight is theirs; and together with what has been moved it never exceeds the target. Conditions:
  no peer is named twice in \<^verbatim>\<open>outlist\<close> (a peer that is named twice has its channels queued twice, and two rebalances
  can leave through one channel), or, without a list, every peer comes once in the loop over the map; the bounds on the
  parameters and the well-formed node of a pull that returns (C8), with any fees within the u32 of BOLT 7.\<close>

theorem pull_in_flight:
  assumes "call_ok ends env n" and "moderate_amounts (pl_amount p) (pl_split_amount p) (pl_max_hops p)"
    and "pull_prepare env p n = Ok (p', a0)" and "fire_candidates (pull_methods p') (ce_round env) n a0 = Ok (a1, fired)"
    and "turns (wake_ok (net_ok ends (n_id n) (dom (n_peers n)))) (pull_methods p') B
      (fired, a1\<lparr>ab_result := new_par_result (ab_amount a1)\<rparr>, n) (running, a, n')"
    and "distinct (case pl_out_list p of None \<Rightarrow> ce_peers env | Some l \<Rightarrow> l)"
  shows "(\<forall>r \<in> set running. rb_amount r = ab_split_amount a0 \<and> rb_in r = ab_target a0)
    \<and> distinct (map (short_channel_id \<circ> rb_out) running)
    \<and> length running \<le> nat (ab_splits a0)
    \<and> unat (ab_in_flight a) = length running * unat (ab_split_amount a0)
    \<and> unat (ab_rebalanced a) + unat (ab_in_flight a) \<le> unat (ab_amount a0)"
proof -
  let ?s = "pull_settings p" and ?D = "dom (n_peers n)"
  obtain target cs where a0: "a0 = start_rebalance ?s target cs" and s: "settings_ok ?s"
    and cs: "\<forall>c \<in> set cs. pull_candidate_ok ends (n_id n) ?D target c" "distinct (map short_channel_id cs)"
    using pull_prepare_outcome [OF assms(1,2)] assms(3,6) by auto
  have net: "net_ok ends (n_id n) ?D n" using assms(1) by (simp add: call_ok_def)
  from pull.started [where p = p', OF s net cs(1) assms(4) [unfolded a0]] obtain flying where
    w: "waiting (net_ok ends (n_id n) ?D) (pull_methods p') (pull_candidate_ok ends (n_id n) ?D) target ?s flying fired
        (a1\<lparr>ab_result := new_par_result (ab_amount a1)\<rparr>) n"
    and sc: "scids flying a1 \<subseteq># image_mset short_channel_id (mset cs)" and len: "length flying \<le> nat (ab_splits ?s)"
    by blast
  from pull.turns_invariant [where p = p', OF s assms(5) refl refl w] obtain cs' where
    w': "waiting (net_ok ends (n_id n) ?D) (pull_methods p') (pull_candidate_ok ends (n_id n) ?D) target ?s cs' running a n'"
    and sc': "scids cs' a \<subseteq># scids flying (a1\<lparr>ab_result := new_par_result (ab_amount a1)\<rparr>)"
    and len': "length cs' \<le> max (length flying) (nat (ab_splits ?s))" by blast
  have st: "amounts_ok ?s (length cs') a" and running: "running = map (pull_fire target ?s) cs'"
    using w' by (simp_all add: waiting_def state_ok_def)
  have fields: "ab_amount a0 = ab_amount ?s" "ab_split_amount a0 = ab_split_amount ?s" "ab_splits a0 = ab_splits ?s"
    "ab_target a0 = target" using truncate_fields [of a0] by (simp_all add: a0)
  have "mset (map short_channel_id cs') \<subseteq># scids cs' a" by (simp add: scids_def)
  also have "scids cs' a \<subseteq># mset (map short_channel_id cs)"
    using sc' sc by (auto simp: scids_def intro: subset_mset.order_trans)
  finally have "distinct (map short_channel_id cs')" by (rule distinct_subset_mset [OF cs(2)])
  then have "distinct (map (short_channel_id \<circ> rb_out) running)" by (simp add: running comp_def)
  then show ?thesis using st running len len' fields by (auto simp: amounts_ok_def)
qed

text \<open>
  The witness fires the pull of the circle, receives the result of its rebalance, which has succeeded, and handles it: the
  first 1000 sats are moved, and the channel goes out with the second 1000.
\<close>

text \<open>The rebalance succeeds, its channel goes back into the queue and is fired again.\<close>

lemma circle_handled:
  assumes "n_peers n = n_peers circle_node" and "n_graph n = circle_graph" and "n_id n = ''u''"
    and "success_ok circle_rebalance res"
    and a: "a = start_rebalance circle_settings (detour_channel ''3'' ''b'' ''u'' 5) [detour_channel ''1'' ''u'' ''a'' 0]
        \<lparr>ab_candidates := [], ab_in_flight := 1000000, ab_result := p\<rparr>"
  shows "\<exists>a' n'. handle_result (pull_methods circle_pull_filled) (ce_wakes circle_call_env 0) res a n = Ok (a', [circle_rebalance], n')
     \<and> ab_rebalanced a' = 1000000"
proof -
  from assms(4) obtain pr mids where pr: "res_route res = Some pr" "map ph_scid (pr_hops pr) = ''1'' # mids @ [''3'']"
    and res: "res_status res = ''success''" "res_amount res = 1000" "res_out res = ''a''" "res_in res = ''b''"
    by (auto simp: success_ok_def within_limits_def)
  have ne: "pr_hops pr \<noteq> []" using pr(2) by auto
  have ends: "ph_scid (hd (pr_hops pr)) = ''1''" "ph_scid (last (pr_hops pr)) = ''3''"
    using pr(2) ne by (metis list.sel(1) hd_map, metis last_map last_ConsR last_snoc append_is_Nil_conv not_Cons_self2)
  define n' where "n' = n\<lparr>n_peers := (n_peers n)(''a'' \<mapsto> circle_peer ''a'' ''1'' 599000000, ''b'' \<mapsto> circle_peer ''b'' ''3'' 301000000)\<rparr>"
  have bal: "update_channel_balance ''a'' ''b'' ''1'' ''3'' 1000 n = Ok n'"
    by (simp add: update_channel_balance_def assms(1) circle_peer_def n'_def)
  have enq: "pull_enqueue_candidate [''a'', ''b''] res n [] = Ok [detour_channel ''1'' ''u'' ''a'' 0]"
    using pr ne by (simp add: pull_enqueue_candidate_def result_scids_def get_outgoing_channel_from_scid_def
      get_channel_peer_from_scid_def assms(1-3) circle_peer_def get_channel_def circle_channels get_direction_def)
  have next': "get_next_candidate (pull_methods circle_pull_filled) circle_round n' [detour_channel ''1'' ''u'' ''a'' 0]
     = Some (detour_channel ''1'' ''u'' ''a'' 0, [])"
    by (simp add: get_peer_channel_from_graph_channel_def circle_round_def circle_peer_def pull_methods_def n'_def
     pull_can_use_channel_def deplete_threshold_def circle_pull_filled_def circle_pull_def go_min_def
     mul_trunc_def is_peer_connected_def get_channel_peer_from_scid_def)
  have f: "ab_amount a = 2000000" "ab_split_amount a = 1000000" "ab_splits a = 2" "ab_in_flight a = 1000000" "ab_candidates a = []"
    "ab_rebalanced a = 0" "ab_target a = detour_channel ''3'' ''b'' ''u'' 5" "settings.truncate a = circle_settings"
    using truncate_fields [of a] by (simp_all add: circle_settings_def a)
  have r: "pull_fire (detour_channel ''3'' ''b'' ''u'' 5) circle_settings (detour_channel ''1'' ''u'' ''a'' 0) = circle_rebalance"
    by (simp add: pull_fire_def circle_rebalance_def circle_settings_def)
  have w: "wk_enqueue (ce_wakes circle_call_env 0) = [''a'', ''b'']" "wk_round (ce_wakes circle_call_env 0) = circle_round"
    by (simp_all add: circle_call_env_def)
  show ?thesis
    by (simp add: handle_result_def book_result_def update_amounts_def Let_def res w f enq pr(1) ne ends bal fire_candidates_def,
       subst fire_loop.simps, simp add: carry_on_def splits_in_flight_def next' f r del: get_next_candidate.simps,
       subst fire_loop.simps, simp add: carry_on_def splits_in_flight_def f)
qed

lemma circle_received:
  "\<exists>res n1. receive map_library (ce_wakes circle_call_env 0) [circle_rebalance] circle_node = (Ok res, [], n1)
     \<and> success_ok circle_rebalance res \<and> db_only circle_node n1"
proof -
  obtain res n1 where run: "run map_library circle_rebalance circle_env (\<lambda>k n. n) circle_node = (Ok res, n1)"
    and "res_status res = ''success''" and "db_only circle_node n1" using circle_run by blast
  moreover have "success_ok circle_rebalance res \<or> res_status res = ''failure''"
  proof (rule good.run_outcome [where ends = circle_ends and others = "\<lambda>k n. n" and n = circle_node
        and r = circle_rebalance and B = map_library and envs = circle_env])
    show "others_keep (good_node circle_ends) (\<lambda>k n. n)" by (simp add: others_keep_def)
  qed (use run circle_node_good circle_rebalance_ok in auto)
  ultimately show ?thesis by (auto simp: receive_def circle_call_env_def)
qed

lemma one_turn:
  assumes "ab_in_flight a \<noteq> 0" and "running \<noteq> []" and "good w" and "receive B w running n = (Ok res, rest, n1)"
    and "handle_result M w res a n1 = Ok (a', fired, n')"
  shows "turns good M B (running, a, n) (rest @ fired, a', n')"
proof (rule turns_step)
  show "turns good M B (running, a, n) (running, a, n)" by (rule turns_refl)
qed (rule assms)+

theorem pull_in_flight_witness:
  "\<exists>a1 res n1 a n'. fire_candidates (pull_methods circle_pull_filled) circle_round circle_node
      (start_rebalance circle_settings (detour_channel ''3'' ''b'' ''u'' 5) [detour_channel ''1'' ''u'' ''a'' 0])
      = Ok (a1, [circle_rebalance])
    \<and> receive map_library (ce_wakes circle_call_env 0) [circle_rebalance] circle_node = (Ok res, [], n1)
    \<and> handle_result (pull_methods circle_pull_filled) (ce_wakes circle_call_env 0) res
        (a1\<lparr>ab_result := new_par_result (ab_amount a1)\<rparr>) n1 = Ok (a, [circle_rebalance], n')
    \<and> unat (ab_rebalanced a) = 1000000 \<and> unat (ab_in_flight a) = 1000000"
proof -
  let ?a = "start_rebalance circle_settings (detour_channel ''3'' ''b'' ''u'' 5) [detour_channel ''1'' ''u'' ''a'' 0]"
  let ?a1 = "?a\<lparr>ab_candidates := [], ab_in_flight := 1000000\<rparr>"
  let ?w = "ce_wakes circle_call_env 0"
  have f: "fire_candidates (pull_methods circle_pull_filled) (ce_round circle_call_env) circle_node ?a
      = Ok (?a1, [circle_rebalance])"
    using circle_fired by (simp add: circle_call_env_def)
  obtain res n1 where rcv: "receive map_library ?w [circle_rebalance] circle_node = (Ok res, [], n1)"
    and res: "success_ok circle_rebalance res" and db: "db_only circle_node n1"
    using circle_received by blast
  have fields: "n_peers n1 = n_peers circle_node" "n_graph n1 = circle_graph" "n_id n1 = ''u''"
    by (simp_all only: db_only_fields [OF db] circle_node_simps(1,2))
  obtain a n' where h: "handle_result (pull_methods circle_pull_filled) ?w res (?a1\<lparr>ab_result := new_par_result (ab_amount ?a1)\<rparr>) n1
      = Ok (a, [circle_rebalance], n')" and moved: "ab_rebalanced a = 1000000"
    using circle_handled [OF fields res refl] by blast
  have "distinct (case pl_out_list circle_pull of None \<Rightarrow> ce_peers circle_call_env | Some l \<Rightarrow> l)"
    by (simp add: circle_pull_def circle_call_env_def)
  moreover have "turns (wake_ok (net_ok circle_ends (n_id circle_node) (dom (n_peers circle_node))))
      (pull_methods circle_pull_filled) map_library
      ([circle_rebalance], ?a1\<lparr>ab_result := new_par_result (ab_amount ?a1)\<rparr>, circle_node) ([] @ [circle_rebalance], a, n')"
  proof (rule one_turn)
    show "wake_ok (net_ok circle_ends (n_id circle_node) (dom (n_peers circle_node))) ?w" by (rule circle_wakes)
  qed (rule rcv h | simp)+
  ultimately have "unat (ab_in_flight a) = length ([] @ [circle_rebalance]) * unat (ab_split_amount ?a)"
    using pull_in_flight [OF circle_call_ok circle_pull_moderate(1) circle_prepare f] by blast
  moreover have "ab_split_amount ?a = 1000000"
    using truncate_fields(4) [of ?a] by (simp add: circle_settings_def)
  ultimately have "unat (ab_in_flight a) = 1000000" by simp
  then show ?thesis using f rcv h moved by (simp add: circle_call_env_def)
qed

text \<open>C18. A pull does not give up early. Once its candidates are found and the first rebalances fired, the loop ends,
  nothing is in flight any more, and one of three things is the case: the whole amount has been moved, or no candidate
  is left, or the number of splits is negative, which passes the validation and lets nothing be fired at all. Conditions
  as for a pull that returns (C8): the bounds on the parameters, a well-formed node, fees within the u32 of BOLT 7.\<close>

theorem pull_exhausts:
  assumes "call_ok ends env n" and "moderate_amounts (pl_amount p) (pl_split_amount p) (pl_max_hops p)"
    and "pull_prepare env p n = Ok (p', a0)" and "fire_candidates (pull_methods p') (ce_round env) n a0 = Ok (a1, fired)"
  shows "\<exists>a n'. wait_loop (pull_methods p') B (ce_wakes env) 0 fired
      (a1\<lparr>ab_result := new_par_result (ab_amount a1)\<rparr>) n = Some (Ok (a, n'))
    \<and> ab_in_flight a = 0
    \<and> (ab_rebalanced a = ab_amount a0 \<or> ab_candidates a = [] \<or> ab_splits a0 < 0)"
proof -
  let ?s = "pull_settings p" and ?D = "dom (n_peers n)"
  obtain target cs where a0: "a0 = start_rebalance ?s target cs" and s: "settings_ok ?s"
    and cs: "\<forall>c \<in> set cs. pull_candidate_ok ends (n_id n) ?D target c"
    using pull_prepare_outcome [OF assms(1,2)] assms(3) by auto
  have net: "net_ok ends (n_id n) ?D n" and wakes: "\<forall>k. wake_ok (net_ok ends (n_id n) ?D) (ce_wakes env k)"
    using assms(1) by (simp_all add: call_ok_def)
  from pull.started [where p = p', OF s net cs assms(4) [unfolded a0]] obtain flying where
    w: "waiting (net_ok ends (n_id n) ?D) (pull_methods p') (pull_candidate_ok ends (n_id n) ?D) target ?s flying fired
        (a1\<lparr>ab_result := new_par_result (ab_amount a1)\<rparr>) n"
    by blast
  from pull.wait_loop_returns [where p = p', OF s wakes w, of B 0] obtain a n' where
    a: "wait_loop (pull_methods p') B (ce_wakes env) 0 fired
      (a1\<lparr>ab_result := new_par_result (ab_amount a1)\<rparr>) n = Some (Ok (a, n'))" "ab_in_flight a = 0"
    and wa: "waiting (net_ok ends (n_id n) ?D) (pull_methods p') (pull_candidate_ok ends (n_id n) ?D) target ?s [] [] a n'"
    by blast
  have st: "amounts_ok ?s 0 a" and se: "settled a" using wa by (simp_all add: waiting_def state_ok_def)
  have fields: "ab_amount a0 = ab_amount ?s" "ab_splits a0 = ab_splits ?s"
    using truncate_fields [of a0] by (simp_all add: a0)
  have splits: "ab_splits ?s \<noteq> 0" by (simp add: pull_settings_def init_settings_fields PAR_SPLITS_def)
  have "ab_rebalanced a = ab_amount a0 \<or> ab_candidates a = [] \<or> ab_splits a0 < 0"
    using se amounts_ok_simps [OF s st] st a(2) fields splits
    by (auto simp: settled_def amounts_ok_def u64_eq_iff)
  with a show ?thesis by blast
qed

theorem pull_exhausts_witness:
  "\<exists>a1 fired a n'. fire_candidates (pull_methods circle_pull_filled) circle_round circle_node
      (start_rebalance circle_settings (detour_channel ''3'' ''b'' ''u'' 5) [detour_channel ''1'' ''u'' ''a'' 0])
      = Ok (a1, fired)
    \<and> wait_loop (pull_methods circle_pull_filled) map_library (ce_wakes circle_call_env) 0 fired
      (a1\<lparr>ab_result := new_par_result (ab_amount a1)\<rparr>) circle_node = Some (Ok (a, n'))
    \<and> ab_in_flight a = 0 \<and> (ab_rebalanced a = 2000000 \<or> ab_candidates a = [])"
proof -
  obtain a1 where f: "fire_candidates (pull_methods circle_pull_filled) (ce_round circle_call_env) circle_node
      (start_rebalance circle_settings (detour_channel ''3'' ''b'' ''u'' 5) [detour_channel ''1'' ''u'' ''a'' 0])
      = Ok (a1, [circle_rebalance])"
    using circle_fired by (auto simp: circle_call_env_def)
  from pull_exhausts [OF circle_call_ok circle_pull_moderate(1) circle_prepare f, of map_library] f show ?thesis
    using truncate_fields [of "start_rebalance circle_settings (detour_channel ''3'' ''b'' ''u'' 5)
        [detour_channel ''1'' ''u'' ''a'' 0]"] by (auto simp: circle_settings_def circle_call_env_def)
qed

section \<open>Candidates\<close>

text \<open>With all orders those of the peers, the lookup of one of our channels is the graph's entry for it.\<close>

lemma outgoing_lookup_iff:
  assumes "net_ok ends me D n" and "enumerates ord (n_peers n)"
    and "n_peers n i = Some p" and "pc \<in> set (peer_channels p)"
  shows "get_outgoing_channel_from_scid ord (pc_scid pc) n = Ok c \<longleftrightarrow>
    channels (n_graph n) (channel_key (pc_scid pc) me i) = Some c"
proof -
  have ok: "peers_ok (n_peers n)" and me: "n_id n = me" using assms(1) by (simp_all add: net_ok_def)
  have id: "peer_id p = i" using peers_okD(1) [OF ok assms(3)] .
  have "find_peer_channel ord (pc_scid pc) (n_peers n) = Some (p, pc)"
    using find_peer_channel_iff [OF ok assms(2)] assms(3,4) id by simp
  then show ?thesis
    by (auto simp: get_outgoing_channel_from_scid_def get_channel_peer_from_scid_def get_channel_def id me
        channel_key_def split: option.splits)
qed

lemma peer_candidates_set:
  assumes "net_ok ends me D n" and "n_peers n i = Some p" and "ab_split_amount s \<noteq> 0"
    and "\<And>scid k. enumerates (ords scid k) (n_peers n)"
  shows "set pcs \<subseteq> set (peer_channels p) \<Longrightarrow> peer_candidates (pull_methods q) ords (\<lambda>_. False) s n i pcs = Ok cs \<Longrightarrow>
    set cs = {c. \<exists>pc \<in> set pcs. channels (n_graph n) (channel_key (pc_scid pc) me i) = Some c
      \<and> compute_fee c (ab_split_amount s) * 1000000 div ab_split_amount s < pl_max_out_ppm q}"
proof (induction pcs arbitrary: cs)
  case (Cons pc pcs)
  let ?in_graph = "channels (n_graph n) (channel_key (pc_scid pc) me i)"
  let ?cheap = "\<lambda>c. compute_fee c (ab_split_amount s) * 1000000 div ab_split_amount s < pl_max_out_ppm q"
  have me: "n_id n = me" using assms(1) by (simp add: net_ok_def)
  obtain good rest where good: "pull_is_good_candidate q (ords (pc_scid pc)) s pc n = Ok good"
    and rest: "peer_candidates (pull_methods q) ords (\<lambda>_. False) s n i pcs = Ok rest"
    and cs: "cs = (if good then case get_graph_channel_from_peer_channel pc (pull_candidate_direction i n) n of
        Ok candidate \<Rightarrow> candidate # rest | _ \<Rightarrow> rest else rest)"
    using Cons.prems(2) by (auto simp: go_bind_eq_Ok)
  have lookup: "get_outgoing_channel_from_scid (ords (pc_scid pc) 0) (pc_scid pc) n = Ok c \<longleftrightarrow> ?in_graph = Some c" for c
    using outgoing_lookup_iff [OF assms(1) assms(4) assms(2)] Cons.prems(1) by simp
  have graph: "get_graph_channel_from_peer_channel pc (pull_candidate_direction i n) n =
      (case ?in_graph of None \<Rightarrow> Err ErrNoChannel | Some c \<Rightarrow> Ok c)"
    by (simp add: get_graph_channel_from_peer_channel_def pull_candidate_direction_def get_channel_def channel_key_def me)
  have "set cs = set rest \<union> {c. ?in_graph = Some c \<and> ?cheap c}"
  proof (cases ?in_graph)
    case None
    then have "\<not> good" using good lookup lookup_returns
      by (cases "get_outgoing_channel_from_scid (ords (pc_scid pc) 0) (pc_scid pc) n") (auto simp: pull_is_good_candidate_def)
    then show ?thesis using cs None by simp
  next
    case (Some c)
    then have "good = ?cheap c"
      using good lookup [of c] assms(3) by (simp add: pull_is_good_candidate_def compute_fee_ppm_def)
    then show ?thesis using cs Some graph by auto
  qed
  then show ?case using Cons.IH [OF _ rest] Cons.prems(1) by auto
qed simp

text \<open>
  The channels that qualify: ours to a peer other than the excluded one, known to the graph, with a fee rate for one split
  strictly below the limit. (The README calls \<^verbatim>\<open>maxoutppm\<close> the maximum rate that may be used; a rate that is equal to it
  is not used.)
\<close>

definition pull_candidates :: "pull \<Rightarrow> u64 \<Rightarrow> string \<Rightarrow> 'd node \<Rightarrow> channel set" where
  "pull_candidates q split exclude n =
     {c. \<exists>i p pc. n_peers n i = Some p \<and> i \<noteq> exclude \<and> pc \<in> set (peer_channels p)
       \<and> channels (n_graph n) (channel_key (pc_scid pc) (n_id n) i) = Some c
       \<and> compute_fee c split * 1000000 div split < pl_max_out_ppm q}"

text \<open>The search judges a channel for which a writer of the peers waits.\<close>

definition search_blocked :: "(string \<Rightarrow> bool) \<Rightarrow> string \<Rightarrow> 'd node \<Rightarrow> bool" where
  "search_blocked waits exclude n \<longleftrightarrow>
     (\<exists>i p. n_peers n i = Some p \<and> i \<noteq> exclude \<and> (\<exists>pc \<in> set (peer_channels p). waits (pc_scid pc)))"

text \<open>C24. Without a list of peers the search for the candidates of a pull hangs exactly when a writer of the peers announces
  itself while it judges a channel of a peer other than that of the target. Otherwise the candidates are exactly our
  outgoing channels to those peers, as the graph has them, whose fee rate for one split is strictly below
  \<^verbatim>\<open>maxoutppm\<close>; if there is none the call fails with \<^verbatim>\<open>ErrNoCandidates\<close>. A rate equal to \<^verbatim>\<open>maxoutppm\<close> is not used,
  although the README allows it. Conditions: a split amount other than zero, peers as the gossip has them, fees within
  the u32 of BOLT 7, and loops that visit every peer.\<close>

theorem pull_candidates_exact:
  assumes "net_ok ends me D n" and "ab_split_amount s \<noteq> 0"
    and "enumerates ord (n_peers n)" and "\<And>scid k. enumerates (ords scid k) (n_peers n)"
  shows "if search_blocked waits exclude n
    then find_candidates (pull_methods q) ord ords waits s None exclude n = Hang
    else if pull_candidates q (ab_split_amount s) exclude n = {}
    then find_candidates (pull_methods q) ord ords waits s None exclude n = Err ErrNoCandidates
    else (\<exists>cs. find_candidates (pull_methods q) ord ords waits s None exclude n = Ok cs
      \<and> set cs = pull_candidates q (ab_split_amount s) exclude n)"
proof -
  have ok: "peers_ok (n_peers n)" using assms(1) by (simp add: net_ok_def)
  let ?of = "\<lambda>p. {c. \<exists>pc \<in> set (peer_channels p). channels (n_graph n) (channel_key (pc_scid pc) me (peer_id p)) = Some c
      \<and> compute_fee c (ab_split_amount s) * 1000000 div ab_split_amount s < pl_max_out_ppm q}"
  have all: "\<forall>p \<in> set ps. n_peers n (peer_id p) = Some p \<Longrightarrow>
      \<exists>cs. all_candidates (pull_methods q) ords (\<lambda>_. False) s n exclude ps = Ok cs
        \<and> set cs = (\<Union>p \<in> {p \<in> set ps. peer_id p \<noteq> exclude}. ?of p)" for ps
  proof (induction ps)
    case (Cons p ps)
    then obtain cs where cs: "all_candidates (pull_methods q) ords (\<lambda>_. False) s n exclude ps = Ok cs"
      "set cs = (\<Union>p \<in> {p \<in> set ps. peer_id p \<noteq> exclude}. ?of p)" by auto
    have "\<exists>cs1. peer_candidates (pull_methods q) ords (\<lambda>_. False) s n (peer_id p) pcs = Ok cs1" for pcs
    proof (induction pcs)
      case (Cons pc pcs)
      then show ?case using pull_judged [OF assms(2), of q "ords (pc_scid pc)" pc n] by auto
    qed simp
    then obtain cs1 where cs1: "peer_candidates (pull_methods q) ords (\<lambda>_. False) s n (peer_id p) (peer_channels p) = Ok cs1" by blast
    have "set cs1 = ?of p"
      using peer_candidates_set [OF assms(1) _ assms(2) _ order_refl cs1] Cons.prems assms(4) by simp
    then show ?case using cs cs1 by auto
  qed simp
  have peers: "set (get_map_values ord (n_peers n)) = ran (n_peers n)"
    using set_get_map_values [OF assms(3)] .
  moreover have known: "n_peers n (peer_id p) = Some p" if "p \<in> ran (n_peers n)" for p
    using that peers_okD(1) [OF ok] by (auto simp: ran_def)
  ultimately obtain cs where cs: "all_candidates (pull_methods q) ords (\<lambda>_. False) s n exclude (get_map_values ord (n_peers n)) = Ok cs"
    and set: "set cs = (\<Union>p \<in> {p \<in> ran (n_peers n). peer_id p \<noteq> exclude}. ?of p)"
    using all [of "get_map_values ord (n_peers n)"] by auto
  have "n_id n = me" using assms(1) by (simp add: net_ok_def)
  then have exact: "pull_candidates q (ab_split_amount s) exclude n = set cs"
    unfolding set pull_candidates_def using peers_okD(1) [OF ok] by (fastforce simp: ran_def)
  let ?found = "all_candidates (pull_methods q) ords waits s n exclude (get_map_values ord (n_peers n))"
  have "\<exists>b. m_is_good_candidate (pull_methods q) os s pc n = Ok b" for os pc
    using pull_judged [OF assms(2)] by simp
  then have "?found = Hang \<longleftrightarrow> (\<exists>p \<in> set (get_map_values ord (n_peers n)). peer_id p \<noteq> exclude
      \<and> (\<exists>c \<in> set (peer_channels p). waits (pc_scid c)))"
    by (rule all_candidates_hang)
  also have "\<dots> \<longleftrightarrow> search_blocked waits exclude n"
    unfolding peers search_blocked_def using peers_okD(1) [OF ok] by (fastforce simp: ran_def)
  finally have hang: "?found = Hang \<longleftrightarrow> search_blocked waits exclude n" .
  have "?found = Ok cs" if "\<not> search_blocked waits exclude n"
    using all_candidates_waits [of "pull_methods q" ords waits s n exclude "get_map_values ord (n_peers n)"] cs hang that
    by auto
  then show ?thesis using hang exact by (auto simp: find_candidates_def get_candidates_list_def)
qed

theorem pull_candidates_exact_witness:
  "\<exists>cs. find_candidates (pull_methods circle_pull_filled) [''a'', ''b''] (\<lambda>_ _. [''a'', ''b'']) (\<lambda>_. False) circle_settings None ''b''
      circle_node = Ok cs
    \<and> set cs = {detour_channel ''1'' ''u'' ''a'' 0}"
proof -
  have "pull_candidates circle_pull_filled 1000000 ''b'' circle_node = {detour_channel ''1'' ''u'' ''a'' 0}"
    by (auto simp: pull_candidates_def circle_peer_def circle_channels channel_key_def get_direction_def
        circle_pull_filled_def split: if_splits)
  moreover have "ab_split_amount circle_settings = 1000000" by (simp add: circle_settings_def)
  ultimately show ?thesis
    using pull_candidates_exact [OF circle_net_ok _ circle_peers_ok(2), of circle_settings
        "\<lambda>_ _. [''a'', ''b'']" "\<lambda>_. False" "''b''" circle_pull_filled] circle_peers_ok(2)
    by (simp add: search_blocked_def)
qed

section \<open>Which candidate is fired\<close>

text \<open>When a candidate may be used, at one moment of the queue.\<close>

definition pull_usable :: "pull \<Rightarrow> round_env \<Rightarrow> nat \<Rightarrow> 'd node \<Rightarrow> channel \<Rightarrow> bool" where
  "pull_usable p env k n c \<longleftrightarrow> (\<exists>pr pc. find_peer_channel (ro_find env k) (short_channel_id c) (n_peers n) = Some (pr, pc)
     \<and> deplete_threshold p pc \<le> pc_to_us pc \<and> pc_state pc = NORMAL \<and> is_peer_connected (ro_connected env k) pc n)"

lemma pull_usable_iff:
  "(\<exists>x. go_bind (get_peer_channel_from_graph_channel (ro_find env k) c n)
      (\<lambda>pc. pull_can_use_channel p (ro_connected env k) pc n) = Ok x) \<longleftrightarrow> pull_usable p env k n c"
  by (auto simp: go_bind_eq_Ok get_peer_channel_from_graph_channel_def pull_usable_def pull_can_use_channel_def
      not_less split: option.splits)

text \<open>A pull takes the first candidate of its queue that may be used: its channel is with a connected peer, in the
  normal state, and our balance in it is not below the threshold that \<^verbatim>\<open>depleteuptoamount\<close> and
  \<^verbatim>\<open>depleteuptopercent\<close> give. Those before it, which may not be used, are dropped.\<close>

theorem pull_next_candidate:
  "get_next_candidate (pull_methods p) env n cs = Some (c, rest) \<longleftrightarrow>
     (\<exists>skipped. cs = skipped @ c # rest \<and> pull_usable p env (length rest) n c
       \<and> (\<forall>j < length skipped. \<not> pull_usable p env (length cs - Suc j) n (skipped ! j)))"
proof (induction cs)
  case (Cons d cs)
  have m: "m_can_use_channel (pull_methods p) = pull_can_use_channel p" by (simp add: pull_methods_def)
  let ?use = "go_bind (get_peer_channel_from_graph_channel (ro_find env (length cs)) d n)
      (\<lambda>pc. pull_can_use_channel p (ro_connected env (length cs)) pc n)"
  show ?case
  proof (cases "pull_usable p env (length cs) n d")
    case True
    then obtain x where "?use = Ok x" using pull_usable_iff by blast
    then have "get_next_candidate (pull_methods p) env n (d # cs) = Some (d, cs)" by (simp add: m)
    moreover have "skipped = []" if "d # cs = skipped @ c # rest"
      "\<forall>j < length skipped. \<not> pull_usable p env (length (d # cs) - Suc j) n (skipped ! j)" for skipped
      using that True by (cases skipped) auto
    ultimately show ?thesis using True by fastforce
  next
    case False
    then have "\<nexists>x. ?use = Ok x" using pull_usable_iff by blast
    then have "get_next_candidate (pull_methods p) env n (d # cs) = get_next_candidate (pull_methods p) env n cs"
      by (cases ?use) (simp_all add: m)
    moreover have "(\<exists>skipped. d # cs = skipped @ c # rest \<and> pull_usable p env (length rest) n c
        \<and> (\<forall>j < length skipped. \<not> pull_usable p env (length (d # cs) - Suc j) n (skipped ! j)))
      \<longleftrightarrow> (\<exists>skipped. cs = skipped @ c # rest \<and> pull_usable p env (length rest) n c
        \<and> (\<forall>j < length skipped. \<not> pull_usable p env (length cs - Suc j) n (skipped ! j)))" (is "?l = ?r")
    proof
      assume ?l
      then obtain skipped where sk: "d # cs = skipped @ c # rest" "pull_usable p env (length rest) n c"
        "\<forall>j < length skipped. \<not> pull_usable p env (length (d # cs) - Suc j) n (skipped ! j)" by blast
      then obtain sk' where "skipped = d # sk'" using False by (cases skipped) auto
      with sk show ?r by (intro exI [of _ sk']) fastforce
    next
      assume ?r
      then obtain skipped where sk: "cs = skipped @ c # rest" "pull_usable p env (length rest) n c"
        "\<forall>j < length skipped. \<not> pull_usable p env (length cs - Suc j) n (skipped ! j)" by blast
      have "\<not> pull_usable p env (length (d # cs) - Suc j) n ((d # skipped) ! j)" if "j < Suc (length skipped)" for j
        using that sk(3) False by (cases j) auto
      with sk show ?l by (intro exI [of _ "d # skipped"]) auto
    qed
    ultimately show ?thesis using Cons.IH by simp
  qed
qed simp

theorem pull_next_candidate_witness:
  "pull_usable circle_pull_filled circle_round 0 circle_node (detour_channel ''1'' ''u'' ''a'' 0)"
  using circle_next pull_next_candidate [of circle_pull_filled circle_round circle_node
      "[detour_channel ''1'' ''u'' ''a'' 0]" "detour_channel ''1'' ''u'' ''a'' 0" "[]"] by simp

text \<open>The threshold is compared with the balance before the split leaves: a channel whose balance is just at the
  threshold is used, and after the split less is left in it than the amount that is documented to be kept.\<close>

theorem threshold_not_kept:
  assumes "deplete_threshold p pc = pc_to_us pc" and "pc_state pc = NORMAL" and "is_peer_connected ord pc n"
    and "0 < unat split" and "unat split \<le> unat (pc_to_us pc)"
  shows "pull_can_use_channel p ord pc n = Ok () \<and> pc_to_us pc - split < deplete_threshold p pc"
  using assms by (simp add: pull_can_use_channel_def word_less_nat_alt unat_sub64)

theorem threshold_not_kept_witness:
  "(250000000 :: u64) - 1000000 < deplete_threshold circle_pull_filled
     \<lparr>pc_scid = ''1'', pc_state = NORMAL, pc_to_us = 250000000, pc_total = 1000000000\<rparr>"
proof -
  let ?pc = "\<lparr>pc_scid = ''1'', pc_state = NORMAL, pc_to_us = 250000000, pc_total = 1000000000\<rparr>"
  have t: "deplete_threshold circle_pull_filled ?pc = 250000000"
    by (simp add: deplete_threshold_def circle_pull_filled_def circle_pull_def go_min_def mul_trunc_def)
  have c: "is_peer_connected [''a'', ''b''] ?pc circle_node"
    by (simp add: is_peer_connected_def get_channel_peer_from_scid_def circle_peer_def)
  show ?thesis
    using threshold_not_kept [of circle_pull_filled ?pc "[''a'', ''b'']" circle_node 1000000] t c by simp
qed

section \<open>Parameters that are not what they seem\<close>

text \<open>C36. A split amount whose thousandfold wraps around to zero passes the comparison with the amount and panics in the
  test that the amount is a multiple of it: an integer division by zero in the handler of the command.\<close>

theorem wrapped_split_panics:
  assumes "pl_in_scid p \<noteq> []" and "pl_split_amount p \<noteq> 0" and "pl_split_amount p * 1000 = 0"
  shows "pull_call B env p n = Some Panic"
  using assms
  by (simp add: pull_call_def pull_prepare_def pull_validate_def validate_generic_parameters_def
      init_settings_fields or_default_def)

theorem wrapped_split_panics_witness:
  "pull_call map_library circle_call_env (circle_pull\<lparr>pl_split_amount := 2305843009213693952\<rparr>) circle_node = Some Panic"
  by (rule wrapped_split_panics) (simp_all add: circle_pull_def)

text \<open>C37. With a list of peers a push is meant to ignore \<^verbatim>\<open>minoutppm\<close>, and sets it to zero for that. The defaults,
  which are filled in afterwards, turn the zero into the default of 50: peers in the list to which our own fee rate is not
  above 50 are not considered.\<close>

theorem push_list_keeps_minimum:
  assumes "push_prepare env q n = Ok (q', a)" and "ps_in_list q \<noteq> None"
  shows "ps_min_out_ppm q' = 50
    \<and> (push_is_good_candidate q' ords s pc n = Ok True \<longrightarrow>
         (\<exists>c. get_outgoing_channel_from_scid (ords 1) (pc_scid pc) n = Ok c
           \<and> 50 < compute_fee c (ab_split_amount s) * 1000000 div ab_split_amount s))"
proof -
  have min: "ps_min_out_ppm q' = 50"
    using assms by (auto simp: push_prepare_def Let_def push_set_defaults_def go_bind_eq_Ok DEFAULT_MIN_OUT_PPM_def
        split: if_splits)
  moreover have "\<exists>c. get_outgoing_channel_from_scid (ords 1) (pc_scid pc) n = Ok c
        \<and> 50 < compute_fee c (ab_split_amount s) * 1000000 div ab_split_amount s"
    if "push_is_good_candidate q' ords s pc n = Ok True"
    using that min by (auto simp: push_is_good_candidate_def compute_fee_ppm_def go_bind_eq_Ok split: go.splits if_splits)
  ultimately show ?thesis by blast
qed

theorem push_list_keeps_minimum_witness:
  "\<exists>q' a. push_prepare circle_call_env (circle_push\<lparr>ps_in_list := Some [''b''], ps_min_out_ppm := 7,
       ps_split_amount := 50, ps_max_ppm := 200\<rparr>) circle_node = Ok (q', a) \<and> ps_min_out_ppm q' = 50"
proof -
  let ?q = "circle_push\<lparr>ps_in_list := Some [''b''], ps_min_out_ppm := 7, ps_split_amount := 50, ps_max_ppm := 200\<rparr>"
  have i: "init_settings 2000 200 50 2 1 3 = \<lparr>ab_amount = 2000000, ab_max_ppm = 200, ab_splits = 2,
     ab_split_amount = 50000, ab_attempts = 1, ab_max_hops = 3\<rparr>"
    by (simp add: init_settings_def set_generic_defaults_def Let_def)
  have "\<exists>q' a. push_prepare circle_call_env ?q circle_node = Ok (q', a)"
    by (simp add: push_prepare_def circle_push_def push_set_defaults_def Let_def f64_le_zero_def
        DEFAULT_FILL_UP_TO_AMOUNT_def DEFAULT_MIN_OUT_PPM_def i push_validate_def validate_generic_parameters_def
        f64_gt_one_def f64_lt_zero_def get_incoming_channel_from_scid_def get_channel_peer_from_scid_def
        circle_call_env_def circle_peer_def get_channel_def circle_channels get_direction_def find_candidates_def
        get_candidates_list_def push_is_good_candidate_def get_outgoing_channel_from_scid_def compute_fee_ppm_def
        get_graph_channel_from_peer_channel_def push_candidate_direction_def List.map_filter_simps)
  then obtain q' a where p: "push_prepare circle_call_env ?q circle_node = Ok (q', a)" by blast
  have "ps_in_list ?q \<noteq> None" by simp
  from push_list_keeps_minimum [OF p this] p show ?thesis by blast
qed

end
