(* ===== verification/GraphFile.thy ===== *)
theory GraphFile
  imports Node
begin

text \<open>
  \<^verbatim>\<open>node/file.go\<close>, the graph and liquidity jobs of \<^verbatim>\<open>node/cron.go\<close>, and the start of the node in
  \<^verbatim>\<open>node/node.go\<close>. A file system is a set of directories and a map from paths to contents; saving yields every
  state the file system passes through, so that a crash is a state in the middle. Which system calls fail is
  an argument. JSON encoding and decoding are parameters.
\<close>

section \<open>Files\<close>

record files =
  dirs :: "string set"
  contents :: "string \<rightharpoonup> string"

definition move :: "string \<Rightarrow> string \<Rightarrow> files \<Rightarrow> files" where
  "move p q fs = (case contents fs p of
     None \<Rightarrow> fs | Some x \<Rightarrow> fs\<lparr>contents := (contents fs)(p := None, q \<mapsto> x)\<rparr>)"

definition write_file :: "string \<Rightarrow> string \<Rightarrow> files \<Rightarrow> files" where
  "write_file p x fs = fs\<lparr>contents := (contents fs)(p \<mapsto> x)\<rparr>"

text \<open>The errors of the calls in a save; a failing write has written some bytes.\<close>

record save_faults =
  sf_mkdir :: "go_err option"
  sf_create :: "go_err option"
  sf_write :: "(nat \<times> go_err) option"
  sf_backup :: "go_err option"
  sf_rename :: "go_err option"

definition no_faults :: save_faults where
  "no_faults = \<lparr>sf_mkdir = None, sf_create = None, sf_write = None, sf_backup = None, sf_rename = None\<rparr>"

section \<open>Saving\<close>

text \<open>The first state is the one before the call, the last one that in which the call returns.\<close>

definition serialize_to_file ::
  "(graph \<Rightarrow> string ext) \<Rightarrow> save_faults \<Rightarrow> string \<Rightarrow> graph \<Rightarrow> files \<Rightarrow> files list \<times> go_err option" where
  "serialize_to_file enc io filename g fs = (case sf_create io of
     Some e \<Rightarrow> ([fs], Some e)
   | None \<Rightarrow>
       (let tmp = filename @ ''.tmp''; fs1 = write_file tmp [] fs
        in case enc g of
             Inl e \<Rightarrow> ([fs, fs1], Some e)
           | Inr json \<Rightarrow>
               (let written = (case sf_write io of None \<Rightarrow> length json | Some (k, e) \<Rightarrow> k)
                in (fs # map (\<lambda>k. write_file tmp (take k json) fs1) [0..<Suc written],
                    map_option snd (sf_write io)))))"

definition save_graph_to_file ::
  "(graph \<Rightarrow> string ext) \<Rightarrow> save_faults \<Rightarrow> string \<Rightarrow> string \<Rightarrow> graph \<Rightarrow> files \<Rightarrow> files list \<times> go_err option" where
  "save_graph_to_file enc io dir filename g fs =
     (if dir \<notin> dirs fs \<and> sf_mkdir io \<noteq> None then ([fs], sf_mkdir io)
      else let fs1 = fs\<lparr>dirs := insert dir (dirs fs)\<rparr>;
               filename = dir @ ''/'' @ filename;
               (states, err) = serialize_to_file enc io filename g fs1
           in if err \<noteq> None then (fs # states, err)
              else let fs2 = last states;
                       fs3 = (if contents fs2 filename \<noteq> None \<and> sf_backup io = None
                              then move filename (filename @ ''.old'') fs2 else fs2)
                   in if sf_rename io \<noteq> None then (fs # states @ [fs3], sf_rename io)
                      else (fs # states @ [fs3, move (filename @ ''.tmp'') filename fs3], None))"

section \<open>Loading\<close>

text \<open>\<open>ks\<close> gives the order in which the map of the decoded channels is visited.\<close>

definition decode_graph ::
  "(string \<Rightarrow> graph ext) \<Rightarrow> (graph \<Rightarrow> string list) \<Rightarrow> string \<Rightarrow> graph ext" where
  "decode_graph decode ks json = (case decode json of Inl e \<Rightarrow> Inl e | Inr g \<Rightarrow> Inr (rebuild (ks g) g))"

definition load_graph_from_file ::
  "(string \<Rightarrow> graph ext) \<Rightarrow> (graph \<Rightarrow> string list) \<Rightarrow> string \<Rightarrow> string \<Rightarrow> files \<Rightarrow> graph ext" where
  "load_graph_from_file decode ks dir filename fs =
     (case contents fs (dir @ ''/'' @ filename) of
        Some json \<Rightarrow> decode_graph decode ks json
      | None \<Rightarrow>
          (case contents fs (dir @ ''/'' @ (filename @ ''.old'')) of
             Some json \<Rightarrow> decode_graph decode ks json
           | None \<Rightarrow> Inl ErrNoGraphToLoad))"

section \<open>Cron jobs\<close>

definition CIRCULAR_DIR :: string where "CIRCULAR_DIR = ''circular''"
definition FILE :: string where "FILE = ''graph.json''"

text \<open>
  \<open>chans\<close> and \<open>nodes\<close> are the answers of lightningd, \<open>ks\<close> the order of the map when pruning, \<open>now\<close> the time.
\<close>

definition refresh_graph ::
  "(graph \<Rightarrow> string ext) \<Rightarrow> save_faults \<Rightarrow> gl_channel list ext \<Rightarrow> (graph \<Rightarrow> string list) \<Rightarrow> u64
     \<Rightarrow> (string \<times> string) list ext \<Rightarrow> 'd node \<times> files \<Rightarrow> go_err option \<times> 'd node \<times> files list" where
  "refresh_graph enc io chans ks now nodes st = (case st of (n, fs) \<Rightarrow>
     (case chans of
        Inl e \<Rightarrow> (Some e, n, [fs])
      | Inr cs \<Rightarrow>
          (let g = refresh_channels cs (n_graph n); g = prune_channels (ks g) now g
           in case nodes of
                Inl e \<Rightarrow> (Some e, n\<lparr>n_graph := g\<rparr>, [fs])
              | Inr ns \<Rightarrow>
                  (let g = refresh_aliases ns g;
                       (states, err) = save_graph_to_file enc io CIRCULAR_DIR FILE g fs
                   in (err, n\<lparr>n_graph := g\<rparr>, states)))))"

definition refresh_peers_job :: "peer list ext \<Rightarrow> 'd node \<Rightarrow> go_err option \<times> 'd node" where
  "refresh_peers_job peers n = (case peers of Inl e \<Rightarrow> (Some e, n) | Inr ps \<Rightarrow> (None, refresh_peers ps n))"

text \<open>\<^verbatim>\<open>liquidityRefresh\<close> is kept in seconds.\<close>

definition refresh_liquidity_job :: "string list \<Rightarrow> int \<Rightarrow> (string \<Rightarrow> int) \<Rightarrow> 'd node \<Rightarrow> 'd node" where
  "refresh_liquidity_job ks now clk n =
     n\<lparr>n_graph := fst (refresh_liquidity ks (n_liquidity_refresh n) now clk (n_graph n))\<rparr>"

section \<open>Start\<close>

text \<open>\<^verbatim>\<open>log.Fatalln\<close> ends the process.\<close>

datatype 'a start = Fatal string | Started 'a

definition get_graph_from_file :: "graph ext \<Rightarrow> graph start" where
  "get_graph_from_file loaded = (case loaded of
     Inr g \<Rightarrow> Started g
   | Inl e \<Rightarrow> if e = ErrNoGraphToLoad then Started new_graph else Fatal (error_text e))"

record init_env =
  ie_info :: "string ext"
  ie_channels :: "gl_channel list ext"
  ie_nodes :: "(string \<times> string) list ext"
  ie_peers :: "peer list ext"
  ie_prune :: "graph \<Rightarrow> string list"
  ie_now :: u64
  ie_faults :: save_faults

definition node_init ::
  "(graph \<Rightarrow> string ext) \<Rightarrow> (string \<Rightarrow> graph ext) \<Rightarrow> (graph \<Rightarrow> string list) \<Rightarrow> string \<Rightarrow> bool \<Rightarrow> int \<Rightarrow> 'd
     \<Rightarrow> init_env \<Rightarrow> files \<Rightarrow> ('d node \<times> files) start" where
  "node_init enc decode ks lightning_dir save_stats refresh_minutes db env fs =
     (case ie_info env of
        Inl e \<Rightarrow> Fatal ''GetInfo failed in init, exiting''
      | Inr own \<Rightarrow>
          (case get_graph_from_file (load_graph_from_file decode ks (lightning_dir @ ''/'' @ CIRCULAR_DIR) FILE fs) of
             Fatal m \<Rightarrow> Fatal m
           | Started g \<Rightarrow>
               (let n = new_node own save_stats refresh_minutes g db;
                    (err, n, states) = refresh_graph enc (ie_faults env) (ie_channels env) (ie_prune env) (ie_now env)
                      (ie_nodes env) (n, fs)
                in if err \<noteq> None then Fatal ''RefreshGraph failed in init, exiting''
                   else let (err, n) = refresh_peers_job (ie_peers env) n
                        in if err \<noteq> None then Fatal ''RefreshPeers failed in init, exiting''
                           else Started (n, last states))))"

section \<open>Saving is safe\<close>

text \<open>What \<^verbatim>\<open>encoding/json\<close> promises: what was encoded is decoded to the exported part of the graph.\<close>

definition codec_ok :: "(graph \<Rightarrow> string ext) \<Rightarrow> (string \<Rightarrow> graph ext) \<Rightarrow> bool" where
  "codec_ok enc decode \<longleftrightarrow> (\<forall>g json. enc g = Inr json \<longrightarrow> decode json = Inr (stored_graph g))"

lemma write_file_other [simp]: "q \<noteq> p \<Longrightarrow> contents (write_file p x fs) q = contents fs q"
  by (simp add: write_file_def)

lemma write_file_same [simp]: "contents (write_file p x fs) p = Some x"
  by (simp add: write_file_def)

lemma load_cong:
  assumes "contents fs (dir @ ''/'' @ filename) = contents fs' (dir @ ''/'' @ filename)"
    and "contents fs (dir @ ''/'' @ (filename @ ''.old'')) = contents fs' (dir @ ''/'' @ (filename @ ''.old''))"
  shows "load_graph_from_file decode ks dir filename fs = load_graph_from_file decode ks dir filename fs'"
  unfolding load_graph_from_file_def assms by (rule refl)

text \<open>Serializing touches the temporary file only, and when it succeeds that holds the whole JSON.\<close>

lemma serialize_frame:
  assumes "serialize_to_file enc io filename g fs = (states, err)" and "fs' \<in> set states" and "p \<noteq> filename @ ''.tmp''"
  shows "contents fs' p = contents fs p"
  using assms by (auto simp: serialize_to_file_def Let_def split: option.splits sum.splits)

lemma serialize_done:
  assumes "serialize_to_file enc io filename g fs = (states, None)"
  obtains json where "enc g = Inr json" and "contents (last states) (filename @ ''.tmp'') = Some json"
  using assms by (auto simp: serialize_to_file_def Let_def split: option.splits sum.splits)

lemma serialize_not_Nil: "serialize_to_file enc io filename g fs = (states, err) \<Longrightarrow> states \<noteq> []"
  by (auto simp: serialize_to_file_def Let_def split: option.splits sum.splits)

text \<open>The three states after serializing: before, between and after the two renames.\<close>

lemma save_states:
  assumes "save_graph_to_file enc io dir name g fs = (states, err)" and "fs' \<in> set states"
  obtains (untouched) "\<forall>p. p \<noteq> dir @ ''/'' @ name @ ''.tmp'' \<longrightarrow> contents fs' p = contents fs p"
  | (backed_up) x where "contents fs (dir @ ''/'' @ name) = Some x" and "contents fs' (dir @ ''/'' @ name) = None"
      and "contents fs' (dir @ ''/'' @ name @ ''.old'') = Some x"
  | (renamed) json where "err = None" and "enc g = Inr json" and "contents fs' (dir @ ''/'' @ name) = Some json"
proof (cases "dir \<notin> dirs fs \<and> sf_mkdir io \<noteq> None")
  case True
  then have "fs' = fs" using assms by (auto simp: save_graph_to_file_def)
  then show ?thesis by (intro untouched) simp
next
  case False
  let ?f = "dir @ ''/'' @ name" and ?fs1 = "fs\<lparr>dirs := insert dir (dirs fs)\<rparr>"
  obtain ser err1 where ser: "serialize_to_file enc io ?f g ?fs1 = (ser, err1)" by fastforce
  have frame: "contents s p = contents fs p" if "s \<in> set ser" "p \<noteq> ?f @ ''.tmp''" for s p
    using serialize_frame [OF ser that] by simp
  show ?thesis
  proof (cases "err1 = None")
    case False
    then have "fs' = fs \<or> fs' \<in> set ser"
      using assms ser \<open>\<not> (dir \<notin> dirs fs \<and> sf_mkdir io \<noteq> None)\<close> by (auto simp: save_graph_to_file_def Let_def)
    then show ?thesis using frame by (intro untouched) auto
  next
    case True
    let ?fs2 = "last ser"
    define fs3 where "fs3 = (if contents ?fs2 ?f \<noteq> None \<and> sf_backup io = None then move ?f (?f @ ''.old'') ?fs2 else ?fs2)"
    have mem: "?fs2 \<in> set ser" using serialize_not_Nil [OF ser] by simp
    obtain json where json: "enc g = Inr json" "contents ?fs2 (?f @ ''.tmp'') = Some json"
      using serialize_done ser True by blast
    have save: "save_graph_to_file enc io dir name g fs =
        (if sf_rename io \<noteq> None then (fs # ser @ [fs3], sf_rename io)
         else (fs # ser @ [fs3, move (?f @ ''.tmp'') ?f fs3], None))"
      using False ser True by (auto simp: save_graph_to_file_def fs3_def Let_def)
    have three: "contents fs3 (?f @ ''.tmp'') = Some json"
      and or: "(\<forall>p. p \<noteq> ?f @ ''.tmp'' \<longrightarrow> contents fs3 p = contents fs p) \<or>
        (\<exists>x. contents fs ?f = Some x \<and> contents fs3 ?f = None \<and> contents fs3 (?f @ ''.old'') = Some x)"
      using json(2) frame [OF mem] by (auto simp: fs3_def move_def split: option.split)
    consider "fs' = fs \<or> fs' \<in> set ser" | "fs' = fs3" | "sf_rename io = None" "fs' = move (?f @ ''.tmp'') ?f fs3"
      using assms save by (auto split: if_splits)
    then show ?thesis
    proof cases
      case 1
      then show ?thesis using frame by (intro untouched) auto
    next
      case 2
      then show ?thesis using or untouched backed_up by auto
    next
      case 3
      then have "contents fs' ?f = Some json" using three by (simp add: move_def)
      moreover have "err = None" using assms(1) save 3(1) by simp
      ultimately show ?thesis using json(1) by (intro renamed)
    qed
  qed
qed

lemma save_loads_encoded:
  assumes "codec_ok enc decode" and "save_graph_to_file enc io dir name g fs = (states, err)" and "fs' \<in> set states"
  shows "load_graph_from_file decode ks dir name fs' = load_graph_from_file decode ks dir name fs
    \<or> load_graph_from_file decode ks dir name fs' = Inr (rebuild (ks (stored_graph g)) (stored_graph g))
      \<and> (\<exists>json. decode json = Inr (stored_graph g))"
  using assms(2,3)
proof (cases rule: save_states)
  case untouched
  then show ?thesis by (intro disjI1 load_cong) simp_all
next
  case (backed_up x)
  then show ?thesis by (simp add: load_graph_from_file_def)
next
  case (renamed json)
  then have "decode json = Inr (stored_graph g)" using assms(1) by (simp add: codec_ok_def)
  then show ?thesis using renamed by (auto simp: load_graph_from_file_def decode_graph_def)
qed

lemma save_loads:
  assumes "codec_ok enc decode" and "save_graph_to_file enc io dir name g fs = (states, err)" and "fs' \<in> set states"
  shows "load_graph_from_file decode ks dir name fs' = load_graph_from_file decode ks dir name fs
    \<or> load_graph_from_file decode ks dir name fs' = Inr (rebuild (ks (stored_graph g)) (stored_graph g))"
  using save_loads_encoded [OF assms, of ks] by blast

text \<open>C12. Whatever happens while the graph is saved (a crash between any two system calls or in the middle of the write,
  and any of the calls failing): the next start loads the graph that it would have loaded before the save, or the
  graph that was saved, never a mixture and never less than before.\<close>

theorem save_crash_safe:
  assumes "codec_ok enc decode" and "save_graph_to_file enc io dir name g fs = (states, err)" and "fs' \<in> set states"
  shows "load_graph_from_file decode ks dir name fs' = load_graph_from_file decode ks dir name fs
    \<or> load_graph_from_file decode ks dir name fs' = Inr (rebuild (ks (stored_graph g)) (stored_graph g))"
  by (rule save_loads [OF assms])

text \<open>A codec for the witnesses that knows one graph.\<close>

definition one_codec :: "graph \<Rightarrow> string ext" where
  "one_codec g = (if g = sample_graph then Inr ''sample'' else Inl (ErrForeign ''json''))"

definition one_decode :: "string \<Rightarrow> graph ext" where
  "one_decode s = (if s = ''sample'' then Inr (stored_graph sample_graph) else Inl (ErrForeign ''json''))"

definition sample_files :: files where
  "sample_files = \<lparr>dirs = {''d''}, contents = [''d/g'' \<mapsto> ''previous'']\<rparr>"

lemma one_codec_ok: "codec_ok one_codec one_decode"
  by (simp add: codec_ok_def one_codec_def one_decode_def)

lemma upto7: "[0..<7] = [0, 1, 2, 3, 4, 5, 6::nat]"
  by (simp add: upt_rec)

text \<open>The crash of the witness happens between the two renames.\<close>

theorem save_crash_safe_witness:
  "\<exists>states fs'. save_graph_to_file one_codec no_faults ''d'' ''g'' sample_graph sample_files = (states, None)
     \<and> fs' \<in> set states \<and> contents fs' ''d/g'' = None
     \<and> load_graph_from_file one_decode (\<lambda>g. []) ''d'' ''g'' fs'
         \<in> {Inl (ErrForeign ''json''), Inr (stored_graph sample_graph)}"
proof -
  obtain states where save: "save_graph_to_file one_codec no_faults ''d'' ''g'' sample_graph sample_files = (states, None)"
    and mem: "move ''d/g'' ''d/g.old'' (write_file ''d/g.tmp'' ''sample'' (write_file ''d/g.tmp'' [] sample_files)) \<in> set states"
    by (simp add: save_graph_to_file_def serialize_to_file_def no_faults_def one_codec_def Let_def upto7
        insert_absorb write_file_def sample_files_def)
  have "load_graph_from_file one_decode (\<lambda>g. []) ''d'' ''g'' sample_files = Inl (ErrForeign ''json'')"
    by (simp add: load_graph_from_file_def sample_files_def decode_graph_def one_decode_def)
  moreover have "contents (move ''d/g'' ''d/g.old'' (write_file ''d/g.tmp'' ''sample'' (write_file ''d/g.tmp'' [] sample_files)))
      ''d/g'' = None" by (simp add: move_def sample_files_def write_file_def)
  ultimately show ?thesis
    using save_crash_safe [OF one_codec_ok save mem, of "\<lambda>g. []"] save mem by (auto simp: rebuild_def)
qed

section \<open>Nothing is lost\<close>

text \<open>The limits of a channel in a reachable graph are those that are parsed again after loading.\<close>

definition limits_parsed :: "graph \<Rightarrow> bool" where
  "limits_parsed g \<longleftrightarrow> (\<forall>cid c. channels g cid = Some c \<longrightarrow> fill_htlc (stored c) = c)"

lemma fill_stored_simps [simp]:
  "fill_htlc (stored (new_channel c lq ts)) = new_channel c lq ts"
  "fill_htlc (stored (fill_htlc (stored d))) = fill_htlc (stored d)"
  by (simp_all add: fill_htlc_def stored_def Let_def)

lemma fill_stored_update:
  "fill_htlc (stored c) = c \<Longrightarrow> fill_htlc (stored (c\<lparr>liquidity := x, timestamp := t\<rparr>)) = c\<lparr>liquidity := x, timestamp := t\<rparr>"
  by (cases c) (simp add: fill_htlc_def stored_def Let_def)

lemma limits_upd:
  "limits_parsed g \<Longrightarrow> channels g cid = Some c \<Longrightarrow>
     limits_parsed (g\<lparr>channels := (channels g)(k \<mapsto> c\<lparr>liquidity := x, timestamp := t\<rparr>)\<rparr>)"
  using fill_stored_update by (auto simp: limits_parsed_def)

lemma limits_refresh: "limits_parsed g \<Longrightarrow> limits_parsed (fold refresh_channel cs g)"
proof (induction cs arbitrary: g)
  case (Cons c cs)
  have "limits_parsed (refresh_channel c g)"
    using Cons.prems by (auto simp: limits_parsed_def refresh_channel_channels split: option.split)
  then show ?case using Cons.IH by simp
qed simp

lemma limits_update: "limits_parsed g \<Longrightarrow> limits_parsed (update_channel cid opposite amount now g)"
proof -
  assume g: "limits_parsed g"
  define g1 where "g1 = (case channels g cid of None \<Rightarrow> g
    | Some c \<Rightarrow> g\<lparr>channels := (channels g)(cid \<mapsto> c\<lparr>liquidity := amount, timestamp := now\<rparr>)\<rparr>)"
  have "limits_parsed g1" using g limits_upd by (auto simp: g1_def split: option.split)
  moreover have "update_channel cid opposite amount now g = (case channels g1 opposite of None \<Rightarrow> g1
    | Some c \<Rightarrow> g1\<lparr>channels := (channels g1)(opposite \<mapsto> c\<lparr>liquidity := satoshis c * 1000 - amount, timestamp := now\<rparr>)\<rparr>)"
    unfolding update_channel_def Let_def g1_def by (rule refl)
  ultimately show ?thesis using limits_upd [of g1 opposite] by (auto split: option.split)
qed

lemma limits_liquidity: "limits_parsed g \<Longrightarrow> limits_parsed (fst (fold (liquidity_step threshold now clk) ks (g, h)))"
proof (induction ks arbitrary: g h)
  case (Cons k ks)
  have "limits_parsed (fst (liquidity_step threshold now clk k (g, h)))"
    using Cons.prems limits_upd [of g k]
    by (auto simp: liquidity_step_def reset_liquidity_def split: option.split)
  then show ?case using Cons.IH by (cases "liquidity_step threshold now clk k (g, h)") simp
qed simp

lemma graph_reach_limits: "graph_reach ends g \<Longrightarrow> limits_parsed g"
proof (induction rule: graph_reach.induct)
  case (reach_refresh g cs)
  then show ?case by (simp add: refresh_channels_def limits_refresh)
next
  case (reach_aliases g ns)
  then show ?case by (simp add: limits_parsed_def)
next
  case (reach_prune g ks now_s)
  then show ?case
    using conjunct2 [OF prune_fold [OF graph_reach_ok [OF reach_prune(1)]]]
    by (auto simp: limits_parsed_def prune_channels_fold split: if_splits option.splits)
next
  case (reach_liquidity g ks threshold now clk)
  then show ?case by (simp add: refresh_liquidity_fold limits_liquidity)
next
  case (reach_load g ks)
  then have "distinct ks" by (simp add: enumerates_def)
  then show ?case using reach_load enumerates_mem [OF reach_load(2)]
    by (auto simp: limits_parsed_def rebuild_channels stored_graph_def split: if_splits)
next
  case (reach_update g cid opposite amount now)
  then show ?case by (intro limits_update)
next
  case reach_new
  show ?case by (simp add: limits_parsed_def new_graph_def)
qed

text \<open>C14. A graph that was saved without an error comes back from the file as it was: the same channels with everything
  that was learned about their liquidity, the same adjacency up to the order of parallel channels, and again a
  reachable graph. Only the aliases are gone until the next refresh.\<close>

theorem save_load_roundtrip:
  assumes "codec_ok enc decode" and "graph_reach ends g" and "enumerates (ks (stored_graph g)) (channels g)"
    and "save_graph_to_file enc io dir name g fs = (states, None)"
  shows "\<exists>g'. load_graph_from_file decode ks dir name (last states) = Inr g' \<and> graph_reach ends g'
    \<and> channels g' = channels g \<and> (\<forall>d s. mset (edge_of (inbound g') d s) = mset (edge_of (inbound g) d s))
    \<and> aliases g' = Map.empty"
proof -
  let ?g' = "rebuild (ks (stored_graph g)) (stored_graph g)"
  have "\<exists>json. enc g = Inr json \<and> contents (last states) (dir @ ''/'' @ name) = Some json"
  proof -
    let ?f = "dir @ ''/'' @ name" and ?fs1 = "fs\<lparr>dirs := insert dir (dirs fs)\<rparr>"
    obtain ser err1 where ser: "serialize_to_file enc io ?f g ?fs1 = (ser, err1)" by fastforce
    have "err1 = None" and ren: "sf_rename io = None" "\<not> (dir \<notin> dirs fs \<and> sf_mkdir io \<noteq> None)"
      using assms(4) ser by (auto simp: save_graph_to_file_def Let_def split: if_splits)
    then obtain json where json: "enc g = Inr json" "contents (last ser) (?f @ ''.tmp'') = Some json"
      using serialize_done ser by blast
    have "last states = move (?f @ ''.tmp'') ?f
        (if contents (last ser) ?f \<noteq> None \<and> sf_backup io = None then move ?f (?f @ ''.old'') (last ser) else last ser)"
      using assms(4) ser ren \<open>err1 = None\<close> by (auto simp: save_graph_to_file_def Let_def split: if_splits)
    then show ?thesis using json by (auto simp: move_def split: option.split)
  qed
  then have load: "load_graph_from_file decode ks dir name (last states) = Inr ?g'"
    using assms(1) by (auto simp: load_graph_from_file_def decode_graph_def codec_ok_def)
  have reach: "graph_reach ends ?g'" using assms(2,3) by (rule reach_load)
  have "distinct (ks (stored_graph g))" using assms(3) by (simp add: enumerates_def)
  then have chans: "channels ?g' cid = channels g cid" for cid
    using graph_reach_limits [OF assms(2)] enumerates_mem [OF assms(3), of cid]
    by (cases "channels g cid") (auto simp: rebuild_channels stored_graph_def limits_parsed_def)
  have between: "chan_between ?g' = chan_between g" by (intro ext) (simp add: chan_between_def chans)
  have "mset (edge_of (inbound ?g') d s) = mset (edge_of (inbound g) d s)" for d s
    using graph_okD(3) [OF graph_reach_ok [OF reach]] graph_okD(3) [OF graph_reach_ok [OF assms(2)]]
    by (intro multiset_eqI) (simp add: between)
  moreover have "channels ?g' = channels g" using chans by (intro ext)
  ultimately show ?thesis using load reach by (intro exI [of _ ?g']) (simp add: stored_graph_def)
qed

definition sample_keys :: "graph \<Rightarrow> string list" where
  "sample_keys g = [''1x1x1/1'', ''1x1x1/0'']"

theorem save_load_roundtrip_witness:
  "\<exists>states g'. save_graph_to_file one_codec no_faults ''d'' ''g'' sample_graph sample_files = (states, None)
     \<and> load_graph_from_file one_decode sample_keys ''d'' ''g'' (last states) = Inr g'
     \<and> channels g' = channels sample_graph"
proof -
  obtain states where save: "save_graph_to_file one_codec no_faults ''d'' ''g'' sample_graph sample_files = (states, None)"
    by (simp add: save_graph_to_file_def serialize_to_file_def no_faults_def one_codec_def Let_def)
  have "enumerates (sample_keys (stored_graph sample_graph)) (channels sample_graph)"
    by (auto simp: enumerates_def sample_channels sample_keys_def)
  from save_load_roundtrip [where ks = sample_keys, OF one_codec_ok sample_reach this save] save show ?thesis by blast
qed

section \<open>The start of the node\<close>

text \<open>A restart after a crash during a refresh of the graph never ends in a fatal error because of the graph file:
  if the file could be loaded, or there was none, before the refresh, the same is true after it.\<close>

theorem restart_after_crash:
  assumes "codec_ok enc decode"
    and "refresh_graph enc io chans ks' now nodes (n, fs) = (err, n', states)" and "fs' \<in> set states"
    and "get_graph_from_file (load_graph_from_file decode ks CIRCULAR_DIR FILE fs) = Started g"
  shows "\<exists>g'. get_graph_from_file (load_graph_from_file decode ks CIRCULAR_DIR FILE fs') = Started g'
    \<and> (g' = g \<or> g' = rebuild (ks (stored_graph (n_graph n'))) (stored_graph (n_graph n')))"
proof -
  have "fs' = fs \<or> (\<exists>err. save_graph_to_file enc io CIRCULAR_DIR FILE (n_graph n') fs = (states, err))"
    using assms(2,3) by (auto simp: refresh_graph_def Let_def split: sum.splits prod.splits)
  then have "load_graph_from_file decode ks CIRCULAR_DIR FILE fs' = load_graph_from_file decode ks CIRCULAR_DIR FILE fs
      \<or> load_graph_from_file decode ks CIRCULAR_DIR FILE fs' =
          Inr (rebuild (ks (stored_graph (n_graph n'))) (stored_graph (n_graph n')))"
  proof (elim disjE exE)
    fix err
    assume save: "save_graph_to_file enc io CIRCULAR_DIR FILE (n_graph n') fs = (states, err)"
    show ?thesis by (rule save_loads [OF assms(1) save assms(3)])
  qed simp
  then show ?thesis using assms(4) by (auto simp: get_graph_from_file_def split: sum.splits)
qed

theorem restart_after_crash_witness:
  "\<exists>g'. get_graph_from_file (load_graph_from_file one_decode sample_keys CIRCULAR_DIR FILE
      (last (snd (snd (refresh_graph one_codec no_faults (Inr []) (\<lambda>g. []) 0 (Inr [])
        (sample_node, \<lparr>dirs = {}, contents = Map.empty\<rparr>)))))) = Started g'"
proof -
  let ?fs = "\<lparr>dirs = {}, contents = Map.empty\<rparr>"
  obtain err n' states where r: "refresh_graph one_codec no_faults (Inr []) (\<lambda>g. []) 0 (Inr []) (sample_node, ?fs)
      = (err, n', states)" by (metis prod_cases3)
  have "states \<noteq> []" using r
    by (auto simp: refresh_graph_def save_graph_to_file_def Let_def split: prod.splits if_splits)
  then have mem: "last states \<in> set states" by simp
  have "get_graph_from_file (load_graph_from_file one_decode sample_keys CIRCULAR_DIR FILE ?fs) = Started new_graph"
    by (simp add: load_graph_from_file_def get_graph_from_file_def)
  from restart_after_crash [OF one_codec_ok r mem this] show ?thesis by (auto simp: r)
qed

end
