(* ===== verification/Stats.thy ===== *)
theory Stats
  imports Payment
begin

text \<open>
  \<^verbatim>\<open>node/stats.go\<close> and \<^verbatim>\<open>node/deletestats.go\<close>: the statistics command, which reads the whole database, and the
  command that deletes what it shows. A listing that fails is logged and shown as empty.
\<close>

section \<open>Statistics\<close>

record node_stats =
  ns_graph :: stats
  ns_successes :: "sendpay_success list"
  ns_failures :: "sendpay_failure list"
  ns_routes :: "pretty_route list"

definition or_empty :: "'a list ext \<Rightarrow> 'a list" where
  "or_empty r = (case r of Inl e \<Rightarrow> [] | Inr xs \<Rightarrow> xs)"

text \<open>\<open>ns\<close> and \<open>ks\<close> enumerate the nodes and the channels of the graph.\<close>

definition get_node_stats :: "'d library \<Rightarrow> string list \<Rightarrow> string list \<Rightarrow> 'd node \<Rightarrow> node_stats" where
  "get_node_stats B ns ks n =
     \<lparr>ns_graph = get_stats ns ks (n_graph n), ns_successes = or_empty (list_successes B (n_db n)),
      ns_failures = or_empty (list_failures B (n_db n)), ns_routes = or_empty (list_routes B (n_db n))\<rparr>"

definition total_moved :: "sendpay_success list \<Rightarrow> u64" where
  "total_moved ss = fold (\<lambda>s total. total + ss_msat s) ss 0"

definition node_stats_string :: "node_stats \<Rightarrow> string" where
  "node_stats_string s =
     ''Node stats:'' @ newline
     @ stats_string (ns_graph s) @ newline
     @ ''successes: '' @ dec (length (ns_successes s)) @ newline
     @ ''failures: '' @ dec (length (ns_failures s)) @ newline
     @ ''routes: '' @ dec (length (ns_routes s)) @ newline
     @ ''Total amount of BTC rebalanced: '' @ fmt_u64 (total_moved (ns_successes s) div 1000) @ ''sats''"

section \<open>Deleting them\<close>

definition delete_stats :: "'d library \<Rightarrow> 'd node \<Rightarrow> string \<times> 'd node" where
  "delete_stats B n =
     (let (err, db) = bd_drop B [SuccessPrefix, FailurePrefix, RoutePrefix] (n_db n)
      in (case err of Some e \<Rightarrow> ''failure'' | None \<Rightarrow> ''success'', n\<lparr>n_db := db\<rparr>))"

text \<open>
  What badger documents about prefixes: a scan yields the values of exactly the keys with the prefix, and a
  drop makes exactly the keys with one of the prefixes absent. A drop that fails may have got to some of them: each key
  with one of the prefixes is absent or as it was.
\<close>

definition drop_ok :: "'d library \<Rightarrow> bool" where
  "drop_ok B \<longleftrightarrow> (\<forall>ps db err db' k. bd_drop B ps db = (err, db') \<longrightarrow>
     (if \<exists>p \<in> set ps. prefix p k
      then bd_get B k db' = Inl ErrKeyNotFound \<or> err \<noteq> None \<and> bd_get B k db' = bd_get B k db
      else bd_get B k db' = bd_get B k db))"

definition scan_ok :: "'d library \<Rightarrow> bool" where
  "scan_ok B \<longleftrightarrow> (\<forall>p db. \<exists>ks. bd_scan B p db = map (\<lambda>k. bd_get B k db) ks \<and>
     set ks = {k. prefix p k \<and> bd_get B k db \<noteq> Inl ErrKeyNotFound})"

lemma scan_absent:
  assumes "scan_ok B" and "\<And>k. prefix p k \<Longrightarrow> bd_get B k db = Inl ErrKeyNotFound"
  shows "bd_scan B p db = []"
proof -
  obtain ks where ks: "bd_scan B p db = map (\<lambda>k. bd_get B k db) ks"
    and set: "set ks = {k. prefix p k \<and> bd_get B k db \<noteq> Inl ErrKeyNotFound}"
    using assms(1) [unfolded scan_ok_def, rule_format, of p db] by (elim exE conjE)
  have "set ks = {}" unfolding set using assms(2) by auto
  then show ?thesis using ks by simp
qed

lemma map_of_keep: "map_of (filter (\<lambda>(k, v). P k) xs) k = (if P k then map_of xs k else None)"
  by (induction xs) auto

lemma map_library_drop_ok: "drop_ok map_library"
  unfolding drop_ok_def map_library_def
  by (auto simp: map_of_keep [where P = "\<lambda>k. \<not> (\<exists>p \<in> set ps. prefix p k)" for ps, simplified])

lemma map_library_scan_ok: "scan_ok map_library"
  unfolding scan_ok_def
proof (intro allI)
  fix p and db :: "(string \<times> string) list"
  let ?ks = "remdups (filter (prefix p) (map fst db))"
  have "bd_scan map_library p db = map (\<lambda>k. bd_get map_library k db) ?ks"
    by (auto simp: map_library_def map_of_eq_None_iff split: option.splits)
  moreover have "set ?ks = {k. prefix p k \<and> bd_get map_library k db \<noteq> Inl ErrKeyNotFound}"
    by (auto simp: map_library_def map_of_eq_None_iff split: option.splits dest: map_of_SomeD)
       (force dest: map_of_SomeD)?
  ultimately show "\<exists>ks. bd_scan map_library p db = map (\<lambda>k. bd_get map_library k db) ks
      \<and> set ks = {k. prefix p k \<and> bd_get map_library k db \<noteq> Inl ErrKeyNotFound}" by blast
qed

definition stats_prefixes :: "string list" where
  "stats_prefixes = [SuccessPrefix, FailurePrefix, RoutePrefix]"

definition stats_key :: "string \<Rightarrow> bool" where
  "stats_key k \<longleftrightarrow> (\<exists>p \<in> set stats_prefixes. prefix p k)"

text \<open>The marks of timed out payments and the preimages under their hashes are no statistics.\<close>

lemma timeout_mark_kept: "\<not> stats_key (TimeoutPrefix @ h)"
  by (auto simp: stats_key_def stats_prefixes_def SuccessPrefix_def FailurePrefix_def RoutePrefix_def
      TimeoutPrefix_def)

text \<open>What deleting the statistics does to a key, when it succeeds and when it fails half-way.\<close>

lemma delete_stats_get:
  assumes "drop_ok B" and "delete_stats B n = (status, n')"
  shows "\<not> stats_key k \<Longrightarrow> store_get B k (n_db n') = store_get B k (n_db n)"
    and "stats_key k \<Longrightarrow> store_get B k (n_db n') = Inl ErrKeyNotFound
      \<or> status = ''failure'' \<and> store_get B k (n_db n') = store_get B k (n_db n)"
proof -
  obtain err db where d: "bd_drop B stats_prefixes (n_db n) = (err, db)" by fastforce
  then have n': "n_db n' = db" "status = (case err of Some e \<Rightarrow> ''failure'' | None \<Rightarrow> ''success'')"
    using assms(2) by (auto simp: delete_stats_def stats_prefixes_def)
  have "if stats_key k then bd_get B k db = Inl ErrKeyNotFound \<or> err \<noteq> None \<and> bd_get B k db = bd_get B k (n_db n)
      else bd_get B k db = bd_get B k (n_db n)"
    using assms(1) d unfolding drop_ok_def stats_key_def by blast
  then show "\<not> stats_key k \<Longrightarrow> store_get B k (n_db n') = store_get B k (n_db n)"
    and "stats_key k \<Longrightarrow> store_get B k (n_db n') = Inl ErrKeyNotFound
      \<or> status = ''failure'' \<and> store_get B k (n_db n') = store_get B k (n_db n)"
    using n' by (auto simp: store_get_def)
qed

lemma delete_stats_status: "fst (delete_stats B n) = ''success'' \<or> fst (delete_stats B n) = ''failure''"
  by (simp add: delete_stats_def Let_def split_def split: option.split)

text \<open>After a success the listings are empty.\<close>

theorem deleted_stats_empty:
  assumes "drop_ok B" and "scan_ok B" and "delete_stats B n = (''success'', n')"
  shows "get_node_stats B ns ks n' =
    \<lparr>ns_graph = get_stats ns ks (n_graph n), ns_successes = [], ns_failures = [], ns_routes = []\<rparr>"
proof -
  have graph: "n_graph n' = n_graph n" using assms(3) by (auto simp: delete_stats_def Let_def split_def)
  have none: "bd_scan B p (n_db n') = []" if "p \<in> set stats_prefixes" for p
    by (rule scan_absent [OF assms(2)])
      (use that delete_stats_get(2) [OF assms(1,3)] in \<open>auto simp: stats_key_def store_get_def\<close>)
  show ?thesis
    using none graph by (simp add: get_node_stats_def list_successes_def list_failures_def list_routes_def or_empty_def
        stats_prefixes_def)
qed

end
