(* ===== verification/Pathfinder_Optimal.thy ===== *)
theory Pathfinder_Optimal
  imports Pathfinder_Sound
begin

text \<open>
  When the path finder is exact. If the hop limit does not bind, the search finds a route whenever there is one over
  channels without a minimum above the amount that is sent, and what it returns costs no more than any such route.
  Channels with higher minimums may be in the graph, and in the route it returns; but they can hide routes. The proof adds
  to the invariant of \<open>Pathfinder_Sound\<close> that no channel into an expanded node can improve its source any more, and
  that every node that was reached and not expanded waits in the queue with its distance.
\<close>

section \<open>Expanded nodes\<close>

definition into :: "graph \<Rightarrow> string \<Rightarrow> channel \<Rightarrow> bool" where
  "into g u c \<longleftrightarrow> channels g (channel_id c) = Some c \<and> chan_destination c = u"

text \<open>The amount that has to reach a node at distance \<open>dist_of st u\<close>.\<close>

definition amount_at :: "u64 \<Rightarrow> search \<Rightarrow> string \<Rightarrow> nat" where
  "amount_at a st u = unat a + nat (dist_of st u)"

definition edge_relaxed :: "(string \<rightharpoonup> bool) \<Rightarrow> u64 \<Rightarrow> search \<Rightarrow> string \<Rightarrow> channel \<Rightarrow> bool" where
  "edge_relaxed ex a st u c \<longleftrightarrow>
     go_get False ex (chan_source c) \<or> \<not> can_forward c (of_nat (amount_at a st u))
     \<or> dist_of st (chan_source c) \<le> dist_of st u + int (unat (compute_fee c (of_nat (amount_at a st u))))"

definition waits :: "string \<Rightarrow> string set \<Rightarrow> search \<Rightarrow> bool" where
  "waits dst D st \<longleftrightarrow> (\<forall>v. reached dst st v \<and> v \<notin> D \<longrightarrow>
     (\<exists>w. (w, dist_of st v) \<in># pq_elems (queue st) \<and> pq_node w = v))"

definition all_relaxed :: "graph \<Rightarrow> (string \<rightharpoonup> bool) \<Rightarrow> u64 \<Rightarrow> string set \<Rightarrow> search \<Rightarrow> bool" where
  "all_relaxed g ex a D st \<longleftrightarrow> (\<forall>u \<in> D. \<forall>c. into g u c \<longrightarrow> edge_relaxed ex a st u c)"

lemma edge_relaxed_mono:
  assumes "edge_relaxed ex a st u c" and "dist_of st' u = dist_of st u"
    and "dist_of st' (chan_source c) \<le> dist_of st (chan_source c)"
  shows "edge_relaxed ex a st' u c"
  using assms by (auto simp: edge_relaxed_def amount_at_def)

text \<open>What one improvement does to the distances and to the queue.\<close>

lemma improved_simps:
  "dist_of (improved item c L st) w =
     (if w = chan_source c then L + int (unat (compute_fee c (pq_amount item))) else dist_of st w)"
  "reached dst (improved item c L st) w \<longleftrightarrow> w = chan_source c \<or> reached dst st w"
  by (auto simp: improved_def Let_def dist_of_def reached_def)

lemma improved_queue:
  obtains w where "pq_elems (queue (improved item c L st)) =
      add_mset (w, dist_of (improved item c L st) (chan_source c)) (pq_elems (queue st))"
    and "pq_node w = chan_source c"
  by (auto simp: improved_def Let_def heap_push_elems dist_of_def)

lemma improved_waits:
  assumes "waits dst D st"
  shows "waits dst D (improved item c L st)"
  unfolding waits_def
proof (intro allI impI)
  fix v assume v: "reached dst (improved item c L st) v \<and> v \<notin> D"
  obtain w where w: "pq_elems (queue (improved item c L st)) =
      add_mset (w, dist_of (improved item c L st) (chan_source c)) (pq_elems (queue st))"
    "pq_node w = chan_source c" by (rule improved_queue)
  show "\<exists>w. (w, dist_of (improved item c L st) v) \<in># pq_elems (queue (improved item c L st)) \<and> pq_node w = v"
  proof (cases "v = chan_source c")
    case True
    with w show ?thesis by (intro exI [of _ w]) simp
  next
    case False
    then obtain w' where "(w', dist_of st v) \<in># pq_elems (queue st)" "pq_node w' = v"
      using assms v by (auto simp: waits_def improved_simps)
    then show ?thesis using False w by (intro exI [of _ w']) (simp add: improved_simps)
  qed
qed

section \<open>Visiting the neighbours\<close>

text \<open>While \<open>u\<close> is expanded: the channels in \<open>E\<close> have been handled.\<close>

definition visiting ::
  "graph \<Rightarrow> (string \<rightharpoonup> bool) \<Rightarrow> u64 \<Rightarrow> string \<Rightarrow> int \<Rightarrow> string set \<Rightarrow> int \<Rightarrow> pq_value \<Rightarrow> route_hop list
     \<Rightarrow> channel set \<Rightarrow> search \<Rightarrow> bool" where
  "visiting g ex a dst mh D L item hs E st \<longleftrightarrow>
     expanding g ex a dst mh D L item hs st \<and> waits dst D st
     \<and> all_relaxed g ex a (D - {pq_node item}) st
     \<and> (\<forall>c \<in> E. edge_relaxed ex a st (pq_node item) c)"

lemma expanding_amount:
  assumes "expanding g ex a dst mh D L item hs st"
  shows "of_nat (amount_at a st (pq_node item)) = pq_amount item" and "dist_of st (pq_node item) = L"
proof -
  have "dist_of st (pq_node item) = int (cost a hs)" "unat (pq_amount item) = unat a + cost a hs"
    using assms by (auto simp: expanding_def node_path_def item_ok_def)
  then have "amount_at a st (pq_node item) = unat (pq_amount item)" by (simp add: amount_at_def)
  then show "of_nat (amount_at a st (pq_node item)) = pq_amount item" by simp
  show "dist_of st (pq_node item) = L" using assms by (simp add: expanding_def)
qed

lemma all_relaxed_improved:
  assumes "all_relaxed g ex a D' st" and "chan_source c \<notin> D'"
    and "L + int (unat (compute_fee c (pq_amount item))) \<le> dist_of st (chan_source c)"
  shows "all_relaxed g ex a D' (improved item c L st)"
  unfolding all_relaxed_def
proof (intro ballI allI impI)
  fix u c' assume u: "u \<in> D'" and c': "into g u c'"
  have "edge_relaxed ex a st u c'" using assms(1) u c' by (simp add: all_relaxed_def)
  moreover have "u \<noteq> chan_source c" using u assms(2) by auto
  ultimately show "edge_relaxed ex a (improved item c L st) u c'"
    using assms(3) by (elim edge_relaxed_mono) (simp_all add: improved_simps)
qed

lemma visiting_relax:
  assumes ok: "graph_ok ends g" "gossip_bounded g" "unat a \<le> 2 ^ 40"
    and v: "visiting g ex a dst mh D L item hs E st" and allowed: "\<not> go_get False ex v"
    and short: "pq_hops item < mh"
    and scid: "scid \<in> set (edge_of (inbound g) (pq_node item) v)"
  shows "visiting g ex a dst mh D L item hs
    (E \<union> {c. channels g (channel_key scid v (pq_node item)) = Some c}) (relax g item v scid st)"
proof -
  let ?u = "pq_node item" and ?x = "pq_amount item"
  have ex: "expanding g ex a dst mh D L item hs st" and w: "waits dst D st"
    and rel: "all_relaxed g ex a (D - {?u}) st" and E: "\<forall>c \<in> E. edge_relaxed ex a st ?u c"
    using v by (simp_all add: visiting_def)
  obtain c where key: "channels g (channel_key scid v ?u) = Some c" and src: "chan_source c = v"
    and r: "relax g item v scid st =
      (if can_forward c ?x \<and> L + int (unat (compute_fee c ?x)) < dist_of st v then improved item c L st else st)"
    by (rule relax_cases [OF ok ex scid])
  have ex': "expanding g ex a dst mh D L item hs (relax g item v scid st)"
    by (rule relax_expanding [OF ok ex allowed short scid])
  show ?thesis
  proof (cases "can_forward c ?x \<and> L + int (unat (compute_fee c ?x)) < dist_of st v")
    case True
    let ?st = "improved item c L st"
    have st: "relax g item v scid st = ?st" using True r by simp
    have vD: "v \<notin> D"
    proof
      assume "v \<in> D"
      then have "dist_of st v \<le> L" using ex search_invD(8) by (auto simp: expanding_def)
      moreover have "0 \<le> int (unat (compute_fee c ?x))" by (rule of_nat_0_le_iff)
      ultimately show False using True by linarith
    qed
    then have vu: "?u \<noteq> v" using ex by (auto simp: expanding_def)
    have mono: "edge_relaxed ex a ?st ?u c'" if "edge_relaxed ex a st ?u c'" for c'
      using that vu True src by (elim edge_relaxed_mono) (simp_all add: improved_simps)
    have "edge_relaxed ex a ?st ?u c"
      using src expanding_amount [OF ex' [unfolded st]] by (simp add: edge_relaxed_def improved_simps)
    moreover have "all_relaxed g ex a (D - {?u}) ?st"
      using rel vD True src by (intro all_relaxed_improved) auto
    ultimately show ?thesis
      using ex' E mono key improved_waits [OF w] unfolding st visiting_def by auto
  next
    case False
    then have "edge_relaxed ex a st ?u c"
      using src expanding_amount [OF ex] by (auto simp: edge_relaxed_def)
    then show ?thesis using False v key unfolding r visiting_def by auto
  qed
qed

lemma fold_collect:
  assumes "\<And>E x st. P E st \<Longrightarrow> x \<in> A \<Longrightarrow> P (E \<union> F x) (f x st)"
  shows "P E st \<Longrightarrow> set xs \<subseteq> A \<Longrightarrow> P (E \<union> (\<Union>x \<in> set xs. F x)) (fold f xs st)"
proof (induction xs arbitrary: E st)
  case (Cons x xs)
  then have "P (E \<union> F x \<union> (\<Union>x \<in> set xs. F x)) (fold f xs (f x st))" using assms by auto
  then show ?case by (simp add: Un_assoc)
qed simp

definition edge_channels :: "graph \<Rightarrow> string \<Rightarrow> string \<Rightarrow> channel set" where
  "edge_channels g u v = (\<Union>scid \<in> set (edge_of (inbound g) u v). {c. channels g (channel_key scid v u) = Some c})"

lemma visiting_edge:
  assumes ok: "graph_ok ends g" "gossip_bounded g" "unat a \<le> 2 ^ 40" and short: "pq_hops item < mh"
    and v: "visiting g ex a dst mh D L item hs E st"
  shows "visiting g ex a dst mh D L item hs (E \<union> edge_channels g (pq_node item) v) (relax_edge g ex item v st)"
proof (cases "go_get False ex v")
  case True
  have "chan_source c = v" if "scid \<in> set (edge_of (inbound g) (pq_node item) v)"
    "channels g (channel_key scid v (pq_node item)) = Some c" for scid c
    using edge_channel [OF ok(1) that(1)] that(2) by auto
  then show ?thesis using True v by (auto simp: visiting_def relax_edge_def edge_relaxed_def edge_channels_def)
next
  case False
  then show ?thesis
    using fold_collect [where P = "visiting g ex a dst mh D L item hs", OF visiting_relax [OF ok _ False short] v subset_refl]
    by (simp add: relax_edge_def edge_channels_def)
qed

lemma into_edge:
  assumes "graph_ok ends g" and "into g u c"
  shows "c \<in> edge_channels g u (chan_source c)" and "chan_source c \<in> dom (go_get Map.empty (inbound g) u)"
    and "inbound g u \<noteq> None"
proof -
  have "chan_between g u (chan_source c) (short_channel_id c)" "channels g (channel_key (short_channel_id c) (chan_source c) u) = Some c"
    using assms(2) by (auto simp: into_def chan_between_def channel_id_def)
  then have "count (mset (edge_of (inbound g) u (chan_source c))) (short_channel_id c) = 1"
    using graph_okD(3) [OF assms(1)] by simp
  then have mem: "short_channel_id c \<in> set (edge_of (inbound g) u (chan_source c))"
    by (metis count_mset_0_iff zero_neq_one)
  then show "c \<in> edge_channels g u (chan_source c)"
    using \<open>channels g _ = Some c\<close> by (auto simp: edge_channels_def)
  show "chan_source c \<in> dom (go_get Map.empty (inbound g) u)" "inbound g u \<noteq> None"
    using mem by (auto simp: edge_of_def go_get_def split: option.splits intro: sym)
qed

lemma visiting_all:
  assumes ok: "graph_ok ends g" "gossip_bounded g" "unat a \<le> 2 ^ 40" and short: "pq_hops item < mh"
    and v: "visiting g ex a dst mh D L item hs {} st"
    and vs: "dom (go_get Map.empty (inbound g) (pq_node item)) \<subseteq> set vs"
  shows "expanding g ex a dst mh D L item hs (relax_all g ex item vs st)"
    and "waits dst D (relax_all g ex item vs st)"
    and "all_relaxed g ex a D (relax_all g ex item vs st)"
proof -
  have v': "visiting g ex a dst mh D L item hs (\<Union>v \<in> set vs. edge_channels g (pq_node item) v) (relax_all g ex item vs st)"
    using fold_collect [where P = "visiting g ex a dst mh D L item hs", OF visiting_edge [OF ok short] v subset_UNIV]
    by (simp add: relax_all_def)
  then show "expanding g ex a dst mh D L item hs (relax_all g ex item vs st)" "waits dst D (relax_all g ex item vs st)"
    by (simp_all add: visiting_def)
  have "c \<in> (\<Union>v \<in> set vs. edge_channels g (pq_node item) v)" if "into g (pq_node item) c" for c
    using into_edge(1,2) [OF ok(1) that] vs by blast
  then show "all_relaxed g ex a D (relax_all g ex item vs st)"
    using v' unfolding visiting_def all_relaxed_def by blast
qed

section \<open>The loop\<close>

lemma path_destinations:
  "hop_path v hs dst \<Longrightarrow> hs \<noteq> [] \<Longrightarrow>
     map (\<lambda>h. chan_destination (hop_channel h)) hs = tl (hop_sources hs) @ [dst]"
proof (induction hs arbitrary: v)
  case (Cons h t)
  then show ?case by (cases t) auto
qed simp

text \<open>The hop limit does not bind: a path through expanded nodes visits every node at most once.\<close>

lemma path_short:
  assumes ok: "graph_ok ends g" and "finite (dom (inbound g))" and "int (card (dom (inbound g))) \<le> mh"
    and np: "node_path g ex a dst mh D st u hs" and "src \<notin> D" and "src \<in> dom (inbound g)"
  shows "int (length hs) < mh"
proof -
  let ?dests = "map (\<lambda>h. chan_destination (hop_channel h)) hs"
  have c: "chain (hopm st) dst u hs" "hop_path u hs dst" and pr: "priced g ex a hs"
    and D: "\<forall>h \<in> set hs. chan_destination (hop_channel h) \<in> D"
    using np by (simp_all add: node_path_def)
  have "distinct ?dests"
  proof (cases "hs = []")
    case False
    have "distinct (hop_sources hs)" "dst \<notin> set (hop_sources hs)"
      using chain_distinct [OF c] chain_source_not_dst [OF c] by auto
    then show ?thesis
      unfolding path_destinations [OF c(2) False] using False
      by (auto simp: distinct_tl dest: list.set_sel(2) [rotated])
  qed simp
  moreover have "set ?dests \<subseteq> dom (inbound g) - {src}"
  proof
    fix w assume "w \<in> set ?dests"
    then obtain h where h: "h \<in> set hs" "w = chan_destination (hop_channel h)" by auto
    then have "into g w (hop_channel h)" using priced_bottleneck [OF pr] by (simp add: into_def)
    then have "inbound g w \<noteq> None" by (rule into_edge(3) [OF ok])
    moreover have "w \<noteq> src" using h D assms(5) by auto
    ultimately show "w \<in> dom (inbound g) - {src}" by auto
  qed
  ultimately have "length hs \<le> card (dom (inbound g) - {src})"
    using card_mono [of "dom (inbound g) - {src}" "set ?dests"] assms(2) by (simp add: distinct_card del: set_map)
  moreover have "card (dom (inbound g) - {src}) < card (dom (inbound g))"
    using assms(2,6) by (intro card_Diff1_less) auto
  ultimately show ?thesis using assms(3) by linarith
qed

text \<open>The popped item is the only one that leaves the queue.\<close>

lemma popped_waits:
  assumes "waits dst D st" and "queue st \<noteq> []"
    and "\<And>v. reached dst st v \<Longrightarrow> v \<notin> D' \<Longrightarrow> v \<notin> D \<and>
      (pq_node (item_value (fst (heap_pop (queue st)))) \<noteq> v \<or> item_priority (fst (heap_pop (queue st))) \<noteq> dist_of st v)"
  shows "waits dst D' (st\<lparr>queue := snd (heap_pop (queue st))\<rparr>)"
  unfolding waits_def
proof (intro allI impI)
  fix v assume "reached dst (st\<lparr>queue := snd (heap_pop (queue st))\<rparr>) v \<and> v \<notin> D'"
  then have v: "reached dst st v" "v \<notin> D'" by (simp_all add: reached_def)
  then obtain w where w: "(w, dist_of st v) \<in># pq_elems (queue st)" "pq_node w = v"
    using assms(1,3) by (auto simp: waits_def)
  have "pq_elems (queue st) \<noteq> {#}" using assms(2) by simp
  then have "(w, dist_of st v) \<in># pq_elems (snd (heap_pop (queue st)))"
    using pq.pop_or_rest [of "queue st" "(w, dist_of st v)"] w assms(3) [OF v] by (auto simp: pop_key_def item_key_def)
  then show "\<exists>w. (w, dist_of (st\<lparr>queue := snd (heap_pop (queue st))\<rparr>) v)
      \<in># pq_elems (queue (st\<lparr>queue := snd (heap_pop (queue st))\<rparr>)) \<and> pq_node w = v"
    using w(2) by (intro exI [of _ w]) (simp add: dist_of_def)
qed

lemma all_relaxed_queue [simp]: "all_relaxed g ex a D (st\<lparr>queue := q\<rparr>) \<longleftrightarrow> all_relaxed g ex a D st"
  by (simp add: all_relaxed_def edge_relaxed_def amount_at_def dist_of_def)

lemma edge_relaxed_queue [simp]: "edge_relaxed ex a (st\<lparr>queue := q\<rparr>) u c \<longleftrightarrow> edge_relaxed ex a st u c"
  by (simp add: edge_relaxed_def amount_at_def dist_of_def)

text \<open>What holds when the search ends: the nodes that were not expanded are at least as far as the source.\<close>

definition finished ::
  "graph \<Rightarrow> (string \<rightharpoonup> bool) \<Rightarrow> u64 \<Rightarrow> string \<Rightarrow> string \<Rightarrow> int \<Rightarrow> string set \<Rightarrow> int \<Rightarrow> search \<Rightarrow> bool" where
  "finished g ex a src dst mh D L st \<longleftrightarrow>
     search_inv g ex a dst mh D L st \<and> all_relaxed g ex a D st
     \<and> (\<forall>v. reached dst st v \<and> v \<notin> D \<longrightarrow> dist_of st src \<le> dist_of st v)"

definition covers :: "graph \<Rightarrow> (nat \<Rightarrow> string \<Rightarrow> string list) \<Rightarrow> bool" where
  "covers g ord \<longleftrightarrow> (\<forall>n u. dom (go_get Map.empty (inbound g) u) \<subseteq> set (ord n u))"

lemma finished_found:
  assumes inv: "search_inv g ex a dst mh D L st" and w: "waits dst D st" and rel: "all_relaxed g ex a D st"
    and q: "queue st \<noteq> []"
    and fresh: "\<not> item_priority (fst (heap_pop (queue st))) > dist_of st src"
    and src: "pq_node (item_value (fst (heap_pop (queue st)))) = src"
  shows "finished g ex a src dst mh D (item_priority (fst (heap_pop (queue st)))) (st\<lparr>queue := snd (heap_pop (queue st))\<rparr>)"
proof -
  let ?it = "fst (heap_pop (queue st))" and ?st = "st\<lparr>queue := snd (heap_pop (queue st))\<rparr>"
  have inv': "search_inv g ex a dst mh D (item_priority ?it) ?st" by (rule pop_inv(1) [OF inv q])
  have dist': "dist_of ?st v = dist_of st v" for v by (simp add: dist_of_def)
  have "dist_of st src \<le> dist_of st v" if v: "reached dst st v" "v \<notin> D" for v
  proof -
    obtain w where w: "(w, dist_of st v) \<in># pq_elems (queue st)" using w v by (auto simp: waits_def)
    have "item_priority ?it \<le> dist_of st v"
      using pq.pop_least [OF search_invD(1) [OF inv] w] by (simp add: pop_key_def item_key_def)
    moreover have "dist_of st src \<le> item_priority ?it"
    proof -
      have "(item_value ?it, item_priority ?it) \<in># pq_elems (queue st)"
        using pq.pop_mem [of "queue st"] q by (simp add: pop_key_def item_key_def)
      from search_invD(6) [OF inv this] show ?thesis by (simp add: src)
    qed
    ultimately show ?thesis by linarith
  qed
  then show ?thesis using inv' rel by (auto simp: finished_def dist' reached_def)
qed

lemma search_loop_finished:
  "graph_ok ends g \<Longrightarrow> gossip_bounded g \<Longrightarrow> unat a \<le> 2 ^ 40 \<Longrightarrow> finite (dom (inbound g)) \<Longrightarrow>
    int (card (dom (inbound g))) \<le> mh \<Longrightarrow> src \<in> dom (inbound g) \<Longrightarrow> covers g ord \<Longrightarrow>
    search_inv g ex a dst mh D L st \<Longrightarrow> src \<notin> D \<Longrightarrow> waits dst D st \<Longrightarrow> all_relaxed g ex a D st \<Longrightarrow>
    \<exists>D L. finished g ex a src dst mh D L (search_loop g ex src mh ord n st)"
proof (induction g ex src mh ord n st arbitrary: D L rule: search_loop.induct)
  case (1 g ex src mh ord n st)
  note ok = "1.prems"(1-3) and small = "1.prems"(4-6) and cov = "1.prems"(7)
    and inv = "1.prems"(8) and srcD = "1.prems"(9) and w = "1.prems"(10) and rel = "1.prems"(11)
  let ?it = "fst (heap_pop (queue st))"
  let ?item = "item_value ?it"
  let ?u = "pq_node ?item"
  let ?st = "st\<lparr>queue := snd (heap_pop (queue st))\<rparr>"
  have dist': "dist_of ?st v = dist_of st v" for v by (simp add: dist_of_def)
  show ?case
  proof (cases "queue st = []")
    case True
    then have "finished g ex a src dst mh D L st"
      using inv rel w by (auto simp: finished_def waits_def pq_elems_def)
    then show ?thesis using True by (subst search_loop.simps) auto
  next
    case q: False
    consider (stale) "item_priority ?it > dist_of ?st ?u"
      | (found) "\<not> item_priority ?it > dist_of ?st ?u" "?u = src"
      | (go_on) "\<not> item_priority ?it > dist_of ?st ?u" "?u \<noteq> src"
      by blast
    then show ?thesis
    proof cases
      case stale
      then have "search_loop g ex src mh ord n st = search_loop g ex src mh ord (Suc n) ?st"
        using q by (subst search_loop.simps) (simp add: Let_def)
      moreover have "waits dst D ?st" using stale by (intro popped_waits [OF w q]) (auto simp: dist')
      ultimately show ?thesis
        using "1.IH"(1) [OF q refl refl refl refl stale ok small cov pop_inv(1) [OF inv q] srcD] rel by simp
    next
      case found
      then have "search_loop g ex src mh ord n st = ?st"
        using q by (subst search_loop.simps) (simp add: Let_def)
      moreover have "finished g ex a src dst mh D (item_priority ?it) ?st"
        using found by (intro finished_found [OF inv w rel q]) (simp_all add: dist')
      ultimately show ?thesis by auto
    next
      case go_on
      then have fresh: "\<not> item_priority ?it > dist_of st ?u" by (simp add: dist')
      obtain hs where ex': "expanding g ex a dst mh (insert ?u D) (item_priority ?it) ?item hs ?st"
        by (rule pop_expanding [OF inv q fresh])
      have srcD': "src \<notin> insert ?u D" using go_on srcD by simp
      have "node_path g ex a dst mh (insert ?u D) ?st ?u hs" "pq_hops ?item = int (length hs)"
        using ex' by (simp_all add: expanding_def item_ok_def)
      then have short: "pq_hops ?item < mh" using path_short [OF ok(1) small(1,2) _ srcD' small(3)] by simp
      have "waits dst (insert ?u D) ?st" by (intro popped_waits [OF w q]) auto
      moreover have "all_relaxed g ex a (insert ?u D - {?u}) ?st" using rel by (auto simp: all_relaxed_def)
      ultimately have "visiting g ex a dst mh (insert ?u D) (item_priority ?it) ?item hs {} ?st"
        using ex' by (simp add: visiting_def)
      note next_state = visiting_all [OF ok short this, of "ord n ?u"]
      have vs: "dom (go_get Map.empty (inbound g) ?u) \<subseteq> set (ord n ?u)" using cov by (simp add: covers_def)
      have "search_loop g ex src mh ord n st = search_loop g ex src mh ord (Suc n) (relax_all g ex ?item (ord n ?u) ?st)"
        using q go_on short by (subst search_loop.simps) (simp add: Let_def)
      moreover have "\<not> pq_hops ?item \<ge> mh" using short by simp
      ultimately show ?thesis
        using "1.IH"(3) [OF q refl refl refl refl go_on _ ok small cov _ srcD' next_state(2,3)] next_state(1) vs
        by (auto simp: expanding_def)
    qed
  qed
qed

section \<open>Cheapest routes\<close>

lemma head_amount_cost:
  "priced g ex a hs \<Longrightarrow> unat a \<le> 2 ^ 40 \<Longrightarrow> cost a hs < 2 ^ 31 \<Longrightarrow> unat (head_amount a hs) = unat a + cost a hs"
proof (induction hs)
  case (Cons h t)
  then have "unat (head_amount a t) = unat a + cost a t" by simp
  moreover have "unat a + cost a (h # t) < 2 ^ 64" using Cons.prems by simp
  ultimately show ?case using Cons.prems by (simp add: unat_add64)
qed simp

lemma can_forward_less:
  assumes "can_forward c y" and "unat x \<le> unat y" and "unat (min_htlc_msat c) \<le> unat x"
  shows "can_forward c x"
  using assms by (auto simp: can_forward_def word_le_nat_alt)

lemma path_bound:
  assumes ok: "graph_ok ends g" "gossip_bounded g" "unat a \<le> 2 ^ 40"
    and fin: "finished g ex a src dst mh D L st"
  shows "hop_path v hs dst \<Longrightarrow> priced g ex a hs \<Longrightarrow> cost a hs < 2 ^ 31 \<Longrightarrow>
    \<forall>h \<in> set hs. min_htlc_msat (hop_channel h) \<le> a \<Longrightarrow>
    dist_of st v \<le> int (cost a hs) \<or> dist_of st src \<le> int (cost a hs)"
proof (induction hs arbitrary: v)
  case Nil
  then show ?case using search_invD(3) fin by (auto simp: finished_def)
next
  case (Cons h t)
  let ?c = "hop_channel h" let ?u = "chan_destination ?c" and ?y = "head_amount a t"
  have into: "into g ?u ?c" and c: "channels g (channel_id ?c) = Some ?c" using Cons.prems by (simp_all add: into_def)
  have t: "hop_path ?u t dst" "priced g ex a t" "cost a t < 2 ^ 31" "\<forall>h \<in> set t. min_htlc_msat (hop_channel h) \<le> a"
    and low: "min_htlc_msat ?c \<le> a" using Cons.prems by simp_all
  have inv: "search_inv g ex a dst mh D L st" using fin by (simp add: finished_def)
  have y: "unat ?y = unat a + cost a t" by (rule head_amount_cost [OF t(2) ok(3) t(3)])
  show ?case
  proof (cases "dist_of st src \<le> int (cost a t)")
    case True
    moreover have "int (cost a t) \<le> int (cost a (h # t))" by (simp only: of_nat_le_iff cost.simps le_add2)
    ultimately show ?thesis by linarith
  next
    case False
    then have du: "dist_of st ?u \<le> int (cost a t)" using Cons.IH [OF t] by simp
    have "reached dst st ?u"
    proof (rule ccontr)
      assume "\<not> reached dst st ?u"
      then have "dist_of st ?u = 2 ^ 31" using search_invD(10) [OF inv] into_edge(3) [OF ok(1) into] by auto
      moreover have "int (cost a t) < 2 ^ 31" using t(3) by simp
      ultimately show False using du by linarith
    qed
    then have uD: "?u \<in> D" and u: "0 \<le> dist_of st ?u"
      using fin False du search_invD(9) [OF inv, of ?u] by (fastforce simp: finished_def node_path_def)+
    let ?x = "of_nat (amount_at a st ?u) :: u64"
    have le: "amount_at a st ?u \<le> unat a + cost a t" using du by (simp add: amount_at_def)
    then have "amount_at a st ?u < 2 ^ 64" using ok(3) t(3) by simp
    then have x: "unat ?x = amount_at a st ?u" by (simp add: unsigned_of_nat take_bit_nat_eq_self)
    have "can_forward ?c ?x"
    proof (rule can_forward_less)
      show "can_forward ?c ?y" using Cons.prems by simp
      show "unat ?x \<le> unat ?y" using le x y by simp
      show "unat (min_htlc_msat ?c) \<le> unat ?x"
        using low x by (simp add: word_le_nat_alt amount_at_def)
    qed
    moreover have "\<not> go_get False ex (chan_source ?c)" using Cons.prems by simp
    moreover have "edge_relaxed ex a st ?u ?c" using fin uD into by (simp add: finished_def all_relaxed_def)
    ultimately have "dist_of st (chan_source ?c) \<le> dist_of st ?u + int (unat (compute_fee ?c ?x))"
      by (simp add: edge_relaxed_def)
    moreover have "int (unat (compute_fee ?c ?x)) \<le> int (unat (compute_fee ?c ?y))"
    proof -
      have "unat ?x \<le> 2 ^ 40 + 2 ^ 31" "unat ?y \<le> 2 ^ 40 + 2 ^ 31" using le x y ok(3) t(3) by simp_all
      then show ?thesis
        using fee_bounded(1) [OF ok(2) c] le x y by (simp only: of_nat_le_iff fee_nat_mono)
    qed
    moreover have "int (cost a (h # t)) = int (unat (compute_fee ?c ?y)) + int (cost a t)"
      by (simp only: cost.simps of_nat_add)
    ultimately have "dist_of st (chan_source ?c) \<le> int (cost a (h # t))" using du by linarith
    then show ?thesis using Cons.prems(1) by (metis hop_path.simps(2))
  qed
qed

text \<open>The maps of Go are finite.\<close>

lemma fold_finite:
  assumes "\<And>x s. finite (dom (inbound (p s))) \<Longrightarrow> finite (dom (inbound (p (f x s))))"
  shows "finite (dom (inbound (p s))) \<Longrightarrow> finite (dom (inbound (p (fold f xs s))))"
  by (induction xs arbitrary: s) (simp_all add: assms)

lemma add_channel_finite: "finite (dom (inbound g)) \<Longrightarrow> finite (dom (inbound (fst (add_channel g c))))"
  by (simp add: add_channel_def allocate_def Let_def split: option.split)

lemma graph_reach_finite: "graph_reach ends g \<Longrightarrow> finite (dom (inbound g))"
proof (induction rule: graph_reach.induct)
  case reach_new
  then show ?case by (simp add: new_graph_def)
next
  case (reach_refresh g cs)
  have "finite (dom (inbound (refresh_channel c h)))" if "finite (dom (inbound h))" for c h
    using add_channel_finite [OF that, of "new_channel c (half_capacity c) 0"] that
    by (simp add: refresh_channel_def Let_def split_def split: option.split)
  then show ?case
    unfolding refresh_channels_def using fold_finite [of "\<lambda>g. g" refresh_channel] reach_refresh.IH by simp
next
  case (reach_prune g ks now_s)
  have "finite (dom (inbound (prune_step now_s k h)))" if "finite (dom (inbound h))" for k h
    using that by (simp add: prune_step_def delete_channel_def Let_def split: option.split)
  then show ?case
    unfolding prune_channels_fold using fold_finite [of "\<lambda>g. g" "prune_step now_s"] reach_prune.IH by simp
next
  case (reach_update g cid opposite amount now)
  then show ?case by (simp add: update_channel_def Let_def split: option.split)
next
  case (reach_liquidity g ks threshold now clk)
  have "finite (dom (inbound (fst (liquidity_step threshold now clk k s))))" if "finite (dom (inbound (fst s)))" for k s
    using that by (simp add: liquidity_step_def split_def split: option.split)
  then show ?case
    unfolding refresh_liquidity_fold using fold_finite [of fst "liquidity_step threshold now clk"] reach_liquidity.IH by simp
next
  case (reach_load g ks)
  have "finite (dom (inbound (rebuild_step k h)))" if "finite (dom (inbound h))" for k h
    using that add_channel_finite by (simp add: rebuild_step_def split_def Let_def split: option.split)
  moreover have "finite (dom (inbound (stored_graph g)))" by (simp add: stored_graph_def)
  ultimately show ?case
    unfolding rebuild_def using fold_finite [of "\<lambda>g. g" rebuild_step] by simp
qed simp

text \<open>The hop limit does not bind, and the orders visit every neighbour.\<close>

definition unrestricted :: "graph \<Rightarrow> (nat \<Rightarrow> string \<Rightarrow> string list) \<Rightarrow> int \<Rightarrow> bool" where
  "unrestricted g ord max_hops \<longleftrightarrow>
     covers g ord \<and> int (card (dom (inbound g))) \<le> max_hops"

definition valid_route :: "graph \<Rightarrow> string \<Rightarrow> string \<Rightarrow> u64 \<Rightarrow> (string \<rightharpoonup> bool) \<Rightarrow> route_hop list \<Rightarrow> bool" where
  "valid_route g src dst amount exclude hops \<longleftrightarrow>
     hop_path src hops dst \<and> priced g exclude amount hops \<and> cost amount hops < 2 ^ 31"

text \<open>
  The routes that the search cannot miss. Without this it can: a cheaper rest of a route may bring the amount below the
  minimum of a channel before it (\<open>minimum_hides_route\<close>).
\<close>

definition low_minimums :: "u64 \<Rightarrow> route_hop list \<Rightarrow> bool" where
  "low_minimums amount hops \<longleftrightarrow> (\<forall>h \<in> set hops. min_htlc_msat (hop_channel h) \<le> amount)"

lemma dijkstra_optimal:
  assumes reach: "graph_reach ends g" and bounded: "gossip_bounded g" "unat amount \<le> 2 ^ 40"
    and un: "unrestricted g ord max_hops" and known: "inbound g src \<noteq> None" "inbound g dst \<noteq> None"
    and valid: "valid_route g src dst amount exclude hops'" and low: "low_minimums amount hops'"
  shows "\<exists>hops. dijkstra g ord src dst amount exclude max_hops = Ok hops \<and> cost amount hops \<le> cost amount hops'"
proof -
  have ok: "graph_ok ends g" by (rule graph_reach_ok [OF reach])
  have cov: "covers g ord" and card: "int (card (dom (inbound g))) \<le> max_hops" using un by (auto simp: unrestricted_def)
  let ?start = "search_start g dst amount"
  define st where "st = search_loop g exclude src max_hops ord 0 ?start"
  have "waits dst {} ?start"
    by (auto simp: waits_def search_start_def reached_def heap_init_def pq_elems_def item_key_def dist_of_def)
  moreover have "all_relaxed g exclude amount {} ?start" by (simp add: all_relaxed_def)
  ultimately obtain D L where fin: "finished g exclude amount src dst max_hops D L st"
    using search_loop_finished [OF ok bounded graph_reach_finite [OF reach] card _ cov search_start_inv [OF known(2)]] known(1)
    unfolding st_def by blast
  then have inv: "search_inv g exclude amount dst max_hops D L st" by (simp add: finished_def)
  have v: "hop_path src hops' dst" "priced g exclude amount hops'" "cost amount hops' < 2 ^ 31"
    using valid by (simp_all add: valid_route_def)
  have le: "dist_of st src \<le> int (cost amount hops')"
    using path_bound [OF ok bounded fin v] low unfolding low_minimums_def by blast
  have "reached dst st src"
  proof (rule ccontr)
    assume "\<not> reached dst st src"
    then have "dist_of st src = 2 ^ 31" using search_invD(10) [OF inv] known(1) by simp
    moreover have "int (cost amount hops') < 2 ^ 31" using v(3) by simp
    ultimately show False using le by linarith
  qed
  then obtain hops where np: "node_path g exclude amount dst max_hops D st src hops"
    using search_invD(9) [OF inv] by blast
  then have d: "dist_of st src = int (cost amount hops)" "cost amount hops < 2 ^ 31" and c: "chain (hopm st) dst src hops"
    by (simp_all add: node_path_def)
  then have "dijkstra g ord src dst amount exclude max_hops = Ok hops"
    using known build_hops_chain [OF c, of "[]"] by (simp add: dijkstra_def max_distance_def flip: st_def)
  then show ?thesis using le d by simp
qed

section \<open>Properties\<close>

text \<open>C6. The path finder is sound and complete. What it returns is a valid route: a path of known channels from source
  to destination whose hops avoid the excluded nodes, forward what the rest needs and cost less than the distance limit of
  \<open>2 ^ 31\<close> msat in all. And it returns a route whenever there is a valid one all of whose channels have a minimum of at
  most the amount. Conditions: as many hops are allowed as the graph has nodes, the loops over the neighbours visit them
  all, source and destination are known, the amount is at most \<open>2 ^ 40\<close> msat and fees fit the u32 of BOLT 7. Without the
  condition on the minimums the search can report that there is no route although there is one.\<close>

theorem dijkstra_complete:
  assumes "graph_reach ends g" and "gossip_bounded g" and "unat amount \<le> 2 ^ 40"
    and "unrestricted g ord max_hops" and "inbound g src \<noteq> None" and "inbound g dst \<noteq> None"
  shows "(\<forall>hops. dijkstra g ord src dst amount exclude max_hops = Ok hops \<longrightarrow> valid_route g src dst amount exclude hops)
    \<and> ((\<exists>hops. valid_route g src dst amount exclude hops \<and> low_minimums amount hops) \<longrightarrow>
         (\<exists>hops. dijkstra g ord src dst amount exclude max_hops = Ok hops))"
proof -
  have "valid_route g src dst amount exclude hops" if "dijkstra g ord src dst amount exclude max_hops = Ok hops" for hops
    using dijkstra_found [OF assms(1-3) that] by (simp add: found_path_def valid_route_def)
  then show ?thesis using dijkstra_optimal [OF assms] by blast
qed

text \<open>C1. And it is optimal: the route it returns costs no more than any valid route all of whose channels have a minimum
  of at most the amount, whatever the order in which Go visits the neighbours, under the same conditions: as many hops
  are allowed as the graph has nodes, the amount is at most \<open>2 ^ 40\<close> msat and fees fit the u32 of BOLT 7. Fees depend on
  amounts that grow towards the source; the condition on the minimums of the other route ensures that a cheaper rest never
  makes one of its channels unusable, and without it the returned route can be the dearer one.\<close>

theorem dijkstra_cheapest:
  assumes "graph_reach ends g" and "gossip_bounded g" and "unat amount \<le> 2 ^ 40"
    and "unrestricted g ord max_hops"
    and "dijkstra g ord src dst amount exclude max_hops = Ok hops"
    and "valid_route g src dst amount exclude hops'" and "low_minimums amount hops'"
  shows "cost amount hops \<le> cost amount hops'"
proof -
  have "inbound g src \<noteq> None" "inbound g dst \<noteq> None"
    using assms(5) by (auto simp: dijkstra_def split: if_splits)
  from dijkstra_optimal [OF assms(1-4) this assms(6,7)] assms(5) show ?thesis by simp
qed

lemma detour_four_hops:
  "dijkstra detour_graph detour_order ''s'' ''d'' 1000000 Map.empty 4 = Ok detour_route"
  apply (simp add: dijkstra_def detour_inbound detour_start)
  apply (subst search_loop.simps, simp add: detour_steps)+
  apply (simp add: detour_route_def build_hops.simps)
  done

lemma detour_unrestricted: "unrestricted detour_graph detour_order 4"
proof -
  have "dom (inbound detour_graph) = {''d'', ''x'', ''v'', ''s''}"
    by (auto simp: detour_inbound split: if_splits)
  moreover have "covers detour_graph detour_order"
    by (auto simp: covers_def detour_inbound detour_order_def go_get_def split: if_splits option.splits)
  ultimately show ?thesis by (simp add: unrestricted_def)
qed

definition detour_direct :: "route_hop list" where
  "detour_direct = [\<lparr>hop_channel = detour_channel ''4'' ''s'' ''v'' 0, hop_msat = 1000010, hop_delay = 80\<rparr>,
     \<lparr>hop_channel = detour_channel ''3'' ''v'' ''d'' 10, hop_msat = 1000010, hop_delay = 40\<rparr>]"

lemma detour_direct_valid: "valid_route detour_graph ''s'' ''d'' 1000000 Map.empty detour_direct"
proof -
  have "channel_id (detour_channel scid a b base) = channel_key scid a b" for scid a b base
    by (simp add: detour_channel_def)
  then show ?thesis
    by (simp add: valid_route_def detour_direct_def detour_channels channel_key_def get_direction_def go_get_def)
qed

lemma detour_direct_low: "low_minimums 1000000 detour_direct"
  by (simp add: low_minimums_def detour_direct_def detour_channel_def detour_limits)

theorem dijkstra_complete_witness:
  "\<exists>hops. dijkstra detour_graph detour_order ''s'' ''d'' 1000000 Map.empty 4 = Ok hops
     \<and> valid_route detour_graph ''s'' ''d'' 1000000 Map.empty hops"
  using dijkstra_complete [OF detour_reach detour_bounded _ detour_unrestricted, of 1000000 "''s''" "''d''" Map.empty]
    detour_direct_valid detour_direct_low by (fastforce simp: detour_inbound)

theorem dijkstra_cheapest_witness: "cost 1000000 detour_route \<le> cost 1000000 detour_direct"
  using dijkstra_cheapest [OF detour_reach detour_bounded _ detour_unrestricted detour_four_hops detour_direct_valid
      detour_direct_low]
  by simp

section \<open>What a minimum can hide\<close>

text \<open>
  The detour graph once more, with a minimum of 1000005 msat on the channel from \<open>s\<close>. The cheap way from \<open>v\<close> to \<open>d\<close> is free, so
  1000000 msat have to reach \<open>v\<close>, which the channel does not forward; with the dear way it is 1000010 msat.
\<close>

definition picky_gossip :: gl_channel where
  "picky_gossip = (detour_gossip ''4'' ''s'' ''v'' 0)\<lparr>htlc_minimum_millisatoshis := ''1000005msat''\<rparr>"

definition picky_graph :: graph where
  "picky_graph = refresh_channels [picky_gossip] detour_graph"

definition picky_channel :: channel where
  "picky_channel = new_channel picky_gossip 500000000 0"

lemma picky_id: "channel_id picky_gossip = ''4/0''"
  by (simp add: picky_gossip_def channel_id_def channel_key_def get_direction_def)

lemma picky_channels: "channels picky_graph = (channels detour_graph)(''4/0'' \<mapsto> picky_channel)"
  by (simp add: picky_graph_def refresh_channels_def refresh_channel_channels picky_id picky_channel_def
      detour_channels detour_channel_def)

lemma picky_inbound: "inbound picky_graph = inbound detour_graph"
  by (simp add: picky_graph_def refresh_channels_def refresh_channel_def picky_id Let_def detour_channels)

lemma picky_forward:
  "can_forward picky_channel 1000000 = False" "can_forward picky_channel 1000010"
  by (simp_all add: can_forward_def picky_channel_def picky_gossip_def parse_msat_def trim_suffix_def parse_uint_def
      is_digit_def digit_val_def max_u64_def)

lemma picky_start:
  "search_start picky_graph ''d'' 1000000 =
     \<lparr>dist = [''x'' \<mapsto> max_distance, ''v'' \<mapsto> max_distance, ''s'' \<mapsto> max_distance, ''d'' \<mapsto> 0],
      hopm = Map.empty, queue = [detour_item ''d'' 1000000 0 0 0 0]\<rparr>"
  by (rule search.equality) (auto simp: search_start_def picky_inbound detour_inbound heap_init_def)

lemma picky_search:
  "dijkstra picky_graph detour_order ''s'' ''d'' 1000000 Map.empty 4 = Err ErrNoRoute"
  apply (simp add: dijkstra_def picky_inbound detour_inbound picky_start)
  apply (subst search_loop.simps, simp add: detour_steps picky_inbound picky_channels picky_forward)+
  done

definition picky_route :: "route_hop list" where
  "picky_route = [\<lparr>hop_channel = picky_channel, hop_msat = 1000010, hop_delay = 80\<rparr>,
     \<lparr>hop_channel = detour_channel ''3'' ''v'' ''d'' 10, hop_msat = 1000010, hop_delay = 40\<rparr>]"

theorem minimum_hides_route:
  "unrestricted picky_graph detour_order 4
   \<and> valid_route picky_graph ''s'' ''d'' 1000000 Map.empty picky_route
   \<and> dijkstra picky_graph detour_order ''s'' ''d'' 1000000 Map.empty 4 = Err ErrNoRoute"
proof (intro conjI)
  show "unrestricted picky_graph detour_order 4"
    using detour_unrestricted by (simp add: unrestricted_def covers_def picky_inbound)
  have "channel_id (detour_channel scid a b base) = channel_key scid a b" for scid a b base
    by (simp add: detour_channel_def)
  moreover have "compute_fee picky_channel a = 0" "channel_id picky_channel = ''4/0''" "chan_source picky_channel = ''s''"
    "chan_destination picky_channel = ''v''" "chan_delay picky_channel = 40" for a
    by (simp_all add: picky_channel_def picky_gossip_def compute_fee_def channel_id_def channel_key_def get_direction_def)
  ultimately show "valid_route picky_graph ''s'' ''d'' 1000000 Map.empty picky_route"
    by (simp add: valid_route_def picky_route_def picky_channels picky_forward detour_channels channel_key_def
        get_direction_def go_get_def)
  show "dijkstra picky_graph detour_order ''s'' ''d'' 1000000 Map.empty 4 = Err ErrNoRoute" by (rule picky_search)
qed

end
