(* ===== verification/Lifecycle.thy ===== *)
theory Lifecycle
  imports Stats
begin

text \<open>
  The life of a payment, as \<^verbatim>\<open>node/payment.go\<close> and \<^verbatim>\<open>node/preimage.go\<close> promise it, apart from how it is kept in the
  database: for every payment hash a preimage that may be drawn and a mark that it timed out. The handlers, run in any
  order over any payments, implement this machine for each hash on its own. Every write of theirs may fail, and most of
  those errors are only logged: the machine says where that leaves a payment, too.
\<close>

section \<open>The abstract machine\<close>

text \<open>The preimage and the mark, as the database answers for them.\<close>

type_synonym life = "string ext \<times> string ext"

abbreviation absent :: "string ext" where
  "absent \<equiv> Inl ErrKeyNotFound"

definition settle :: "life \<Rightarrow> life" where
  "settle l = (if fst l \<noteq> absent then (absent, snd l) else (absent, absent))"

text \<open>
  What happens in the plugin to payments. A saved statistic has one of the three prefixes of statistics and the hash
  of its payment as key; the statistics can be deleted, all of them or, when that fails, some.
\<close>

datatype event =
  Drawn "8 word list"
| Timed_out string
| Failed sendpay_failure
| Succeeded sendpay_success
| Saved string string "string ext"
| Cleared

text \<open>Where an event leads when its writes succeed.\<close>

fun life_step :: "'d library \<Rightarrow> string \<Rightarrow> event \<Rightarrow> life \<Rightarrow> life" where
  "life_step B k (Drawn bytes) l = (if hex_encode (sha256 B bytes) = k then (Inr (hex_encode bytes), snd l) else l)"
| "life_step B k (Timed_out h) l = (if h = k then (absent, Inr ''timeout'') else l)"
| "life_step B k (Failed sf) l = (if sf_hash sf = k then settle l else l)"
| "life_step B k (Succeeded ss) l = (if ss_hash ss = k then settle l else l)"
| "life_step B k (Saved p h json) l = l"
| "life_step B k Cleared l = l"

text \<open>
  Where it may lead when they can fail. A timeout makes two writes and carries on after an error of the first, so each
  can fail on its own; then the payment that was given up keeps its preimage, or it loses it without a mark.
\<close>

fun next_lives :: "'d library \<Rightarrow> string \<Rightarrow> event \<Rightarrow> life \<Rightarrow> life set" where
  "next_lives B k (Timed_out h) l = (if h = k then {absent, fst l} \<times> {Inr ''timeout'', snd l} else {l})"
| "next_lives B k ev l = {life_step B k ev l, l}"

fun lives :: "'d library \<Rightarrow> string \<Rightarrow> event list \<Rightarrow> life \<Rightarrow> life set" where
  "lives B k [] l = {l}"
| "lives B k (ev # evs) l = (\<Union>l' \<in> next_lives B k ev l. lives B k evs l')"

text \<open>However the writes go, a preimage in the machine was there before or has been drawn.\<close>

lemma next_lives_preimage:
  assumes "l' \<in> next_lives B k ev l" and "fst l' = Inr p"
  shows "fst l = Inr p \<or> (\<exists>bytes. ev = Drawn bytes \<and> hex_encode (sha256 B bytes) = k \<and> p = hex_encode bytes)"
  using assms by (cases ev) (auto simp: settle_def split: if_splits)

lemma lives_preimage:
  "l' \<in> lives B k evs l \<Longrightarrow> fst l' = Inr p \<Longrightarrow> fst l = Inr p \<or>
    (\<exists>bytes. Drawn bytes \<in> set evs \<and> hex_encode (sha256 B bytes) = k \<and> p = hex_encode bytes)"
proof (induction evs arbitrary: l)
  case (Cons ev evs)
  then obtain m where "m \<in> next_lives B k ev l" "l' \<in> lives B k evs m" by auto
  with Cons show ?case using next_lives_preimage [of m B k ev l p] by fastforce
qed simp

section \<open>The handlers\<close>

fun handle :: "'d library \<Rightarrow> event \<Rightarrow> 'd node \<Rightarrow> 'd node" where
  "handle B (Drawn bytes) n = snd (generate_preimage_hash_pair B bytes n)"
| "handle B (Timed_out h) n = snd (manage_timeout B h n :: unit res \<times> 'd node)"
| "handle B (Failed sf) n = fst (on_payment_failure B sf n)"
| "handle B (Succeeded ss) n = on_payment_success B ss n"
| "handle B (Saved p h json) n = snd (node_save B (p @ h) json n)"
| "handle B Cleared n = snd (delete_stats B n)"

text \<open>
  The writes of an event all succeed. For a statistic it makes no difference. A notification about a payment that is not
  ours writes nothing.
\<close>

fun written :: "'d library \<Rightarrow> event \<Rightarrow> 'd node \<Rightarrow> bool" where
  "written B (Drawn bytes) n \<longleftrightarrow> (\<exists>h. fst (generate_preimage_hash_pair B bytes n) = Inr h)"
| "written B (Timed_out h) n \<longleftrightarrow> (\<exists>db db'. store_delete B h (n_db n) = Inr db
     \<and> store_set B (TimeoutPrefix @ h) ''timeout'' db = Inr db')"
| "written B (Failed sf) n \<longleftrightarrow> fst (delete_if_ours B (sf_hash sf) n) = None \<or> \<not> ours B (sf_hash sf) n"
| "written B (Succeeded ss) n \<longleftrightarrow> fst (delete_if_ours B (ss_hash ss) n) = None \<or> \<not> ours B (ss_hash ss) n"
| "written B (Saved p h json) n \<longleftrightarrow> True"
| "written B Cleared n \<longleftrightarrow> True"

fun all_written :: "'d library \<Rightarrow> event list \<Rightarrow> 'd node \<Rightarrow> bool" where
  "all_written B [] n \<longleftrightarrow> True"
| "all_written B (ev # evs) n \<longleftrightarrow> written B ev n \<and> all_written B evs (handle B ev n)"

definition life :: "'d library \<Rightarrow> 'd node \<Rightarrow> string \<Rightarrow> life" where
  "life B n h = (store_get B h (n_db n), store_get B (TimeoutPrefix @ h) (n_db n))"

text \<open>Payment hashes are hexadecimal, so no key of another kind is one.\<close>

definition hex_char :: "char \<Rightarrow> bool" where
  "hex_char c \<longleftrightarrow> c \<in> set ''0123456789abcdef''"

definition is_hash :: "string \<Rightarrow> bool" where
  "is_hash h \<longleftrightarrow> (\<forall>c \<in> set h. hex_char c)"

definition stats_prefix :: "string \<Rightarrow> bool" where
  "stats_prefix p \<longleftrightarrow> p \<in> {FailurePrefix, SuccessPrefix, RoutePrefix}"

fun event_ok :: "event \<Rightarrow> bool" where
  "event_ok (Drawn bytes) \<longleftrightarrow> True"
| "event_ok (Timed_out h) \<longleftrightarrow> is_hash h"
| "event_ok (Failed sf) \<longleftrightarrow> is_hash (sf_hash sf)"
| "event_ok (Succeeded ss) \<longleftrightarrow> is_hash (ss_hash ss)"
| "event_ok (Saved p h json) \<longleftrightarrow> stats_prefix p \<and> is_hash h"
| "event_ok Cleared \<longleftrightarrow> True"

lemma not_hex: "\<not> hex_char CHR ''t''" "\<not> hex_char CHR ''_''"
  by code_simp+

lemma hash_no_timeout: "is_hash k \<Longrightarrow> TimeoutPrefix @ h \<noteq> k"
  using not_hex by (auto simp: is_hash_def TimeoutPrefix_def)

lemma hash_no_stat: "is_hash k \<Longrightarrow> stats_prefix p \<Longrightarrow> p @ h \<noteq> k"
  using not_hex by (auto simp: is_hash_def stats_prefix_def FailurePrefix_def SuccessPrefix_def RoutePrefix_def)

lemma timeout_no_stat: "stats_prefix p \<Longrightarrow> p @ h \<noteq> TimeoutPrefix @ k"
  by (auto simp: stats_prefix_def FailurePrefix_def SuccessPrefix_def RoutePrefix_def TimeoutPrefix_def)

lemma hex_digit_char: "d < 16 \<Longrightarrow> hex_char (hex_digit d)"
proof -
  have "\<forall>d < 16. hex_char (hex_digit d)" by code_simp
  then show "d < 16 \<Longrightarrow> hex_char (hex_digit d)" by blast
qed

lemma hex_encode_hash: "is_hash (hex_encode bs)"
proof -
  have "unat b div 16 < 16" for b :: "8 word"
  proof -
    have "unat b < 16 * 16" using unsigned_less [of b, where ?'a = nat] by simp
    then show ?thesis by (rule less_mult_imp_div_less)
  qed
  then show ?thesis
    unfolding is_hash_def hex_encode_def by (auto intro!: hex_digit_char)
qed

section \<open>One event\<close>

lemma life_saved:
  assumes "badger_ok B" and "is_hash k" and "stats_prefix p"
  shows "life B (snd (node_save B (p @ h) json n)) k = life B n k"
  using node_save_get [OF assms(1) hash_no_stat [OF assms(2,3), THEN not_sym]]
    node_save_get [OF assms(1) timeout_no_stat [OF assms(3), THEN not_sym]]
  by (simp add: life_def)

lemma hash_not_stats: "is_hash k \<Longrightarrow> \<not> stats_key k"
  using hash_no_stat by (auto simp: stats_key_def stats_prefixes_def stats_prefix_def prefix_def)

lemma life_cleared:
  assumes "drop_ok B" and "is_hash k"
  shows "life B (snd (delete_stats B n)) k = life B n k"
  using delete_stats_get(1) [OF assms(1), of n] hash_not_stats [OF assms(2)] timeout_mark_kept
  by (cases "delete_stats B n") (auto simp: life_def)

lemma life_deleted:
  assumes "badger_ok B" and "is_hash h" and "is_hash k"
  shows "life B (snd (with_db (store_delete B h) n)) k = (if fst (with_db (store_delete B h) n) = None \<and> h = k
      then (absent, snd (life B n k)) else life B n k)"
    and "life B (snd (with_db (store_delete B (TimeoutPrefix @ h)) n)) k =
      (if fst (with_db (store_delete B (TimeoutPrefix @ h)) n) = None \<and> h = k
       then (fst (life B n k), absent) else life B n k)"
  using hash_no_timeout [OF assms(2)] hash_no_timeout [OF assms(3)] store_get_delete [OF assms(1)]
  by (auto simp: with_db_def life_def split: sum.split)

lemma life_marked:
  assumes "badger_ok B" and "is_hash k"
  shows "life B (snd (with_db (store_set B (TimeoutPrefix @ h) v) n)) k =
    (if fst (with_db (store_set B (TimeoutPrefix @ h) v) n) = None \<and> h = k then (fst (life B n k), Inr v) else life B n k)"
  using hash_no_timeout [OF assms(2)] store_get_set [OF assms(1)]
  by (auto simp: with_db_def life_def split: sum.split)

lemma life_delete_if_ours:
  assumes "badger_ok B" and "is_hash h" and "is_hash k"
  shows "life B (snd (delete_if_ours B h n)) k =
      (if h = k \<and> (fst (delete_if_ours B h n) = None \<or> \<not> ours B h n) then settle (life B n k) else life B n k)"
proof (cases "h = k")
  case True
  obtain p m where l: "life B n k = (p, m)" by fastforce
  then have "store_get B k (n_db n) = p" "store_get B (TimeoutPrefix @ k) (n_db n) = m" by (simp_all add: life_def)
  then show ?thesis
    using life_deleted [OF assms, of n] l by (auto simp: True delete_if_ours_def Let_def ours_def settle_def)
next
  case False
  then show ?thesis using life_deleted [OF assms, of n] by (simp add: delete_if_ours_def Let_def)
qed

text \<open>A notification deletes what is ours and saves a statistic.\<close>

lemma life_notified:
  assumes "badger_ok B" and "is_hash k"
  shows "life B (fst (on_payment_failure B sf n)) k = life B (snd (delete_if_ours B (sf_hash sf) n)) k"
    and "life B (on_payment_success B ss n) k = life B (snd (delete_if_ours B (ss_hash ss) n)) k"
proof -
  have upd: "life B (fst (send_update u m)) k = life B m k" for u m by (simp add: send_update_def life_def)
  have "stats_prefix FailurePrefix" "stats_prefix SuccessPrefix" by (simp_all add: stats_prefix_def)
  then show "life B (fst (on_payment_failure B sf n)) k = life B (snd (delete_if_ours B (sf_hash sf) n)) k"
    and "life B (on_payment_success B ss n) k = life B (snd (delete_if_ours B (ss_hash ss) n)) k"
    using life_saved [OF assms]
    by (simp_all add: on_payment_failure_def on_payment_success_def upd Let_def split_def split: option.split)
qed

lemma life_timed_out:
  assumes "badger_ok B" and "is_hash h" and "is_hash k"
  shows "life B (snd (manage_timeout B h n :: 'f res \<times> 'd node)) k \<in> next_lives B k (Timed_out h) (life B n k)"
    and "written B (Timed_out h) n \<Longrightarrow>
      life B (snd (manage_timeout B h n :: 'f res \<times> 'd node)) k = life_step B k (Timed_out h) (life B n k)"
proof -
  let ?n1 = "snd (with_db (store_delete B h) n)"
  have m: "snd (manage_timeout B h n :: 'f res \<times> 'd node) = snd (with_db (store_set B (TimeoutPrefix @ h) ''timeout'') ?n1)"
    by (simp add: manage_timeout_def Let_def)
  note l = life_marked [OF assms(1,3), of h "''timeout''" ?n1] life_deleted(1) [OF assms, of n]
  show "life B (snd (manage_timeout B h n :: 'f res \<times> 'd node)) k \<in> next_lives B k (Timed_out h) (life B n k)"
    unfolding m l by (auto simp: mem_Times_iff)
  show "life B (snd (manage_timeout B h n :: 'f res \<times> 'd node)) k = life_step B k (Timed_out h) (life B n k)"
    if "written B (Timed_out h) n"
    unfolding m l using that by (auto simp: with_db_def)
qed

lemma life_drawn:
  assumes "badger_ok B"
  shows "life B (snd (generate_preimage_hash_pair B bytes n)) k =
    (if \<exists>h. fst (generate_preimage_hash_pair B bytes n) = Inr h then life_step B k (Drawn bytes) (life B n k) else life B n k)"
  using hash_no_timeout [OF hex_encode_hash] store_get_set [OF assms]
  by (auto simp: generate_preimage_hash_pair_def new_preimage_hash_pair_def Let_def with_db_def life_def split: sum.split)

text \<open>Each handler makes a move of the machine, and the intended one when its writes succeed.\<close>

lemma life_handle:
  assumes "badger_ok B" and "drop_ok B" and "event_ok ev" and "is_hash k"
  shows "life B (handle B ev n) k \<in> next_lives B k ev (life B n k)"
    and "written B ev n \<Longrightarrow> life B (handle B ev n) k = life_step B k ev (life B n k)"
proof -
  have "life B (handle B ev n) k \<in> next_lives B k ev (life B n k)
    \<and> (written B ev n \<longrightarrow> life B (handle B ev n) k = life_step B k ev (life B n k))"
  proof (cases ev)
    case (Drawn bytes)
    then show ?thesis using life_drawn [OF assms(1), of bytes n k] by (simp del: life_step.simps)
  next
    case (Timed_out h)
    then show ?thesis using life_timed_out [OF assms(1) _ assms(4), of h n, where ?'f = unit] assms(3)
      by (simp del: next_lives.simps life_step.simps written.simps)
  next
    case (Failed sf)
    then show ?thesis
      using life_notified(1) [OF assms(1,4)] life_delete_if_ours [OF assms(1) _ assms(4), of "sf_hash sf" n] assms(3) by simp
  next
    case (Succeeded ss)
    then show ?thesis
      using life_notified(2) [OF assms(1,4)] life_delete_if_ours [OF assms(1) _ assms(4), of "ss_hash ss" n] assms(3) by simp
  next
    case (Saved p h json)
    then show ?thesis using assms(3) life_saved [OF assms(1,4)] by simp
  next
    case Cleared
    then show ?thesis using life_cleared [OF assms(2,4)] by simp
  qed
  then show "life B (handle B ev n) k \<in> next_lives B k ev (life B n k)"
    and "written B ev n \<Longrightarrow> life B (handle B ev n) k = life_step B k ev (life B n k)" by simp_all
qed

lemma life_handles:
  assumes "badger_ok B" and "drop_ok B" and "is_hash k"
  shows "\<forall>ev \<in> set evs. event_ok ev \<Longrightarrow> life B (fold (handle B) evs n) k \<in> lives B k evs (life B n k)"
    and "\<forall>ev \<in> set evs. event_ok ev \<Longrightarrow> all_written B evs n \<Longrightarrow>
      life B (fold (handle B) evs n) k = fold (life_step B k) evs (life B n k)"
proof (induction evs arbitrary: n)
  case (Cons ev evs)
  {
    case 1
    then show ?case using Cons.IH(1) [of "handle B ev n"] life_handle(1) [OF assms(1,2) _ assms(3), of ev n]
      by (auto simp del: next_lives.simps)
  next
    case 2
    then show ?case using Cons.IH(2) [of "handle B ev n"] life_handle(2) [OF assms(1,2) _ assms(3), of ev n] by simp
  }
qed simp_all

section \<open>Properties\<close>

text \<open>C4. The payment handlers implement the life cycle of payments, also when writes to the database fail: after any
  sequence of events, what the database holds for a payment hash is a state that the machine for this hash alone can
  reach, and when every write succeeded it is the one intended state. An HTLC with the hash is resolved exactly when
  the machine holds a preimage, with that preimage, and only with one that was there at the start or has been drawn for this
  hash since. Payments do not disturb each other, and neither the statistics in the same database nor their deletion, even
  one that fails half-way, disturb them. Conditions: what badger documents (a committed write is read back and touches no
  other key, a failed transaction changes nothing, \<^verbatim>\<open>DropPrefix\<close> touches no key without the prefixes), payment hashes in
  hexadecimal, and no entry of the database older than its 14 days.\<close>

theorem payments_refine_lifecycle:
  assumes "badger_ok B" and "drop_ok B" and "\<forall>ev \<in> set evs. event_ok ev" and "is_hash h"
    and "n' = fold (handle B) evs n"
  shows "life B n' h \<in> lives B h evs (life B n h)
    \<and> (all_written B evs n \<longrightarrow> life B n' h = fold (life_step B h) evs (life B n h))
    \<and> on_htlc_accepted B h n' = (case fst (life B n' h) of Inl e \<Rightarrow> Continue | Inr preimage \<Rightarrow> Resolve preimage)
    \<and> (\<forall>p. on_htlc_accepted B h n' = Resolve p \<longrightarrow> fst (life B n h) = Inr p
         \<or> (\<exists>bytes. Drawn bytes \<in> set evs \<and> hex_encode (sha256 B bytes) = h \<and> p = hex_encode bytes))"
proof -
  have l: "life B n' h \<in> lives B h evs (life B n h)"
    "all_written B evs n \<longrightarrow> life B n' h = fold (life_step B h) evs (life B n h)"
    using life_handles [OF assms(1,2,4,3)] assms(5) by simp_all
  have r: "on_htlc_accepted B h n' = (case fst (life B n' h) of Inl e \<Rightarrow> Continue | Inr preimage \<Rightarrow> Resolve preimage)"
    by (simp add: life_def on_htlc_accepted_def)
  then have "on_htlc_accepted B h n' = Resolve p \<Longrightarrow> fst (life B n' h) = Inr p" for p by (simp split: sum.splits)
  then show ?thesis using l r lives_preimage [OF l(1)] by blast
qed

text \<open>The witness: a payment that times out is not resolved any more, one that does not is, whatever happens to another one
  and to the statistics.\<close>

theorem payments_refine_lifecycle_witness:
  "on_htlc_accepted map_library ''12ab'' (fold (handle map_library) [Drawn [171, 18], Drawn [1], Timed_out ''12ab''] sample_node)
     = Continue
   \<and> on_htlc_accepted map_library ''12ab'' (fold (handle map_library) [Drawn [171, 18], Timed_out ''01'', Cleared] sample_node)
     = Resolve ''ab12''"
proof -
  have hex: "hex_encode [171, 18] = ''ab12''" "hex_encode [18, 171] = ''12ab''" "hex_encode [1] = ''01''" by code_simp+
  have sha: "sha256 map_library = rev" by (simp add: map_library_def)
  have h: "is_hash ''12ab''" "is_hash ''01''" by (simp_all add: is_hash_def hex_char_def)
  have w: "all_written map_library [Drawn [171, 18], Drawn [1], Timed_out ''12ab''] sample_node"
    "all_written map_library [Drawn [171, 18], Timed_out ''01'', Cleared] sample_node"
    using badger_total_delete [OF map_library_total] badger_totalD [OF map_library_total]
    by (simp_all add: generate_preimage_hash_pair_def with_db_def map_library_def store_set_def store_delete_def Let_def)
  have "\<forall>ev \<in> set [Drawn [171, 18], Drawn [1], Timed_out ''12ab'']. event_ok ev" using h by simp
  note one = payments_refine_lifecycle [OF map_library_ok map_library_drop_ok this h(1) refl, of sample_node]
  have "\<forall>ev \<in> set [Drawn [171, 18], Timed_out ''01'', Cleared]. event_ok ev" using h by simp
  note two = payments_refine_lifecycle [OF map_library_ok map_library_drop_ok this h(1) refl, of sample_node]
  show ?thesis using one two w by (simp add: hex sha del: all_written.simps handle.simps)
qed

text \<open>
  Where an error that is only logged leads: the deletion of the preimage fails, the plugin reports that the payment has timed
  out, and its HTLC is resolved all the same when it arrives.
\<close>

definition blocked_library :: "(string \<times> string) list library" where
  "blocked_library = map_library\<lparr>bd_delete := \<lambda>k db. Inl (ErrForeign ''Writes are blocked, possibly due to DropAll or Close'')\<rparr>"

lemma timed_out_still_resolved:
  "badger_ok blocked_library
   \<and> on_htlc_accepted blocked_library ''12ab'' (fold (handle blocked_library) [Drawn [171, 18], Timed_out ''12ab''] sample_node)
       = Resolve ''ab12''"
proof -
  have hex: "hex_encode [171, 18] = ''ab12''" "hex_encode [18, 171] = ''12ab''" by code_simp+
  have "badger_ok blocked_library" using map_library_ok by (simp add: badger_ok_def blocked_library_def)
  moreover have "on_htlc_accepted blocked_library ''12ab'' (fold (handle blocked_library) [Drawn [171, 18], Timed_out ''12ab''] sample_node)
       = Resolve ''ab12''"
    by (simp add: on_htlc_accepted_def generate_preimage_hash_pair_def new_preimage_hash_pair_def with_db_def store_set_def
        store_get_def store_delete_def manage_timeout_def Let_def blocked_library_def map_library_def hex TimeoutPrefix_def)
  ultimately show ?thesis ..
qed

end
