(* ===== verification/Types.thy ===== *)
theory Types
  imports Prelude
begin

text \<open>
  \<^verbatim>\<open>types/node.go\<close>: our peers and channels as the command \<^verbatim>\<open>listpeers\<close> reports them, with all their fields. The WebSocket passes
  them on; everything else works on the peers of the plugin library, of which \<open>Node\<close> has the fields that are read.
  \<open>'v\<close> stands for the library's features, log entries and htlcs.
\<close>

record 'v types_channel =
  tc_state :: string
  tc_scratch_tx_id :: string
  tc_owner :: string
  tc_short_channel_id :: string
  tc_channel_direction :: int
  tc_channel_id :: string
  tc_funding_tx_id :: string
  tc_close_to_address :: string
  tc_close_to_script :: string
  tc_status :: "string list"
  tc_private :: bool
  tc_funding_allocations :: "string \<rightharpoonup> u64"
  tc_funding_msat :: "string \<rightharpoonup> string"
  tc_milli_satoshi_to_us :: u64
  tc_to_us_msat :: string
  tc_milli_satoshi_to_us_min :: u64
  tc_min_to_us_msat :: string
  tc_milli_satoshi_to_us_max :: u64
  tc_max_to_us_msat :: string
  tc_milli_satoshi_total :: u64
  tc_total_msat :: string
  tc_dust_limit_satoshi :: u64
  tc_dust_limit_msat :: string
  tc_max_htlc_value_in_flight_milli_satoshi :: u64
  tc_max_htlc_value_in_flight_msat :: string
  tc_their_channel_reserve_satoshi :: u64
  tc_their_reserve_msat :: string
  tc_our_channel_reserve_satoshi :: u64
  tc_our_reserve_msat :: string
  tc_spendable_milli_satoshi :: u64
  tc_spendable_msat :: string
  tc_receivable_milli_satoshi :: u64
  tc_receivable_msat :: string
  tc_htlc_min_milli_satoshi :: u64
  tc_minimum_htlc_in_msat :: string
  tc_their_to_self_delay :: u64
  tc_our_to_self_delay :: u64
  tc_max_accepted_htlcs :: u64
  tc_in_payments_offered :: u64
  tc_in_milli_satoshi_offered :: u64
  tc_incoming_offered_msat :: string
  tc_in_payments_fulfilled :: u64
  tc_in_milli_satoshi_fulfilled :: u64
  tc_incoming_fulfilled_msat :: string
  tc_out_payments_offered :: u64
  tc_out_milli_satoshi_offered :: u64
  tc_outgoing_offered_msat :: string
  tc_out_payments_fulfilled :: u64
  tc_out_milli_satoshi_fulfilled :: u64
  tc_outgoing_fulfilled_msat :: string
  tc_fee_base_msat :: string
  tc_fee_proportional_millionths :: u64
  tc_htlcs :: "'v list"

record 'v types_peer =
  tp_id :: string
  tp_connected :: bool
  tp_net_addresses :: "string list"
  tp_features :: 'v
  tp_channels :: "'v types_channel list"
  tp_logs :: "'v list"

end
