(* ===== verification/Websocket.thy ===== *)
theory Websocket
  imports Rebalance Types
begin

text \<open>
  \<^verbatim>\<open>node/websocket.go\<close>: the WebSocket interface. Every connection is served by a goroutine that reads messages and
  answers them; the progress of rebalances is sent to all connections that are registered. The state is the list
  of registered connections and, for each connection that is served, the variable its goroutine decodes messages
  into. What lightningd answers and how \<^verbatim>\<open>mapstructure\<close> decodes the data of a message are arguments.
\<close>

section \<open>Messages\<close>

definition actionPing :: string where "actionPing = ''ping''"
definition actionGetInfo :: string where "actionGetInfo = ''getinfo''"
definition actionListPeers :: string where "actionListPeers = ''listpeers''"
definition actionGetNode :: string where "actionGetNode = ''getnode''"
definition actionRebalanceByScid :: string where "actionRebalanceByScid = ''rebalancebyscid''"
definition actionRebalanceStop :: string where "actionRebalanceStop = ''stop''"
definition actionRebalanceResume :: string where "actionRebalanceResume = ''resume''"
definition actionPong :: string where "actionPong = ''pong''"
definition actionRebalanceUpdate :: string where "actionRebalanceUpdate = ''rebalanceupdate''"
definition actionRebalanceEnd :: string where "actionRebalanceEnd = ''rebalanceend''"
definition actionRebalanceFailed :: string where "actionRebalanceFailed = ''rebalancefailed''"

lemmas action_defs = actionPing_def actionGetInfo_def actionListPeers_def actionGetNode_def actionRebalanceByScid_def
  actionRebalanceStop_def actionRebalanceResume_def actionPong_def actionRebalanceUpdate_def actionRebalanceEnd_def
  actionRebalanceFailed_def

record 'j ws_message =
  wm_action :: string
  wm_data :: "'j option"

text \<open>What lightningd knows of a node; \<open>'v\<close> stands for the parts that are only passed on.\<close>

record 'v node_info =
  ni_alias :: string
  ni_color :: string
  ni_rest :: 'v

record 'v channel_info =
  ci_peer :: "'v types_peer"
  ci_alias :: string
  ci_color :: string

datatype 'v payload =
  Info 'v
| Peer_list "'v channel_info list"
| Node_details "'v node_info"
| Control string
| Attempt pretty_route
| Ended result

record 'v ws_response =
  wr_action :: string
  wr_data :: "'v payload option"
  wr_error :: string

text \<open>
  One call of \<^verbatim>\<open>websocket.JSON.Receive\<close>: a JSON object with the fields it has, the end of the stream, or another error,
  with the message variable as the failed decoding leaves it.
\<close>

datatype 'j reception =
  Received "string option" "'j option"
| End_of_file
| Read_error string "'j ws_message"

text \<open>\<^verbatim>\<open>encoding/json\<close> leaves a field that the object does not have as it is.\<close>

definition decode_into :: "string option \<Rightarrow> 'j option \<Rightarrow> 'j ws_message \<Rightarrow> 'j ws_message" where
  "decode_into action data m =
     \<lparr>wm_action = (case action of None \<Rightarrow> wm_action m | Some a \<Rightarrow> a),
      wm_data = (case data of None \<Rightarrow> wm_data m | Some d \<Rightarrow> Some d)\<rparr>"

definition empty_message :: "'j ws_message" where
  "empty_message = \<lparr>wm_action = [], wm_data = None\<rparr>"

text \<open>\<^verbatim>\<open>strings.ToLower\<close> on ASCII; other bytes are left alone.\<close>

definition to_lower :: "string \<Rightarrow> string" where
  "to_lower s = map (\<lambda>c. let k = of_char c :: nat in if 65 \<le> k \<and> k \<le> 90 then char_of (k + 32) else c) s"

section \<open>Answers\<close>

record get_node_request =
  gn_node_id :: string

record 'j decoders =
  dc_node :: "'j option \<Rightarrow> get_node_request ext"
  dc_scid :: "'j option \<Rightarrow> by_scid_command ext"
  dc_resume :: "'j option \<Rightarrow> unit ext"
  dc_stop :: "'j option \<Rightarrow> unit ext"

record 'v requests =
  rq_get_info :: "'v ext"
  rq_list_peers :: "'v types_peer list ext"
  rq_get_node :: "string \<Rightarrow> 'v node_info ext"
  rq_resume :: "string ext"
  rq_stop :: "string ext"

definition send_action_failed :: "string \<Rightarrow> go_err \<Rightarrow> 'v ws_response" where
  "send_action_failed action e =
     \<lparr>wr_action = [], wr_data = None, wr_error = ''could not '' @ action @ '': '' @ error_text e\<rparr>"

text \<open>\<open>req\<close> is the decoded request; the call back answers with nothing (\<^verbatim>\<open>nil\<close>) or a payload.\<close>

definition forward_request ::
  "string \<Rightarrow> 'r ext \<Rightarrow> ('r \<Rightarrow> 'v payload option ext) \<Rightarrow> 'v ws_response option" where
  "forward_request action req cb = (case req of
     Inl e \<Rightarrow> Some (send_action_failed action e)
   | Inr r \<Rightarrow> (case cb r of
       Inl e \<Rightarrow> Some (send_action_failed action e)
     | Inr None \<Rightarrow> None
     | Inr (Some d) \<Rightarrow> Some \<lparr>wr_action = action, wr_data = Some d, wr_error = []\<rparr>))"

fun channel_infos :: "(string \<Rightarrow> 'v node_info ext) \<Rightarrow> 'v types_peer list \<Rightarrow> 'v channel_info list ext" where
  "channel_infos get_node [] = Inr []"
| "channel_infos get_node (p # ps) = ext_bind (get_node (tp_id p)) (\<lambda>info.
     ext_bind (channel_infos get_node ps) (\<lambda>cs.
       Inr (\<lparr>ci_peer = p, ci_alias = ni_alias info, ci_color = ni_color info\<rparr> # cs)))"

text \<open>The answer lists every peer as lightningd reported it, with its alias and color; the first unknown peer makes it fail.\<close>

lemma channel_infos_cases:
  "(\<exists>cs. channel_infos get_node ps = Inr cs \<and> map ci_peer cs = ps \<and> (\<forall>c \<in> set cs. \<exists>info.
      get_node (tp_id (ci_peer c)) = Inr info \<and> ci_alias c = ni_alias info \<and> ci_color c = ni_color info))
   \<or> (\<exists>qs p rs e. ps = qs @ p # rs \<and> get_node (tp_id p) = Inl e \<and> (\<forall>q \<in> set qs. \<exists>info. get_node (tp_id q) = Inr info)
      \<and> channel_infos get_node ps = Inl e)"
proof (induction ps)
  case (Cons p ps)
  show ?case
  proof (cases "get_node (tp_id p)")
    case (Inl e)
    then have "p # ps = [] @ p # ps \<and> get_node (tp_id p) = Inl e \<and> channel_infos get_node (p # ps) = Inl e" by simp
    then show ?thesis by fastforce
  next
    case (Inr info)
    from Cons show ?thesis
    proof (elim disjE exE conjE)
      fix qs q rs e
      assume "ps = qs @ q # rs" "get_node (tp_id q) = Inl e" "\<forall>q \<in> set qs. \<exists>info. get_node (tp_id q) = Inr info"
        "channel_infos get_node ps = Inl e"
      then have "p # ps = (p # qs) @ q # rs \<and> get_node (tp_id q) = Inl e \<and> (\<forall>q \<in> set (p # qs). \<exists>info. get_node (tp_id q) = Inr info)
        \<and> channel_infos get_node (p # ps) = Inl e" using Inr by simp
      then show ?thesis by blast
    qed (use Inr in auto)
  qed
qed simp

text \<open>The answer to a message, if any, and the rebalance that is started for it, if any.\<close>

definition handle_message ::
  "'j decoders \<Rightarrow> 'v requests \<Rightarrow> 'j ws_message \<Rightarrow> 'v ws_response option \<times> by_scid_command option" where
  "handle_message D R m =
     (let action = to_lower (wm_action m); data = wm_data m
      in if action = actionGetInfo then
           (forward_request actionGetInfo (Inr ()) (\<lambda>_. ext_bind (rq_get_info R) (\<lambda>v. Inr (Some (Info v)))), None)
         else if action = actionListPeers then
           (forward_request actionListPeers (Inr ()) (\<lambda>_. ext_bind (rq_list_peers R) (\<lambda>ps.
              ext_bind (channel_infos (rq_get_node R) ps) (\<lambda>cs. Inr (Some (Peer_list cs))))), None)
         else if action = actionGetNode then
           (forward_request actionGetNode (dc_node D data) (\<lambda>req.
              ext_bind (rq_get_node R (gn_node_id req)) (\<lambda>info. Inr (Some (Node_details info)))), None)
         else if action = actionRebalanceByScid then
           (forward_request actionRebalanceByScid (dc_scid D data) (\<lambda>_. Inr None),
            case dc_scid D data of Inl e \<Rightarrow> None | Inr c \<Rightarrow> Some c)
         else if action = actionRebalanceResume then
           (forward_request actionRebalanceResume (dc_resume D data) (\<lambda>_.
              ext_bind (rq_resume R) (\<lambda>status. Inr (Some (Control status)))), None)
         else if action = actionRebalanceStop then
           (forward_request actionRebalanceStop (dc_stop D data) (\<lambda>_.
              ext_bind (rq_stop R) (\<lambda>status. Inr (Some (Control status)))), None)
         else if action = actionPing then
           (Some \<lparr>wr_action = actionPong, wr_data = None, wr_error = []\<rparr>, None)
         else (Some \<lparr>wr_action = [], wr_data = None, wr_error = ''unknown action''\<rparr>, None))"

section \<open>Connections\<close>

record ('c, 'j) hub =
  active :: "'c list"
  serving :: "'c \<rightharpoonup> 'j ws_message"

definition new_hub :: "('c, 'j) hub" where
  "new_hub = \<lparr>active = [], serving = Map.empty\<rparr>"

definition drop_socket :: "'c \<Rightarrow> 'c list \<Rightarrow> 'c list" where
  "drop_socket ws cs = (case find_scid ws cs of None \<Rightarrow> cs | Some i \<Rightarrow> remove_at cs i)"

text \<open>A broadcast carries the connections that cannot be written to: it stops at the first of them.\<close>

datatype ('c, 'j, 'v) hub_event =
  Connect 'c
| Receive 'c "'j reception" "'v requests"
| Broadcast "'c \<Rightarrow> bool" "'v ws_response"

datatype ('c, 'v) hub_output =
  Answered 'c "'v ws_response"
| Started_rebalance by_scid_command
| Delivered 'c "'v ws_response"

definition websocket_broadcast :: "('c \<Rightarrow> bool) \<Rightarrow> 'c list \<Rightarrow> 'c list" where
  "websocket_broadcast fails cs = takeWhile (\<lambda>ws. \<not> fails ws) cs"

definition answer_outputs :: "'j decoders \<Rightarrow> 'v requests \<Rightarrow> 'c \<Rightarrow> 'j ws_message \<Rightarrow> ('c, 'v) hub_output list" where
  "answer_outputs D R ws m = (case handle_message D R m of (resp, cmd) \<Rightarrow>
     (case resp of None \<Rightarrow> [] | Some r \<Rightarrow> [Answered ws r])
     @ (case cmd of None \<Rightarrow> [] | Some c \<Rightarrow> [Started_rebalance c]))"

fun hub_step ::
  "'j decoders \<Rightarrow> ('c, 'j, 'v) hub_event \<Rightarrow> ('c, 'j) hub \<Rightarrow> ('c, 'j) hub \<times> ('c, 'v) hub_output list" where
  "hub_step D (Connect ws) h =
     (h\<lparr>active := active h @ [ws], serving := (serving h)(ws \<mapsto> empty_message)\<rparr>, [])"
| "hub_step D (Receive ws r R) h = (case serving h ws of
     None \<Rightarrow> (h, [])
   | Some m \<Rightarrow> (case r of
       End_of_file \<Rightarrow> (h\<lparr>active := drop_socket ws (active h), serving := (serving h)(ws := None)\<rparr>, [])
     | Read_error e m' \<Rightarrow> (h\<lparr>serving := (serving h)(ws \<mapsto> m')\<rparr>, [])
     | Received action data \<Rightarrow>
         (let m' = decode_into action data m
          in (h\<lparr>serving := (serving h)(ws \<mapsto> m')\<rparr>, answer_outputs D R ws m'))))"
| "hub_step D (Broadcast fails resp) h =
     (h, map (\<lambda>ws. Delivered ws resp) (websocket_broadcast fails (active h)))"

fun hub_run ::
  "'j decoders \<Rightarrow> ('c, 'j, 'v) hub_event list \<Rightarrow> ('c, 'j) hub \<Rightarrow> ('c, 'j) hub \<times> ('c, 'v) hub_output list" where
  "hub_run D [] h = (h, [])"
| "hub_run D (ev # evs) h = (let (h1, out) = hub_step D ev h; (h2, outs) = hub_run D evs h1 in (h2, out @ outs))"

text \<open>What is broadcast: every attempt of a rebalance, and the end of one that was started here.\<close>

definition broadcast_response :: "string \<Rightarrow> 'v payload option \<Rightarrow> string option \<Rightarrow> 'v ws_response" where
  "broadcast_response action msg err =
     \<lparr>wr_action = action, wr_data = msg, wr_error = (case err of None \<Rightarrow> [] | Some e \<Rightarrow> e)\<rparr>"

definition send_rebalance_attempt :: "pretty_route \<Rightarrow> 'v ws_response" where
  "send_rebalance_attempt route = broadcast_response actionRebalanceUpdate (Some (Attempt route)) None"

definition rebalance_ended :: "result ext \<Rightarrow> 'v ws_response" where
  "rebalance_ended res = (case res of
     Inl e \<Rightarrow> broadcast_response actionRebalanceFailed None (Some (error_text e))
   | Inr r \<Rightarrow> broadcast_response actionRebalanceEnd (Some (Ended r)) None)"

section \<open>The registered connections\<close>

definition hub_ok :: "('c, 'j) hub \<Rightarrow> bool" where
  "hub_ok h \<longleftrightarrow> distinct (active h) \<and> set (active h) = dom (serving h)"

text \<open>A new connection is not one of those that are served.\<close>

fun fresh :: "'j decoders \<Rightarrow> ('c, 'j, 'v) hub_event list \<Rightarrow> ('c, 'j) hub \<Rightarrow> bool" where
  "fresh D [] h \<longleftrightarrow> True"
| "fresh D (ev # evs) h \<longleftrightarrow> (\<forall>ws. ev = Connect ws \<longrightarrow> serving h ws = None) \<and> fresh D evs (fst (hub_step D ev h))"

lemma mset_drop_socket: "mset (drop_socket ws cs) = mset cs - {#ws#}"
proof (cases "find_scid ws cs")
  case None
  then have "ws \<notin> set cs" by (simp add: find_scid_None)
  then show ?thesis by (simp add: drop_socket_def None)
next
  case (Some i)
  then show ?thesis using mset_remove_at [of i cs] find_scid_Some [OF Some] by (simp add: drop_socket_def)
qed

lemma drop_socket_distinct:
  assumes "distinct cs"
  shows "distinct (drop_socket ws cs)" and "set (drop_socket ws cs) = set cs - {ws}"
proof -
  have "mset (drop_socket ws cs) = mset (remove1 ws cs)" by (simp add: mset_drop_socket)
  then show "distinct (drop_socket ws cs)" "set (drop_socket ws cs) = set cs - {ws}"
    using assms by (metis distinct_remove1 mset_eq_imp_distinct_iff, metis assms mset_eq_setD set_remove1_eq)
qed

lemma hub_step_ok:
  assumes "hub_ok h" and "\<And>ws. ev = Connect ws \<Longrightarrow> serving h ws = None"
  shows "hub_ok (fst (hub_step D ev h))"
proof (cases ev)
  case (Connect ws)
  then show ?thesis using assms by (auto simp: hub_ok_def)
next
  case (Receive ws r R)
  show ?thesis
  proof (cases "serving h ws")
    case None
    then show ?thesis using assms(1) Receive by simp
  next
    case (Some m)
    then have "ws \<in> set (active h)" using assms(1) by (auto simp: hub_ok_def)
    then show ?thesis
      using assms(1) Receive Some drop_socket_distinct [of "active h" ws]
      by (auto simp: hub_ok_def Let_def split: reception.split)
  qed
next
  case (Broadcast fails resp)
  then show ?thesis using assms(1) by simp
qed

lemma hub_run_ok: "hub_ok h \<Longrightarrow> fresh D evs h \<Longrightarrow> hub_ok (fst (hub_run D evs h))"
proof (induction evs arbitrary: h)
  case (Cons ev evs)
  then have "hub_ok (fst (hub_step D ev h))" by (intro hub_step_ok) auto
  then show ?case using Cons by (simp add: split_def Let_def)
qed simp

text \<open>The first connection stays the first as long as its goroutine does not end.\<close>

lemma drop_other_first:
  assumes "ws \<noteq> c"
  shows "\<exists>rest'. drop_socket ws (c # rest) = c # rest'"
proof (cases "find_scid ws (c # rest)")
  case (Some i)
  then obtain j where j: "i = Suc j" "j < length rest" using assms by (cases i) (auto split: if_splits dest: find_scid_Some)
  then show ?thesis using Some by (cases "length rest") (auto simp: drop_socket_def remove_at_def)
qed (simp add: drop_socket_def)

fun silent :: "'c \<Rightarrow> ('c, 'j, 'v) hub_event \<Rightarrow> bool" where
  "silent c (Connect ws) \<longleftrightarrow> True"
| "silent c (Receive ws r R) \<longleftrightarrow> \<not> (ws = c \<and> r = End_of_file)"
| "silent c (Broadcast fails resp) \<longleftrightarrow> fails c"

lemma silent_step:
  assumes "active h = c # rest" and "silent c ev"
  shows "\<exists>rest'. active (fst (hub_step D ev h)) = c # rest'" and "Delivered ws r \<notin> set (snd (hub_step D ev h))"
proof -
  show "\<exists>rest'. active (fst (hub_step D ev h)) = c # rest'"
    using assms drop_other_first [of _ c rest]
    by (cases ev) (auto simp: Let_def split: option.split reception.split)
  show "Delivered ws r \<notin> set (snd (hub_step D ev h))"
    using assms
    by (cases ev) (auto simp: Let_def answer_outputs_def websocket_broadcast_def split: option.splits reception.split prod.split)
qed

section \<open>Properties\<close>

text \<open>C32. At every moment the registered connections are exactly those whose goroutine is running, each once, however
  connects, messages, read errors, ends and broadcasts are interleaved: the removal by swapping with the last
  entry loses no other connection.\<close>

theorem sockets_registered:
  assumes "fresh D evs new_hub" and "hub_run D evs new_hub = (h, outs)"
  shows "distinct (active h) \<and> set (active h) = dom (serving h)"
  using hub_run_ok [OF _ assms(1)] assms(2) by (simp add: hub_ok_def new_hub_def)

text \<open>C34. A broadcast stops at the first connection that cannot be written to, and a read error other than the end of
  the stream never removes a connection: once the first registered connection is broken in this way, no later
  broadcast reaches anyone, whatever the other connections do.\<close>

theorem broken_socket_silences:
  assumes "active h = c # rest" and "\<forall>ev \<in> set evs. silent c ev" and "hub_run D evs h = (h', outs)"
  shows "Delivered ws r \<notin> set outs \<and> (\<exists>rest'. active h' = c # rest')"
  using assms
proof (induction evs arbitrary: h rest outs)
  case (Cons ev evs)
  obtain h1 out where s: "hub_step D ev h = (h1, out)" by fastforce
  obtain outs2 where r: "hub_run D evs h1 = (h', outs2)" "outs = out @ outs2"
    using Cons.prems(3) s by (auto split: prod.splits)
  have "silent c ev" using Cons.prems(2) by simp
  from silent_step [OF Cons.prems(1) this, where D = D] obtain rest1 where "active h1 = c # rest1" "Delivered ws r \<notin> set out"
    using s by auto
  with Cons.IH [OF this(1) _ r(1)] Cons.prems(2) r(2) show ?case by auto
qed auto

text \<open>C33. The message variable is declared outside the loop, so a JSON object without fields is handled as the message
  before it: it repeats the last action, with the last data, as often as it is sent. Empty objects after a
  rebalance was requested start the rebalance again.\<close>

theorem empty_message_repeats:
  assumes "serving h c = Some m"
  shows "hub_run D (replicate k (Receive c (Received None None) R)) h = (h, concat (replicate k (answer_outputs D R c m)))"
proof (induction k)
  case (Suc k)
  have "h\<lparr>serving := (serving h)(c \<mapsto> m)\<rparr> = h" using assms by (cases h) (simp add: map_upd_triv)
  then have "hub_step D (Receive c (Received None None) R) h = (h, answer_outputs D R c m)"
    using assms by (cases m) (simp add: decode_into_def)
  then show ?case using Suc by simp
qed simp

section \<open>Witnesses\<close>

definition sample_decoders :: "by_scid_command decoders" where
  "sample_decoders = \<lparr>dc_node = \<lambda>_. Inr \<lparr>gn_node_id = []\<rparr>, dc_scid = \<lambda>d. case d of None \<Rightarrow> Inl (ErrForeign ''json'') | Some c \<Rightarrow> Inr c,
     dc_resume = \<lambda>_. Inr (), dc_stop = \<lambda>_. Inr ()\<rparr>"

definition sample_requests :: "unit requests" where
  "sample_requests = \<lparr>rq_get_info = Inr (), rq_list_peers = Inr [], rq_get_node = \<lambda>_. Inl (ErrForeign ''unknown''),
     rq_resume = Inr ''active'', rq_stop = Inr ''stopped''\<rparr>"

definition sample_command :: by_scid_command where
  "sample_command = \<lparr>sc_out_scid = ''1x1x1'', sc_in_scid = ''2x1x1'', sc_amount = 1000, sc_max_ppm = 10, sc_attempts = 1,
     sc_max_hops = 8\<rparr>"

definition sample_events :: "(nat, by_scid_command, unit) hub_event list" where
  "sample_events = [Connect 1, Connect 2, Connect 3, Receive 1 End_of_file sample_requests]"

theorem sockets_registered_witness:
  "\<exists>h. hub_run sample_decoders sample_events new_hub = (h, []) \<and> active h = [3, 2] \<and> dom (serving h) = {2, 3}"
proof -
  obtain h where h: "hub_run sample_decoders sample_events new_hub = (h, [])" "active h = [3, 2]"
    by (simp add: sample_events_def new_hub_def drop_socket_def remove_at_def)
  have "fresh sample_decoders sample_events new_hub" by (simp add: sample_events_def new_hub_def)
  from sockets_registered [OF this h(1)] h show ?thesis by auto
qed

theorem broken_socket_silences_witness:
  "Delivered 2 (rebalance_ended (Inl ErrSendPayTimeout)) \<notin> set (snd (hub_run sample_decoders
     [Receive (1 :: nat) (Read_error ''connection reset'' empty_message) sample_requests,
      Broadcast (\<lambda>ws. ws = 1) (rebalance_ended (Inl ErrSendPayTimeout))]
     \<lparr>active = [1, 2], serving = [1 \<mapsto> empty_message, 2 \<mapsto> empty_message]\<rparr>))"
proof -
  let ?h = "\<lparr>active = [1, 2], serving = [1 \<mapsto> empty_message, 2 \<mapsto> empty_message]\<rparr> :: (nat, by_scid_command) hub"
  let ?evs = "[Receive 1 (Read_error ''connection reset'' empty_message) sample_requests,
      Broadcast (\<lambda>ws. ws = 1) (rebalance_ended (Inl ErrSendPayTimeout))]"
  obtain h' outs where run: "hub_run sample_decoders ?evs ?h = (h', outs)" by fastforce
  have "active ?h = 1 # [2]" "\<forall>ev \<in> set ?evs. silent 1 ev" by simp_all
  from broken_socket_silences [OF this run] show ?thesis unfolding run by simp
qed

lemma lower_rebalance: "to_lower ''RebalanceByScid'' = ''rebalancebyscid''"
  by code_simp

theorem empty_message_repeats_witness:
  "snd (hub_run sample_decoders (replicate 2 (Receive (1 :: nat) (Received None None) sample_requests))
     \<lparr>active = [1], serving = [1 \<mapsto> \<lparr>wm_action = ''RebalanceByScid'', wm_data = Some sample_command\<rparr>]\<rparr>)
   = [Started_rebalance sample_command, Started_rebalance sample_command]"
proof -
  let ?m = "\<lparr>wm_action = ''RebalanceByScid'', wm_data = Some sample_command\<rparr>"
  let ?h = "\<lparr>active = [1], serving = [1 \<mapsto> ?m]\<rparr> :: (nat, by_scid_command) hub"
  have "answer_outputs sample_decoders sample_requests (1 :: nat) ?m = [Started_rebalance sample_command]"
    by (simp add: answer_outputs_def handle_message_def lower_rebalance action_defs sample_decoders_def forward_request_def)
  moreover have "serving ?h 1 = Some ?m" by simp
  ultimately show ?thesis using empty_message_repeats [of ?h 1 ?m sample_decoders 2 sample_requests]
    by (simp add: numeral_2_eq_2)
qed

end
