(* ===== verification/Locks.thy ===== *)
theory Locks
  imports Prelude "HOL-Library.Multiset"
begin

text \<open>
  The locks of the program. The other theories take every operation as one step; here an operation is the sequence
  of its calls of \<^verbatim>\<open>Lock\<close>, \<^verbatim>\<open>RLock\<close>, \<^verbatim>\<open>Unlock\<close> and \<^verbatim>\<open>RUnlock\<close>, and goroutines interleave. A read-write lock is that
  of Go: a writer first announces itself, after which no new reader is admitted, and then waits until the readers
  have left. A \<^verbatim>\<open>Mutex\<close> is a lock that is only written.
\<close>

section \<open>Locks and goroutines\<close>

datatype lock =
  Init_lock | Amount_lock | Queue_lock | Peers_lock | Channels_lock | Adjacency_lock | Aliases_lock | Sockets_lock

datatype action =
  RLock lock | RUnlock lock | Lock lock | Unlock lock
| Acquire lock

text \<open>\<open>Acquire\<close> is what is left of \<open>Lock\<close> after the announcement.\<close>

datatype writer = No_writer | Pending | Holding

record lock_state =
  readers :: nat
  writer :: writer

type_synonym lock_table = "lock \<Rightarrow> lock_state"

definition free_locks :: lock_table where
  "free_locks l = \<lparr>readers = 0, writer = No_writer\<rparr>"

text \<open>What a goroutine does next, when it is not blocked, and what remains of the action.\<close>

fun perform :: "action \<Rightarrow> lock_table \<Rightarrow> (lock_table \<times> action list) option" where
  "perform (RLock l) s =
     (if writer (s l) = No_writer then Some (s(l := (s l)\<lparr>readers := readers (s l) + 1\<rparr>), []) else None)"
| "perform (RUnlock l) s = Some (s(l := (s l)\<lparr>readers := readers (s l) - 1\<rparr>), [])"
| "perform (Lock l) s =
     (if writer (s l) = No_writer then Some (s(l := (s l)\<lparr>writer := Pending\<rparr>), [Acquire l]) else None)"
| "perform (Acquire l) s =
     (if readers (s l) = 0 then Some (s(l := (s l)\<lparr>writer := Holding\<rparr>), []) else None)"
| "perform (Unlock l) s = Some (s(l := (s l)\<lparr>writer := No_writer\<rparr>), [])"

type_synonym system = "lock_table \<times> action list list"

inductive lock_step :: "system \<Rightarrow> system \<Rightarrow> bool" where
  lock_step: "i < length ts \<Longrightarrow> ts ! i = a # as \<Longrightarrow> perform a s = Some (s', todo) \<Longrightarrow>
    lock_step (s, ts) (s', ts[i := todo @ as])"

inductive_cases lock_stepE: "lock_step (s, ts) s'"

definition unfinished :: "system \<Rightarrow> bool" where
  "unfinished st \<longleftrightarrow> (\<exists>t \<in> set (snd st). t \<noteq> [])"

definition deadlocked :: "system \<Rightarrow> bool" where
  "deadlocked st \<longleftrightarrow> unfinished st \<and> (\<nexists>st'. lock_step st st')"

section \<open>The operations of the program\<close>

definition read_locked :: "lock \<Rightarrow> action list \<Rightarrow> action list" where
  "read_locked l body = RLock l # body @ [RUnlock l]"

definition write_locked :: "lock \<Rightarrow> action list \<Rightarrow> action list" where
  "write_locked l body = Lock l # body @ [Unlock l]"

text \<open>\<^verbatim>\<open>node/peers.go\<close> and \<^verbatim>\<open>refreshPeers\<close>.\<close>

definition peer_lookup_locks :: "action list" where
  "peer_lookup_locks = read_locked Peers_lock []"

definition peer_update_locks :: "action list" where
  "peer_update_locks = write_locked Peers_lock []"

text \<open>\<^verbatim>\<open>graph/graph.go\<close>, \<^verbatim>\<open>graph/stats.go\<close> and \<^verbatim>\<open>graph/pathfinder.go\<close>.\<close>

definition get_channel_locks :: "action list" where
  "get_channel_locks = read_locked Channels_lock []"

definition get_alias_locks :: "action list" where
  "get_alias_locks = read_locked Aliases_lock []"

definition change_channels_locks :: "action list" where
  "change_channels_locks = write_locked Channels_lock []"

definition change_aliases_locks :: "action list" where
  "change_aliases_locks = write_locked Aliases_lock []"

definition read_graph_locks :: "action list" where
  "read_graph_locks = read_locked Channels_lock (read_locked Adjacency_lock [])"

definition refresh_channels_locks :: "action list" where
  "refresh_channels_locks = write_locked Channels_lock (write_locked Adjacency_lock [])"

definition whole_graph_locks :: "action list" where
  "whole_graph_locks = write_locked Channels_lock (write_locked Adjacency_lock (write_locked Aliases_lock []))"

text \<open>\<^verbatim>\<open>refreshGraph\<close>: refresh, prune, aliases, file; an error ends it after \<open>k\<close> of them.\<close>

definition refresh_graph_locks :: "nat \<Rightarrow> action list" where
  "refresh_graph_locks k =
     concat (take k [refresh_channels_locks, change_channels_locks, change_aliases_locks, whole_graph_locks])"

definition init_locks :: "action list" where
  "init_locks = write_locked Init_lock (refresh_graph_locks 4 @ peer_update_locks)"

definition node_stats_locks :: "action list" where
  "node_stats_locks = read_locked Peers_lock read_graph_locks"

text \<open>\<^verbatim>\<open>GetOutgoingChannelFromScid\<close> and \<^verbatim>\<open>GetIncomingChannelFromScid\<close>.\<close>

definition own_channel_locks :: "action list" where
  "own_channel_locks = peer_lookup_locks @ get_channel_locks"

text \<open>
  An attempt of a rebalance: two lookups and two connection tests, the aliases of both ends for the log, the route,
  the aliases of its hops and ends, the broadcast, the aliases for the message of a success.
\<close>

definition broadcast_locks :: "action list" where
  "broadcast_locks = write_locked Sockets_lock []"

definition attempt_locks :: "nat \<Rightarrow> action list" where
  "attempt_locks hops = concat (replicate 4 peer_lookup_locks) @ concat (replicate 2 get_alias_locks)
     @ read_graph_locks @ concat (replicate (hops + 2) get_alias_locks) @ broadcast_locks
     @ concat (replicate 2 get_alias_locks)"

text \<open>\<^verbatim>\<open>rebalance/parallel/\<close>: \<open>tries\<close> are the numbers of candidates taken from the queue for each split.\<close>

definition next_candidate_locks :: "nat \<Rightarrow> action list" where
  "next_candidate_locks n =
     concat (replicate n (write_locked Queue_lock [] @ peer_lookup_locks @ peer_lookup_locks))"

definition fire_candidates_locks :: "nat list \<Rightarrow> action list" where
  "fire_candidates_locks tries = write_locked Amount_lock (concat (map next_candidate_locks tries))"

definition book_result_locks :: "action list" where
  "book_result_locks = change_aliases_locks @ own_channel_locks @ write_locked Queue_lock []
     @ write_locked Amount_lock peer_update_locks"

text \<open>\<^verbatim>\<open>FindCandidates\<close> judges \<open>n\<close> channels while it holds the lock of the peers.\<close>

definition pull_judge_locks :: "action list" where
  "pull_judge_locks = own_channel_locks"

definition push_judge_locks :: "action list" where
  "push_judge_locks = own_channel_locks @ own_channel_locks"

definition find_candidates_locks :: "action list \<Rightarrow> nat \<Rightarrow> action list" where
  "find_candidates_locks judge n = read_locked Peers_lock (concat (replicate n (judge @ get_channel_locks)))"

datatype operation =
  Peer_lookup | Peer_update | Own_channel | Read_graph | Get_alias | Learn_or_reset | Refresh_graph nat | Node_stats | Node_init
| Broadcast_out | Attempt nat | Fire_candidates "nat list" | Book_result | Book_failure

fun locks_of :: "operation \<Rightarrow> action list" where
  "locks_of Peer_lookup = peer_lookup_locks"
| "locks_of Peer_update = peer_update_locks"
| "locks_of Own_channel = own_channel_locks"
| "locks_of Read_graph = read_graph_locks"
| "locks_of Get_alias = get_alias_locks"
| "locks_of Learn_or_reset = change_channels_locks"
| "locks_of (Refresh_graph k) = refresh_graph_locks k"
| "locks_of Node_stats = node_stats_locks"
| "locks_of Node_init = init_locks"
| "locks_of Broadcast_out = broadcast_locks"
| "locks_of (Attempt hops) = attempt_locks hops"
| "locks_of (Fire_candidates tries) = fire_candidates_locks tries"
| "locks_of Book_result = book_result_locks"
| "locks_of Book_failure = write_locked Amount_lock []"

section \<open>A lock order\<close>

fun rank :: "lock \<Rightarrow> nat" where
  "rank Init_lock = 0" | "rank Amount_lock = 1" | "rank Queue_lock = 2" | "rank Peers_lock = 3"
| "rank Channels_lock = 4" | "rank Adjacency_lock = 5" | "rank Aliases_lock = 6" | "rank Sockets_lock = 7"

lemma rank_inj: "rank l = rank k \<Longrightarrow> l = k"
  by (cases l; cases k) simp_all

instantiation lock :: linorder
begin

definition less_eq_lock :: "lock \<Rightarrow> lock \<Rightarrow> bool" where
  "less_eq_lock l k \<longleftrightarrow> rank l \<le> rank k"

definition less_lock :: "lock \<Rightarrow> lock \<Rightarrow> bool" where
  "less_lock l k \<longleftrightarrow> rank l < rank k"

instance
  by standard (auto simp: less_eq_lock_def less_lock_def intro: rank_inj)

end

text \<open>
  \<open>ordered H t\<close>: a goroutine that holds \<open>H\<close> (with \<open>True\<close> for writing) and still has to do \<open>t\<close> only ever asks for
  locks above those it holds, releases what it holds, and holds nothing in the end.
\<close>

definition above :: "lock \<Rightarrow> (lock \<times> bool) list \<Rightarrow> bool" where
  "above l H \<longleftrightarrow> (\<forall>(k, w) \<in> set H. k < l)"

fun ordered :: "(lock \<times> bool) list \<Rightarrow> action list \<Rightarrow> bool" where
  "ordered H [] \<longleftrightarrow> H = []"
| "ordered H (RLock l # t) \<longleftrightarrow> above l H \<and> ordered ((l, False) # H) t"
| "ordered H (Lock l # t) \<longleftrightarrow> above l H \<and> ordered ((l, True) # H) t"
| "ordered H (Acquire l # t) \<longleftrightarrow> above l H \<and> ordered ((l, True) # H) t"
| "ordered H (RUnlock l # t) \<longleftrightarrow> (l, False) \<in> set H \<and> ordered (remove1 (l, False) H) t"
| "ordered H (Unlock l # t) \<longleftrightarrow> (l, True) \<in> set H \<and> ordered (remove1 (l, True) H) t"

text \<open>The locks of a sequence of actions, to put it between the lock and the unlock of another.\<close>

fun lock_of :: "action \<Rightarrow> lock" where
  "lock_of (RLock l) = l" | "lock_of (RUnlock l) = l" | "lock_of (Lock l) = l" | "lock_of (Unlock l) = l"
| "lock_of (Acquire l) = l"

definition all_above :: "lock \<Rightarrow> action list \<Rightarrow> bool" where
  "all_above k t \<longleftrightarrow> (\<forall>a \<in> set t. k < lock_of a)"

lemma all_above_simps [simp]:
  "all_above k []" "all_above k (a # t) \<longleftrightarrow> k < lock_of a \<and> all_above k t"
  "all_above k (t @ t') \<longleftrightarrow> all_above k t \<and> all_above k t'"
  "all_above k (concat ts) \<longleftrightarrow> (\<forall>t \<in> set ts. all_above k t)"
  by (auto simp: all_above_def)

lemma all_above_locked [simp]:
  "all_above k (read_locked l t) \<longleftrightarrow> k < l \<and> all_above k t"
  "all_above k (write_locked l t) \<longleftrightarrow> k < l \<and> all_above k t"
  by (auto simp: read_locked_def write_locked_def)

lemma ordered_inside:
  "ordered K t \<Longrightarrow> (\<forall>(k, w) \<in> set H. all_above k t) \<Longrightarrow> ordered H rest \<Longrightarrow> ordered (K @ H) (t @ rest)"
proof (induction K t rule: ordered.induct)
  case (5 K l t)
  then show ?case by (auto simp: remove1_append)
next
  case (6 K l t)
  then show ?case by (auto simp: remove1_append)
qed (auto simp: above_def)

lemma ordered_append: "ordered [] t \<Longrightarrow> ordered [] t' \<Longrightarrow> ordered [] (t @ t')"
  using ordered_inside [of "[]" t "[]" t'] by simp

lemma ordered_concat: "\<forall>t \<in> set ts. ordered [] t \<Longrightarrow> ordered [] (concat ts)"
  by (induction ts) (simp_all add: ordered_append)

lemma ordered_locked:
  assumes "ordered [] t" and "all_above l t"
  shows "ordered [] (read_locked l t)" and "ordered [] (write_locked l t)"
  using ordered_inside [OF assms(1), of "[(l, False)]" "[RUnlock l]"] ordered_inside [OF assms(1), of "[(l, True)]" "[Unlock l]"]
    assms(2) by (simp_all add: read_locked_def write_locked_def above_def)

lemmas locks_defs = peer_lookup_locks_def peer_update_locks_def get_channel_locks_def get_alias_locks_def
  change_channels_locks_def change_aliases_locks_def read_graph_locks_def refresh_channels_locks_def whole_graph_locks_def
  init_locks_def node_stats_locks_def own_channel_locks_def broadcast_locks_def attempt_locks_def
  next_candidate_locks_def fire_candidates_locks_def book_result_locks_def

lemma refresh_graph_ordered:
  "ordered [] (refresh_graph_locks k)" "all_above Init_lock (refresh_graph_locks k)"
proof -
  let ?ts = "[refresh_channels_locks, change_channels_locks, change_aliases_locks, whole_graph_locks]"
  have "\<forall>t \<in> set ?ts. ordered [] t \<and> all_above Init_lock t"
    by (simp add: locks_defs ordered_locked less_lock_def)
  then have "\<forall>t \<in> set (take k ?ts). ordered [] t \<and> all_above Init_lock t" by (meson in_set_takeD)
  then show "ordered [] (refresh_graph_locks k)" "all_above Init_lock (refresh_graph_locks k)"
    unfolding refresh_graph_locks_def by (auto intro: ordered_concat)
qed

lemma operations_ordered: "ordered [] (locks_of opn)"
  by (cases opn)
    (auto simp: locks_defs refresh_graph_ordered less_lock_def intro!: ordered_append ordered_locked ordered_concat)

section \<open>Ordered goroutines make progress\<close>

text \<open>\<open>Hs\<close> are the locks that the goroutines hold.\<close>

definition held_ok :: "lock_table \<Rightarrow> (lock \<times> bool) list list \<Rightarrow> action list list \<Rightarrow> bool" where
  "held_ok s Hs ts \<longleftrightarrow> length Hs = length ts \<and> (\<forall>i < length ts. ordered (Hs ! i) (ts ! i))
     \<and> (\<forall>l. readers (s l) = sum_list (map (\<lambda>H. count_list H (l, False)) Hs))
     \<and> (\<forall>l. writer (s l) = Holding \<longrightarrow> (\<exists>i < length ts. (l, True) \<in> set (Hs ! i)))
     \<and> (\<forall>l. writer (s l) = Pending \<longrightarrow> (\<exists>i < length ts. \<exists>t. ts ! i = Acquire l # t))"

definition after :: "action \<Rightarrow> (lock \<times> bool) list \<Rightarrow> (lock \<times> bool) list" where
  "after a H = (case a of
     RLock l \<Rightarrow> (l, False) # H | Lock l \<Rightarrow> H | Acquire l \<Rightarrow> (l, True) # H
   | RUnlock l \<Rightarrow> remove1 (l, False) H | Unlock l \<Rightarrow> remove1 (l, True) H)"

lemma count_list_remove1: "count_list (remove1 x xs) y = (if x = y then count_list xs y - 1 else count_list xs y)"
  by (induction xs) auto

lemma count_list_pos: "x \<in> set xs \<Longrightarrow> 0 < count_list xs x"
  by (metis count_list_0_iff gr0I)

lemma held_step:
  assumes ok: "held_ok s Hs ts" and i: "i < length ts" and t: "ts ! i = a # as"
    and step: "perform a s = Some (s', todo)"
  shows "held_ok s' (Hs[i := after a (Hs ! i)]) (ts[i := todo @ as])"
proof -
  have len: "length Hs = length ts" and ord: "\<And>j. j < length ts \<Longrightarrow> ordered (Hs ! j) (ts ! j)"
    and rd: "\<And>l. readers (s l) = sum_list (map (\<lambda>H. count_list H (l, False)) Hs)"
    and hold: "\<And>l. writer (s l) = Holding \<Longrightarrow> \<exists>j < length ts. (l, True) \<in> set (Hs ! j)"
    and pend: "\<And>l. writer (s l) = Pending \<Longrightarrow> \<exists>j < length ts. \<exists>t. ts ! j = Acquire l # t"
    using ok by (auto simp: held_ok_def)
  have oi: "ordered (Hs ! i) (a # as)" using ord [OF i] t by simp
  let ?Hs = "Hs[i := after a (Hs ! i)]" and ?ts = "ts[i := todo @ as]"
  have "ordered (?Hs ! j) (?ts ! j)" if "j < length ts" for j
    using ord [OF that] oi step i len
    by (cases "j = i"; cases a) (auto simp: after_def split: if_splits)
  moreover have "readers (s' l) = sum_list (map (\<lambda>H. count_list H (l, False)) ?Hs)" for l
  proof -
    let ?c = "\<lambda>H. count_list H (l, False)"
    have i': "i < length (map ?c Hs)" using i len by simp
    have le: "?c (Hs ! i) \<le> sum_list (map ?c Hs)"
      using elem_le_sum_list [OF i'] i len by simp
    have "sum_list (map ?c ?Hs) = sum_list (map ?c Hs) + ?c (after a (Hs ! i)) - ?c (Hs ! i)"
      using sum_list_update [OF i', of "?c (after a (Hs ! i))"] i len by (simp add: map_update)
    then show ?thesis
      using rd [of l] step oi le count_list_pos [of "(l, False)" "Hs ! i"]
      by (cases a) (auto simp: after_def count_list_remove1 split: if_splits)
  qed
  moreover have "\<exists>j < length ts. (l, True) \<in> set (?Hs ! j)" if "writer (s' l) = Holding" for l
  proof (cases "a = Acquire l")
    case True
    then show ?thesis using i len by (intro exI [of _ i]) (simp add: after_def)
  next
    case False
    then have "writer (s l) = Holding" "a \<noteq> Unlock l" using that step by (cases a; auto split: if_splits)+
    then obtain j where j: "j < length ts" "(l, True) \<in> set (Hs ! j)" using hold by blast
    then show ?thesis
      using \<open>a \<noteq> Unlock l\<close> len i by (intro exI [of _ j]) (cases a; auto simp: nth_list_update after_def in_set_remove1)
  qed
  moreover have "\<exists>j < length ts. \<exists>t. ?ts ! j = Acquire l # t" if "writer (s' l) = Pending" for l
  proof (cases "a = Lock l")
    case True
    then show ?thesis using i step by (intro exI [of _ i]) (auto split: if_splits)
  next
    case False
    then have "writer (s l) = Pending" "a \<noteq> Acquire l" using that step by (cases a; auto split: if_splits)+
    then obtain j u where "j < length ts" "ts ! j = Acquire l # u" using pend by blast
    then show ?thesis using \<open>a \<noteq> Acquire l\<close> t i by (intro exI [of _ j]) (auto simp: nth_list_update)
  qed
  ultimately show ?thesis using len by (simp add: held_ok_def)
qed

lemma held_start: "\<forall>t \<in> set ts. ordered [] t \<Longrightarrow> held_ok free_locks (replicate (length ts) []) ts"
  by (auto simp: held_ok_def free_locks_def sum_list_replicate map_replicate_const)

lemma held_steps:
  assumes "lock_step\<^sup>*\<^sup>* (free_locks, ts) st" and "\<forall>t \<in> set ts. ordered [] t"
  shows "\<exists>Hs. held_ok (fst st) Hs (snd st)"
  using assms(1)
proof (induction rule: rtranclp_induct)
  case base
  then show ?case using held_start [OF assms(2)] by auto
next
  case (step st st')
  then obtain Hs where Hs: "held_ok (fst st) Hs (snd st)" by blast
  from step.hyps(2) show ?case
  proof cases
    case (lock_step i ts a as s s' todo)
    then have "held_ok s Hs ts" using Hs by simp
    from held_step [OF this lock_step(3-5)] show ?thesis using lock_step(2) by auto
  qed
qed

text \<open>The goroutine that asks for the highest lock is not blocked: whoever blocked it would ask for a higher one.\<close>

lemma held_progress:
  assumes ok: "held_ok s Hs ts" and un: "unfinished (s, ts)"
  shows "\<exists>st'. lock_step (s, ts) st'"
proof (rule ccontr)
  assume stuck: "\<nexists>st'. lock_step (s, ts) st'"
  have ord: "\<And>j. j < length ts \<Longrightarrow> ordered (Hs ! j) (ts ! j)" and len: "length Hs = length ts"
    using ok by (auto simp: held_ok_def)
  have blocked: "perform a s = None" if "i < length ts" "ts ! i = a # as" for i a as
  proof (rule ccontr)
    assume "perform a s \<noteq> None"
    then obtain s' todo where "perform a s = Some (s', todo)" by auto
    from lock_step [OF that this] show False using stuck by blast
  qed
  let ?asks = "{lock_of (hd t) | t. t \<in> set ts \<and> t \<noteq> []}"
  have "finite ?asks" "?asks \<noteq> {}" using un by (auto simp: unfinished_def)
  then obtain i where i: "i < length ts" "ts ! i \<noteq> []" "lock_of (hd (ts ! i)) = Max ?asks"
    using Max_in [of ?asks] by (fastforce simp: in_set_conv_nth)
  then obtain a as where a: "ts ! i = a # as" by (cases "ts ! i") auto
  let ?l = "lock_of a"
  have holder: False if "j < length ts" "(?l, w) \<in> set (Hs ! j)" for j w
  proof -
    have "ts ! j \<noteq> []" using ord [OF that(1)] that(2) by auto
    then obtain b bs where b: "ts ! j = b # bs" by (cases "ts ! j") auto
    have "perform b s = None" by (rule blocked [OF that(1) b])
    then have "above (lock_of b) (Hs ! j)" using ord [OF that(1)] b by (cases b) (auto split: if_splits)
    then have "?l < lock_of b" using that(2) by (auto simp: above_def)
    moreover have "b # bs \<in> set ts" using nth_mem [OF that(1)] b by simp
    then have "lock_of b \<le> Max ?asks"
      using \<open>finite ?asks\<close> by (intro Max_ge) (auto intro!: exI [of _ "b # bs"])
    ultimately show False using i(3) a by simp
  qed
  have no_readers: "readers (s ?l) = 0"
  proof (rule ccontr)
    assume "readers (s ?l) \<noteq> 0"
    moreover have "readers (s ?l) = sum_list (map (\<lambda>H. count_list H (?l, False)) Hs)"
      using ok unfolding held_ok_def by blast
    ultimately have "sum_list (map (\<lambda>H. count_list H (?l, False)) Hs) \<noteq> 0" by argo
    then obtain H where "H \<in> set Hs" "count_list H (?l, False) \<noteq> 0" by auto
    then obtain j where "j < length ts" "(?l, False) \<in> set (Hs ! j)"
      using len by (auto simp: in_set_conv_nth count_list_0_iff)
    then show False by (rule holder)
  qed
  have "writer (s ?l) = No_writer"
  proof (cases "writer (s ?l)")
    case Pending
    then obtain j t where "j < length ts" "ts ! j = Acquire ?l # t" using ok by (auto simp: held_ok_def)
    from blocked [OF this] no_readers show ?thesis by simp
  next
    case Holding
    then obtain j where "j < length ts" "(?l, True) \<in> set (Hs ! j)" using ok by (auto simp: held_ok_def)
    then show ?thesis using holder by blast
  qed
  then show False using blocked [OF i(1) a] no_readers by (cases a) auto
qed

section \<open>Properties\<close>

text \<open>C10. Goroutines that run any sequences of the operations other than the search for candidates never deadlock: in
  every state they can reach, if one of them has not finished, one of them can go on.\<close>

theorem operations_never_deadlock:
  assumes "\<forall>t \<in> set ts. \<exists>ops. t = concat (map locks_of ops)" and "lock_step\<^sup>*\<^sup>* (free_locks, ts) st"
  shows "\<not> deadlocked st"
proof -
  have "ordered [] (concat (map locks_of ops))" for ops using operations_ordered by (intro ordered_concat) auto
  then have "\<forall>t \<in> set ts. ordered [] t" using assms(1) by metis
  from held_steps [OF assms(2) this] obtain Hs where "held_ok (fst st) Hs (snd st)" by blast
  then show ?thesis using held_progress [of "fst st" Hs "snd st"] by (auto simp: deadlocked_def)
qed

definition sample_threads :: "operation list list" where
  "sample_threads = [[Fire_candidates [1], Book_result], [Refresh_graph 4, Peer_update], [Node_stats]]"

theorem operations_never_deadlock_witness:
  "\<not> deadlocked (free_locks, map (\<lambda>ops. concat (map locks_of ops)) sample_threads)"
  by (rule operations_never_deadlock [where ts = "map (\<lambda>ops. concat (map locks_of ops)) sample_threads"]) auto

text \<open>C15. The search for candidates holds the lock of the peers for reading and takes it for reading again for every
  channel that it judges. When a refresh of the peers announces its write lock in between, the two wait for
  each other forever.\<close>

theorem find_candidates_deadlocks:
  assumes "judge = pull_judge_locks \<or> judge = push_judge_locks"
  shows "\<exists>st. lock_step\<^sup>*\<^sup>* (free_locks, [find_candidates_locks judge (Suc n), locks_of Peer_update]) st \<and> deadlocked st"
proof -
  obtain rest where find: "find_candidates_locks judge (Suc n) = RLock Peers_lock # RLock Peers_lock # rest"
    using assms by (auto simp: find_candidates_locks_def read_locked_def pull_judge_locks_def push_judge_locks_def
        own_channel_locks_def peer_lookup_locks_def)
  let ?s1 = "free_locks(Peers_lock := \<lparr>readers = 1, writer = No_writer\<rparr>)"
  let ?s2 = "?s1(Peers_lock := \<lparr>readers = 1, writer = Pending\<rparr>)"
  have upd: "locks_of Peer_update = [Lock Peers_lock, Unlock Peers_lock]"
    by (simp add: peer_update_locks_def write_locked_def)
  let ?ts = "[RLock Peers_lock # rest, [Acquire Peers_lock, Unlock Peers_lock]]"
  have "lock_step (free_locks, [find_candidates_locks judge (Suc n), locks_of Peer_update])
      (?s1, [RLock Peers_lock # rest, locks_of Peer_update])"
    using lock_step [of 0 "[find_candidates_locks judge (Suc n), locks_of Peer_update]" "RLock Peers_lock"
        "RLock Peers_lock # rest" free_locks] by (simp add: find free_locks_def)
  moreover have "lock_step (?s1, [RLock Peers_lock # rest, locks_of Peer_update]) (?s2, ?ts)"
    using lock_step [of 1 "[RLock Peers_lock # rest, locks_of Peer_update]" "Lock Peers_lock" "[Unlock Peers_lock]" ?s1 ?s2
        "[Acquire Peers_lock]"] upd by simp
  ultimately have "lock_step\<^sup>*\<^sup>* (free_locks, [find_candidates_locks judge (Suc n), locks_of Peer_update]) (?s2, ?ts)"
    by (meson converse_rtranclp_into_rtranclp r_into_rtranclp)
  moreover have "deadlocked (?s2, ?ts)"
    by (auto simp: deadlocked_def unfinished_def less_Suc_eq elim!: lock_stepE)
  ultimately show ?thesis by blast
qed

theorem find_candidates_deadlocks_witness:
  "\<exists>st. lock_step\<^sup>*\<^sup>* (free_locks, [find_candidates_locks pull_judge_locks 1, locks_of Peer_update]) st \<and> deadlocked st"
  using find_candidates_deadlocks [of pull_judge_locks 0] by simp

end
