(* ===== verification/Commands.thy ===== *)
theory Commands
  imports Circle_Pull
begin

text \<open>
  The two commands that run one rebalance, \<^verbatim>\<open>rebalance/bynode.go\<close> and \<^verbatim>\<open>rebalance/byscid.go\<close>, from their parameters to the
  result: the lookups in the peers and the graph, the defaults, the checks and the loop fit together.
\<close>

section \<open>From two channels to the result\<close>

definition amount_or_default :: "u64 \<Rightarrow> u64" where
  "amount_or_default sats = (if sats = 0 then 200000 else sats)"

definition ppm_or_default :: "u64 \<Rightarrow> u64" where
  "ppm_or_default ppm = (if ppm = 0 then 10 else ppm)"

text \<open>A result between two peers: a success keeps to the parameters, or the rebalance failed.\<close>

definition result_between :: "string \<Rightarrow> string \<Rightarrow> u64 \<Rightarrow> u64 \<Rightarrow> result \<Rightarrow> bool" where
  "result_between out_peer in_peer sats ppm res \<longleftrightarrow>
     res_status res = ''failure'' \<or>
     res_status res = ''success'' \<and> res_out res = out_peer \<and> res_in res = in_peer
       \<and> res_amount res = amount_or_default sats \<and> res_ppm res \<le> ppm_or_default ppm"

lemma set_defaults_fields:
  assumes "unat sats \<le> 2 ^ 30"
  shows "rb_amount (set_defaults (new_rebalance out inc sats ppm attempts hops)) = amount_or_default sats * 1000"
    and "rb_max_ppm (set_defaults (new_rebalance out inc sats ppm attempts hops)) = ppm_or_default ppm"
    and "rb_out (set_defaults (new_rebalance out inc sats ppm attempts hops)) = out"
    and "rb_in (set_defaults (new_rebalance out inc sats ppm attempts hops)) = inc"
    and "0 \<le> rb_attempts (set_defaults (new_rebalance out inc sats ppm attempts hops))"
    and "hops \<le> 12 \<Longrightarrow> rb_max_hops (set_defaults (new_rebalance out inc sats ppm attempts hops)) \<le> 12"
proof -
  have "unat (sats * 1000) = unat sats * 1000" using assms by (simp add: unat_mult64)
  then have "sats * 1000 = 0 \<longleftrightarrow> sats = 0" by (metis mult_eq_0_iff unat_eq_0 zero_neq_numeral)
  then show "rb_amount (set_defaults (new_rebalance out inc sats ppm attempts hops)) = amount_or_default sats * 1000"
    by (simp add: set_defaults_def new_rebalance_def amount_or_default_def DEFAULT_AMOUNT_def Let_def)
qed (simp_all add: set_defaults_def new_rebalance_def ppm_or_default_def DEFAULT_MAXPPM_def DEFAULT_MAXHOPS_def
    DEFAULT_ATTEMPTS_def Let_def)

lemma amount_or_default_msat:
  assumes "unat sats \<le> 2 ^ 30"
  shows "unat (amount_or_default sats * 1000) = unat (amount_or_default sats) * 1000"
    and "amount_or_default sats * 1000 \<noteq> 0" and "amount_or_default sats * 1000 div 1000 = amount_or_default sats"
    and "unat (amount_or_default sats * 1000) \<le> 2 ^ 40"
proof -
  have b: "unat (amount_or_default sats) \<le> 2 ^ 30" "amount_or_default sats \<noteq> 0"
    using assms by (simp_all add: amount_or_default_def)
  then show m: "unat (amount_or_default sats * 1000) = unat (amount_or_default sats) * 1000" by (simp add: unat_mult64)
  show "unat (amount_or_default sats * 1000) \<le> 2 ^ 40" using b m by simp
  show "amount_or_default sats * 1000 \<noteq> 0" using b m by (metis mult_eq_0_iff unat_eq_0 zero_neq_numeral)
  have "unat (amount_or_default sats * 1000 div 1000) = unat (amount_or_default sats)" using m by (simp add: unat_div64)
  then show "amount_or_default sats * 1000 div 1000 = amount_or_default sats" by (simp add: u64_eq_iff)
qed

lemma setup_and_run_outcome:
  assumes net: "net_ok ends me D n" and others: "others_keep (net_ok ends me D) others"
    and inc: "bolt7_fees inc" and differ: "chan_destination out \<noteq> chan_source inc"
    and small: "unat sats \<le> 2 ^ 30" "hops \<le> 12"
  shows "(\<exists>e. setup_and_run B ords envs others (new_rebalance out inc sats ppm attempts hops) n = (Err e, n)) \<or>
    (\<exists>res n'. setup_and_run B ords envs others (new_rebalance out inc sats ppm attempts hops) n = (Ok res, n')
       \<and> net_ok ends me D n' \<and> result_between (chan_destination out) (chan_source inc) sats ppm res)"
proof -
  let ?r = "set_defaults (new_rebalance out inc sats ppm attempts hops)"
  note f = set_defaults_fields [OF small(1), where out = out and inc = inc and ppm = ppm and attempts = attempts and hops = hops]
  note a = amount_or_default_msat [OF small(1)]
  have ok: "rebalance_ok ?r" using inc differ f a small(2) by (simp add: rebalance_ok_def)
  consider (err) e where "rebalance_setup ords (new_rebalance out inc sats ppm attempts hops) n = Err e"
    | (ok) "rebalance_setup ords (new_rebalance out inc sats ppm attempts hops) n = Ok ?r"
    using validate_returns [of ords ?r n] by (auto simp: rebalance_setup_def returns_def)
  then show ?thesis
  proof cases
    case err
    then show ?thesis by (simp add: setup_and_run_def)
  next
    case set: ok
    obtain res n' where "run B ?r envs others n = (Ok res, n')" "net_ok ends me D n'"
      and "success_ok ?r res \<and> (\<exists>j \<ge> 1. j \<le> rb_attempts ?r \<and> res_attempts res = word_of_int j)
        \<or> res_status res = ''failure'' \<and> (\<exists>j \<ge> 0. j \<le> rb_attempts ?r \<and> res_attempts res = word_of_int j)"
      by (rule net.run_outcome [OF others net ok f(5)])
    moreover from this(3) have "result_between (chan_destination out) (chan_source inc) sats ppm res"
      using f a by (auto simp: result_between_def success_ok_def within_limits_def)
    ultimately show ?thesis using set by (auto simp: setup_and_run_def)
  qed
qed

text \<open>The best channel with a peer is one of its channels.\<close>

lemma best_channel_of_peer:
  assumes "n_peers n i = Some p" and "peer_channels p \<noteq> []"
  obtains pc where "get_best_peer_channel i metric n = Ok pc" and "pc \<in> set (peer_channels p)"
proof -
  obtain c cs where c: "peer_channels p = c # cs" using assms(2) by (cases "peer_channels p") auto
  have "fold (\<lambda>ch best. if metric ch > metric best then ch else best) (c # cs) c \<in> set (c # cs)"
    using fold_best [of c "c # cs" metric] by auto
  then show ?thesis using that assms(1) c by (simp add: get_best_peer_channel_def)
qed

lemma own_channel_of_peer:
  assumes "net_ok ends me D n" and "n_peers n i = Some p" and "pc \<in> set (peer_channels p)"
  shows "own_scid ends me (pc_scid pc) i"
  using assms by (auto simp: net_ok_def peers_agree_def own_scid_def)

lemma best_outgoing_cases:
  assumes net: "net_ok ends me D n" and p: "n_peers n i = Some p" "peer_channels p \<noteq> []"
  obtains (err) e where "best_outgoing_channel ord i n = Err e"
  | (ok) c where "best_outgoing_channel ord i n = Ok c" and "chan_destination c = i"
proof -
  obtain pc where pc: "get_best_peer_channel i pc_to_us n = Ok pc" "pc \<in> set (peer_channels p)"
    by (rule best_channel_of_peer [OF p])
  show ?thesis
  proof (cases "get_outgoing_channel_from_scid ord (pc_scid pc) n")
    case (Ok c)
    then obtain k where "own_scid ends me (pc_scid pc) k" "chan_destination c = k" by (rule outgoing_found [OF net])
    then have "chan_destination c = i" using own_scid_unique own_channel_of_peer [OF net p(1) pc(2)] by blast
    then show ?thesis using ok Ok pc by (simp add: best_outgoing_channel_def)
  qed (use err pc lookup_returns [of ord "pc_scid pc" n] in \<open>simp_all add: best_outgoing_channel_def\<close>)
qed

lemma best_incoming_cases:
  assumes net: "net_ok ends me D n" and p: "n_peers n i = Some p" "peer_channels p \<noteq> []"
  obtains (err) e where "best_incoming_channel ord i n = Err e"
  | (ok) c where "best_incoming_channel ord i n = Ok c" and "chan_source c = i" and "bolt7_fees c"
proof -
  obtain pc where pc: "get_best_peer_channel i (\<lambda>channel. pc_total channel - pc_to_us channel) n = Ok pc"
    "pc \<in> set (peer_channels p)" by (rule best_channel_of_peer [OF p])
  show ?thesis
  proof (cases "get_incoming_channel_from_scid ord (pc_scid pc) n")
    case (Ok c)
    then obtain k where "own_scid ends me (pc_scid pc) k" "chan_source c = k" "bolt7_fees c" by (rule incoming_found [OF net])
    moreover from this have "chan_source c = i" using own_scid_unique own_channel_of_peer [OF net p(1) pc(2)] by blast
    ultimately show ?thesis using ok Ok pc by (simp add: best_incoming_channel_def)
  qed (use err pc lookup_returns [of ord "pc_scid pc" n] in \<open>simp_all add: best_incoming_channel_def\<close>)
qed

section \<open>The two commands\<close>

text \<open>The command by node always answers, as long as the peers we know have a channel with us.\<close>

lemma by_node_returns:
  assumes "net_ok ends (n_id n) (dom (n_peers n)) n" and "others_keep (net_ok ends (n_id n) (dom (n_peers n))) others"
    and "\<And>i p. n_peers n i = Some p \<Longrightarrow> peer_channels p \<noteq> []"
    and "unat (nc_amount c) \<le> 2 ^ 30" and "nc_max_hops c \<le> 12"
  shows "(\<exists>e. by_node_call B ords envs others c n = (Err e, n)) \<or>
    (\<exists>res n'. by_node_call B ords envs others c n = (Ok res, n') \<and> net_ok ends (n_id n) (dom (n_peers n)) n'
       \<and> result_between (nc_out_node c) (nc_in_node c) (nc_amount c) (nc_max_ppm c) res)"
proof (cases "(nc_in_node c = [] \<or> nc_out_node c = []) \<or> (\<exists>e. validate_peers (ords 6) c n = Err e)")
  case True
  then show ?thesis by (auto simp: by_node_call_def)
next
  case False
  then have ne: "nc_in_node c \<noteq> []" "nc_out_node c \<noteq> []" and v: "validate_peers (ords 6) c n = Ok ()"
    and differ: "nc_out_node c \<noteq> nc_in_node c" by (auto simp: validate_peers_def split: if_splits)
  obtain p q where p: "n_peers n (nc_out_node c) = Some p" and q: "n_peers n (nc_in_node c) = Some q"
    using v by (auto simp: validate_peers_def has_peer_def split: if_splits)
  show ?thesis
  proof (rule best_outgoing_cases [OF assms(1) p assms(3) [OF p], of "ords 4"])
    fix e assume "best_outgoing_channel (ords 4) (nc_out_node c) n = Err e"
    then show ?thesis using ne v by (simp add: by_node_call_def)
  next
    fix out assume out: "best_outgoing_channel (ords 4) (nc_out_node c) n = Ok out" "chan_destination out = nc_out_node c"
    show ?thesis
    proof (rule best_incoming_cases [OF assms(1) q assms(3) [OF q], of "ords 5"])
      fix e assume "best_incoming_channel (ords 5) (nc_in_node c) n = Err e"
      then show ?thesis using ne v out by (simp add: by_node_call_def)
    next
      fix inc assume inc: "best_incoming_channel (ords 5) (nc_in_node c) n = Ok inc" "chan_source inc = nc_in_node c" "bolt7_fees inc"
      have "by_node_call B ords envs others c n =
          setup_and_run B ords envs others (new_rebalance out inc (nc_amount c) (nc_max_ppm c) (nc_attempts c) (nc_max_hops c)) n"
        using ne v out inc by (simp add: by_node_call_def)
      with setup_and_run_outcome [OF assms(1,2) inc(3) _ assms(4,5), where out = out and B = B and ords = ords and envs = envs and ppm = "nc_max_ppm c" and attempts = "nc_attempts c"]
      show ?thesis using out inc differ by simp
    qed
  qed
qed

text \<open>The command by channel needs the two channels to be with different peers, which it does not check.\<close>

lemma by_scid_returns:
  assumes "net_ok ends (n_id n) (dom (n_peers n)) n" and "others_keep (net_ok ends (n_id n) (dom (n_peers n))) others"
    and "\<And>i. own_scid ends (n_id n) (sc_out_scid c) i \<Longrightarrow> \<not> own_scid ends (n_id n) (sc_in_scid c) i"
    and "unat (sc_amount c) \<le> 2 ^ 30" and "sc_max_hops c \<le> 12"
  shows "(\<exists>e. by_scid_call B ords envs others c n = (Err e, n)) \<or>
    (\<exists>res n' i j. by_scid_call B ords envs others c n = (Ok res, n') \<and> net_ok ends (n_id n) (dom (n_peers n)) n'
       \<and> own_scid ends (n_id n) (sc_out_scid c) i \<and> own_scid ends (n_id n) (sc_in_scid c) j
       \<and> result_between i j (sc_amount c) (sc_max_ppm c) res)"
proof (cases "sc_in_scid c = [] \<or> sc_out_scid c = []")
  case True
  then show ?thesis by (auto simp: by_scid_call_def)
next
  case ne: False
  show ?thesis
  proof (cases "get_outgoing_channel_from_scid (ords 4) (sc_out_scid c) n")
    case out: (Ok out)
    obtain i where i: "own_scid ends (n_id n) (sc_out_scid c) i" "chan_destination out = i"
      by (rule outgoing_found [OF assms(1) out])
    show ?thesis
    proof (cases "get_incoming_channel_from_scid (ords 5) (sc_in_scid c) n")
      case inc: (Ok inc)
      obtain j where j: "own_scid ends (n_id n) (sc_in_scid c) j" "chan_source inc = j" "bolt7_fees inc"
        by (rule incoming_found [OF assms(1) inc])
      have "chan_destination out \<noteq> chan_source inc" using assms(3) i j by auto
      moreover have "by_scid_call B ords envs others c n =
          setup_and_run B ords envs others (new_rebalance out inc (sc_amount c) (sc_max_ppm c) (sc_attempts c) (sc_max_hops c)) n"
        using ne out inc by (simp add: by_scid_call_def)
      ultimately show ?thesis
        using setup_and_run_outcome [OF assms(1,2) j(3) _ assms(4,5), where out = out and B = B and ords = ords and envs = envs and ppm = "sc_max_ppm c" and attempts = "sc_attempts c"] i j
        by auto
    qed (use ne out lookup_returns [of "ords 5" "sc_in_scid c" n] in \<open>auto simp: by_scid_call_def\<close>)
  qed (use ne lookup_returns [of "ords 4" "sc_out_scid c" n] in \<open>auto simp: by_scid_call_def\<close>)
qed

end
