(* ===== verification/Interference.thy ===== *)
theory Interference
  imports Commands PullPush_Properties GraphFile Stats
begin

text \<open>
  What the rest of the plugin does while a rebalance runs. The theorems about rebalances hold as long as the other
  goroutines keep the invariant of the node. Here the other goroutines are any sequence of the plugin's own
  operations: the three cron jobs (a refresh of the graph as a whole or, where two overlap, step by step), the notifications and hooks, the payments of other rebalances, the bookings of
  other pulls and pushes, stop and resume, the deletion of the statistics, and the expiry of entries in the database.
\<close>

section \<open>The operations of the plugin\<close>

text \<open>
  lightningd reports channels with fees in the fields of BOLT 7, between the nodes that the gossip says, and our peers
  with our channels.
\<close>

definition reported_peer :: "(string \<Rightarrow> string \<times> string \<times> u64) \<Rightarrow> string \<Rightarrow> peer \<Rightarrow> bool" where
  "reported_peer ends me p \<longleftrightarrow> distinct (map pc_scid (peer_channels p))
     \<and> (\<forall>c \<in> set (peer_channels p). own_scid ends me (pc_scid c) (peer_id p))"

definition reported_channel :: "(string \<Rightarrow> string \<times> string \<times> u64) \<Rightarrow> gl_channel \<Rightarrow> bool" where
  "reported_channel ends c \<longleftrightarrow> gossip_ok ends c \<and> bolt7_fees c"

inductive plugin_step ::
  "'d library \<Rightarrow> (string \<Rightarrow> string \<times> string \<times> u64) \<Rightarrow> string \<Rightarrow> 'd node \<Rightarrow> 'd node \<Rightarrow> bool"
  for B :: "'d library" and ends :: "string \<Rightarrow> string \<times> string \<times> u64" and me :: string where
  job_graph: "refresh_graph enc io chans ks now nodes (n, fs) = (err, n', states) \<Longrightarrow>
    \<forall>cs. chans = Inr cs \<longrightarrow> (\<forall>c \<in> set cs. reported_channel ends c) \<Longrightarrow> plugin_step B ends me n n'"
| part_channels: "\<forall>c \<in> set cs. reported_channel ends c \<Longrightarrow>
    plugin_step B ends me n (n\<lparr>n_graph := refresh_channels cs (n_graph n)\<rparr>)"
| part_prune: "plugin_step B ends me n (n\<lparr>n_graph := prune_channels prune now (n_graph n)\<rparr>)"
| part_aliases: "plugin_step B ends me n (n\<lparr>n_graph := refresh_aliases aliased (n_graph n)\<rparr>)"
| job_peers: "\<forall>ps. peers = Inr ps \<longrightarrow> (\<forall>p \<in> set ps. reported_peer ends me p) \<Longrightarrow>
    plugin_step B ends me n (snd (refresh_peers_job peers n))"
| job_liquidity: "plugin_step B ends me n (refresh_liquidity_job ks now clk n)"
| connected: "plugin_step B ends me n (on_connect pid n)"
| disconnected: "plugin_step B ends me n (on_disconnect pid n)"
| stop: "plugin_step B ends me n (snd (stop_call n))"
| resume: "plugin_step B ends me n (snd (resume_call n))"
| drawn: "plugin_step B ends me n (snd (generate_preimage_hash_pair B bytes n))"
| paid: "plugin_step B ends me n (snd (send_pay B r h lite (wait :: wait_error + unit) n))"
| saved: "plugin_step B ends me n (snd (node_save B key json n))"
| failed: "plugin_step B ends me n (fst (on_payment_failure B sf n))"
| succeeded: "plugin_step B ends me n (on_payment_success B ss n)"
| booked: "update_channel_balance out_peer in_peer out_scid in_scid amount n = Ok n' \<Longrightarrow> plugin_step B ends me n n'"
| stats_deleted: "plugin_step B ends me n (snd (delete_stats B n))"
| expired: "plugin_step B ends me n (n\<lparr>n_db := db\<rparr>)"

section \<open>Every operation keeps the invariant\<close>

lemma bolt7_copies [simp]:
  "bolt7_fees (new_channel c lq ts) = bolt7_fees c" "bolt7_fees (reset_liquidity t d) = bolt7_fees d"
  by (simp_all add: bolt7_fees_def new_channel_def reset_liquidity_def gl_channel.defs channel.defs)

lemma fees_refresh:
  assumes "gossip_bounded g" and "\<forall>c \<in> set cs. reported_channel ends c"
  shows "gossip_bounded (refresh_channels cs g)"
proof -
  have g: "\<forall>c \<in> set cs. gossip_ok ends c" using assms(2) by (simp add: reported_channel_def)
  have "bolt7_fees c" if "latest cid cs = Some c" for cid c
    using find_SomeD [OF that [unfolded latest_def]] assms(2) by (simp add: reported_channel_def)
  then show ?thesis
    using assms(1) by (auto simp: gossip_bounded_def refresh_channels_def refresh_fold_content [OF g] refreshed_def
        split: option.splits)
qed

lemma fees_prune: "graph_ok ends g \<Longrightarrow> gossip_bounded g \<Longrightarrow> gossip_bounded (prune_channels ks now g)"
  using prune_fold [of ends g] by (fastforce simp: prune_channels_fold gossip_bounded_def split: option.splits if_splits)

lemma fees_aliases: "gossip_bounded g \<Longrightarrow> gossip_bounded (refresh_aliases ns g)"
  by (simp add: gossip_bounded_def)

lemma fees_liquidity_fold: "gossip_bounded g \<Longrightarrow> gossip_bounded (fst (fold (liquidity_step threshold now clk) ks (g, h)))"
proof (induction ks arbitrary: g h)
  case (Cons k ks)
  have "gossip_bounded (fst (liquidity_step threshold now clk k (g, h)))"
    using Cons.prems by (auto simp: liquidity_step_eq gossip_bounded_def split: if_splits)
  then show ?case using Cons.IH by (cases "liquidity_step threshold now clk k (g, h)") simp
qed simp

lemma fees_liquidity: "gossip_bounded g \<Longrightarrow> gossip_bounded (fst (refresh_liquidity ks threshold now clk g))"
  by (simp add: refresh_liquidity_fold fees_liquidity_fold)

lemma good_node_refresh:
  assumes "good_node ends n" and "refresh_graph enc io chans ks now nodes (n, fs) = (err, n', states)"
    and "\<forall>cs. chans = Inr cs \<longrightarrow> (\<forall>c \<in> set cs. reported_channel ends c)"
  shows "good_node ends n'" and "n_peers n' = n_peers n" and "n_id n' = n_id n"
proof -
  have g: "graph_reach ends (n_graph n)" "gossip_bounded (n_graph n)" using assms(1) by (simp_all add: good_node_def)
  have r: "graph_reach ends (refresh_channels cs (n_graph n)) \<and> gossip_bounded (refresh_channels cs (n_graph n))"
    if "chans = Inr cs" for cs
    using reach_refresh [OF g(1)] fees_refresh [OF g(2)] assms(3) that by (simp add: reported_channel_def)
  have p: "graph_reach ends (prune_channels k now (refresh_channels cs (n_graph n)))
      \<and> gossip_bounded (prune_channels k now (refresh_channels cs (n_graph n)))" if "chans = Inr cs" for cs k
    using r [OF that] reach_prune fees_prune [OF graph_reach_ok] by blast
  show "good_node ends n'" and "n_peers n' = n_peers n" and "n_id n' = n_id n"
    using assms(1,2) p reach_aliases fees_aliases
    by (auto simp: refresh_graph_def good_node_def Let_def split: sum.splits prod.splits)
qed

text \<open>The peers of the invariant are those that lightningd reports.\<close>

lemma net_ok_reported:
  "net_ok ends me D n \<longleftrightarrow> good_node ends n \<and> n_id n = me \<and> D \<subseteq> dom (n_peers n)
     \<and> (\<forall>i p. n_peers n i = Some p \<longrightarrow> peer_id p = i \<and> reported_peer ends me p)"
proof
  assume "net_ok ends me D n"
  then show "good_node ends n \<and> n_id n = me \<and> D \<subseteq> dom (n_peers n)
      \<and> (\<forall>i p. n_peers n i = Some p \<longrightarrow> peer_id p = i \<and> reported_peer ends me p)"
    by (auto simp: net_ok_def reported_peer_def peers_ok_def peers_agree_def own_scid_def)
next
  assume r: "good_node ends n \<and> n_id n = me \<and> D \<subseteq> dom (n_peers n)
      \<and> (\<forall>i p. n_peers n i = Some p \<longrightarrow> peer_id p = i \<and> reported_peer ends me p)"
  then have own: "own_scid ends me (pc_scid c) i" if "n_peers n i = Some p" "c \<in> set (peer_channels p)" for i p c
    using that by (auto simp: reported_peer_def)
  then have "peers_agree ends n" using r by (auto simp: peers_agree_def own_scid_def)
  moreover have "peers_ok (n_peers n)"
    using r own own_scid_unique unfolding peers_ok_def reported_peer_def by metis
  ultimately show "net_ok ends me D n" using r by (simp add: net_ok_def)
qed

lemma net_ok_frame:
  "net_ok ends me D n \<Longrightarrow> n_graph n' = n_graph n \<Longrightarrow> n_peers n' = n_peers n \<Longrightarrow> n_id n' = n_id n \<Longrightarrow> net_ok ends me D n'"
  by (simp add: net_ok_reported good_node_def)

lemma net_ok_graph:
  "net_ok ends me D n \<Longrightarrow> good_node ends n' \<Longrightarrow> n_peers n' = n_peers n \<Longrightarrow> n_id n' = n_id n \<Longrightarrow> net_ok ends me D n'"
  by (simp add: net_ok_reported)

lemma net_ok_refresh_peers:
  "net_ok ends me D n \<Longrightarrow> \<forall>p \<in> set ps. reported_peer ends me p \<Longrightarrow> net_ok ends me D (refresh_peers ps n)"
proof (induction ps arbitrary: n)
  case Nil
  then show ?case by (simp add: refresh_peers_def net_ok_frame)
next
  case (Cons p ps)
  have "net_ok ends me D (n\<lparr>n_peers := (n_peers n)(peer_id p \<mapsto> p)\<rparr>)"
    using Cons.prems by (auto simp: net_ok_reported good_node_def)
  from Cons.IH [OF this] Cons.prems(2) show ?case by (simp add: refresh_peers_def)
qed

lemma net_ok_connected: "net_ok ends me D n \<Longrightarrow> net_ok ends me D (set_connected b pid n)"
  by (auto simp: set_connected_def net_ok_reported good_node_def reported_peer_def split: option.split)

lemma net_ok_booked:
  assumes "net_ok ends me D n" and "update_channel_balance out_peer in_peer out_scid in_scid amount n = Ok n'"
  shows "net_ok ends me D n'"
proof -
  have "n_peers n out_peer \<noteq> None" "n_peers n in_peer \<noteq> None" "peers_ok (n_peers n)"
    using assms by (auto simp: update_channel_balance_def net_ok_def Let_def split: option.splits if_splits)
  then obtain n'' where "update_channel_balance out_peer in_peer out_scid in_scid amount n = Ok n''"
    "n_graph n'' = n_graph n" "n_id n'' = n_id n" "dom (n_peers n'') = dom (n_peers n)"
    "peers_ok (n_peers n'')" "peers_agree ends n'' = peers_agree ends n"
    by (metis update_channel_balance_keeps)
  then show ?thesis using assms by (auto simp: net_ok_def good_node_def)
qed

lemma db_only_delete_stats: "db_only n (snd (delete_stats B n))"
  by (auto simp: delete_stats_def db_only_def Let_def split_def)

lemma net_ok_db: "net_ok ends me D n \<Longrightarrow> db_only n n' \<Longrightarrow> net_ok ends me D n'"
  by (simp add: net.ok_db_only)

lemma net_ok_failure:
  assumes "net_ok ends me D n"
  shows "net_ok ends me D (fst (on_payment_failure B sf n))"
proof -
  have "net_ok ends me D (fst (send_update u n1))" if "db_only n n1" for u n1
    using net_ok_db [OF assms that] by (auto simp: send_update_def intro: net_ok_frame [of ends me D n1])
  then show ?thesis using on_payment_failure_cases [of n B sf] net_ok_db [OF assms] by fastforce
qed

lemma net_ok_set_stopped: "net_ok ends me D n \<Longrightarrow> net_ok ends me D (set_stopped b n)"
  by (simp add: net_ok_frame set_stopped_def)

lemma db_only_db: "db_only n (n\<lparr>n_db := db\<rparr>)"
  by (auto simp: db_only_def)

lemmas db_only_keeps = db_only_generate db_only_send_pay db_only_node_save db_only_success db_only_delete_stats db_only_db

lemma plugin_step_net_ok:
  assumes "plugin_step B ends me n n'" and "net_ok ends me D n"
  shows "net_ok ends me D n'"
  using assms(1)
proof cases
  case (job_graph enc io chans ks now nodes fs err states)
  have "good_node ends n" using assms(2) by (simp add: net_ok_def)
  from good_node_refresh [OF this job_graph] show ?thesis by (rule net_ok_graph [OF assms(2)])
next
  case (part_channels cs)
  then have "good_node ends n'"
    using assms(2) reach_refresh fees_refresh by (auto simp: net_ok_def good_node_def reported_channel_def)
  then show ?thesis by (rule net_ok_graph [OF assms(2)]) (simp_all add: part_channels)
next
  case (part_prune prune now)
  then have "good_node ends n'"
    using assms(2) reach_prune fees_prune [OF graph_reach_ok] by (auto simp: net_ok_def good_node_def)
  then show ?thesis by (rule net_ok_graph [OF assms(2)]) (simp_all add: part_prune)
next
  case (part_aliases aliased)
  then have "good_node ends n'"
    using assms(2) reach_aliases fees_aliases by (auto simp: net_ok_def good_node_def)
  then show ?thesis by (rule net_ok_graph [OF assms(2)]) (simp_all add: part_aliases)
next
  case (job_peers peers)
  then show ?thesis using net_ok_refresh_peers [OF assms(2)] assms(2)
    by (auto simp: refresh_peers_job_def split: sum.split)
next
  case (job_liquidity ks now clk)
  have "good_node ends n'"
    using assms(2) by (simp add: job_liquidity refresh_liquidity_job_def net_ok_def good_node_def reach_liquidity fees_liquidity)
  then show ?thesis by (rule net_ok_graph [OF assms(2)]) (simp_all add: job_liquidity refresh_liquidity_job_def)
next
  case failed
  then show ?thesis using net_ok_failure [OF assms(2)] by simp
next
  case booked
  then show ?thesis using net_ok_booked [OF assms(2)] by simp
next
  case stop
  then show ?thesis by (simp add: stop_call_def net_ok_set_stopped assms(2))
next
  case resume
  then show ?thesis by (simp add: resume_call_def net_ok_set_stopped assms(2))
qed (auto simp: on_connect_def on_disconnect_def net_ok_connected assms(2) intro: db_only_keeps net_ok_db [OF assms(2)])

text \<open>The other goroutines, between two attempts and between two results, are sequences of these operations.\<close>

definition plugin_others ::
  "'d library \<Rightarrow> (string \<Rightarrow> string \<times> string \<times> u64) \<Rightarrow> string \<Rightarrow> (nat \<Rightarrow> 'd node \<Rightarrow> 'd node) \<Rightarrow> bool" where
  "plugin_others B ends me others \<longleftrightarrow> (\<forall>k n. (plugin_step B ends me)\<^sup>*\<^sup>* n (others k n))"

lemma plugin_steps_net_ok: "(plugin_step B ends me)\<^sup>*\<^sup>* n n' \<Longrightarrow> net_ok ends me D n \<Longrightarrow> net_ok ends me D n'"
  by (induction rule: rtranclp_induct) (auto intro: plugin_step_net_ok)

lemma plugin_others_keep: "plugin_others B ends me others \<Longrightarrow> others_keep (net_ok ends me D) others"
  unfolding plugin_others_def others_keep_def by (blast intro: plugin_steps_net_ok)

text \<open>So a pull or push may start whenever its other goroutines are sequences of them, which is what its theorems ask for.\<close>

lemma plugin_call_ok:
  assumes "net_ok ends (n_id n) (dom (n_peers n)) n"
    and "\<And>k. plugin_others B ends (n_id n) (wk_others (ce_wakes env k))"
    and "\<And>k n'. (plugin_step B ends (n_id n))\<^sup>*\<^sup>* n' (wk_after (ce_wakes env k) n')"
  shows "call_ok ends env n"
  unfolding call_ok_def wake_ok_def
  using assms(1) plugin_others_keep [OF assms(2)] plugin_steps_net_ok [OF assms(3)] by blast

section \<open>Properties\<close>

text \<open>Whatever sequence of its own operations the plugin runs, with whatever lightningd, the files and the
  database answer: the graph stays one that its operations reach, with fees of 32 bits, our peers stay filed under their
  ids with the channels we have with them, and no peer is forgotten. So what the theorems about rebalances, pull
  and push rely on always holds.\<close>

theorem plugin_keeps_invariant:
  assumes "(plugin_step B ends me)\<^sup>*\<^sup>* n n'" and "net_ok ends me D n"
  shows "net_ok ends me D n'"
  using assms by (rule plugin_steps_net_ok)

theorem plugin_keeps_invariant_witness:
  "net_ok circle_ends ''u'' {''a'', ''b''} (refresh_peers [circle_peer ''a'' ''1'' 7] (on_disconnect ''b'' circle_node))"
proof (rule plugin_keeps_invariant [OF _ circle_net_ok])
  let ?step = "plugin_step map_library circle_ends ''u''"
  have "n_peers circle_node ''a'' = Some (circle_peer ''a'' ''1'' 600000000)" by simp
  then have "reported_peer circle_ends ''u'' (circle_peer ''a'' ''1'' 600000000)"
    using circle_net_ok unfolding net_ok_reported by blast
  then have "reported_peer circle_ends ''u'' (circle_peer ''a'' ''1'' 7)"
    by (simp add: reported_peer_def circle_peer_def)
  then have "?step (on_disconnect ''b'' circle_node)
      (snd (refresh_peers_job (Inr [circle_peer ''a'' ''1'' 7]) (on_disconnect ''b'' circle_node)))"
    by (intro job_peers) simp
  then have "?step (on_disconnect ''b'' circle_node)
      (refresh_peers [circle_peer ''a'' ''1'' 7] (on_disconnect ''b'' circle_node))"
    by (simp add: refresh_peers_job_def)
  then show "?step\<^sup>*\<^sup>* circle_node (refresh_peers [circle_peer ''a'' ''1'' 7] (on_disconnect ''b'' circle_node))"
    using disconnected [of map_library circle_ends "''u''" circle_node "''b''"]
    by (meson converse_rtranclp_into_rtranclp r_into_rtranclp)
qed

text \<open>The command by node answers while the rest of the plugin runs any of its operations in between: with an error that
  leaves the node as it was, or with a result. A success names the two nodes and the amount that were asked for,
  or the default amount, and paid at most the fee rate that was asked for, or the default one. It neither panics nor
  loops for ever, as long as the peers we know have a channel with us, for at most \<open>2 ^ 30\<close> sats and 12 hops; waiting for
  locks is the subject of \<open>Locks\<close>.\<close>

theorem by_node_answers:
  assumes "net_ok ends (n_id n) (dom (n_peers n)) n" and "plugin_others B ends (n_id n) others"
    and "\<forall>p \<in> ran (n_peers n). peer_channels p \<noteq> []"
    and "unat (nc_amount c) \<le> 2 ^ 30" and "nc_max_hops c \<le> 12"
  shows "(\<exists>e. by_node_call B ords envs others c n = (Err e, n)) \<or>
    (\<exists>res n'. by_node_call B ords envs others c n = (Ok res, n') \<and> net_ok ends (n_id n) (dom (n_peers n)) n'
       \<and> result_between (nc_out_node c) (nc_in_node c) (nc_amount c) (nc_max_ppm c) res)"
  by (rule by_node_returns [OF assms(1) plugin_others_keep [OF assms(2)] _ assms(4,5)]) (use assms(3) in \<open>auto intro: ranI\<close>)

definition circle_others :: "nat \<Rightarrow> 'd node \<Rightarrow> 'd node" where
  "circle_others k n = (if k = 0 then on_disconnect ''b'' n else n)"

definition circle_by_node :: by_node_command where
  "circle_by_node = \<lparr>nc_out_node = ''a'', nc_in_node = ''b'', nc_amount = 1000, nc_max_ppm = 10, nc_attempts = 1, nc_max_hops = 3\<rparr>"

theorem by_node_answers_witness:
  "(\<exists>e. by_node_call map_library (\<lambda>_. [''a'', ''b'']) circle_env circle_others circle_by_node circle_node = (Err e, circle_node)) \<or>
   (\<exists>res n'. by_node_call map_library (\<lambda>_. [''a'', ''b'']) circle_env circle_others circle_by_node circle_node = (Ok res, n')
      \<and> result_between ''a'' ''b'' 1000 10 res)"
proof -
  have id: "n_id circle_node = ''u''" by (rule circle_node_simps)
  have others: "plugin_others map_library circle_ends (n_id circle_node) circle_others"
    by (auto simp: plugin_others_def circle_others_def intro: disconnected)
  have peers: "\<forall>p \<in> ran (n_peers circle_node). peer_channels p \<noteq> []"
    by (auto simp: ran_def circle_peer_def split: if_splits)
  let ?call = "by_node_call map_library (\<lambda>_. [''a'', ''b'']) circle_env circle_others circle_by_node circle_node"
  have "(\<exists>e. ?call = (Err e, circle_node)) \<or> (\<exists>res n'. ?call = (Ok res, n')
      \<and> net_ok circle_ends (n_id circle_node) (dom (n_peers circle_node)) n'
      \<and> result_between (nc_out_node circle_by_node) (nc_in_node circle_by_node) (nc_amount circle_by_node)
          (nc_max_ppm circle_by_node) res)"
  proof (rule by_node_answers [OF _ others peers])
    show "net_ok circle_ends (n_id circle_node) (dom (n_peers circle_node)) circle_node"
      unfolding id circle_dom by (rule circle_net_ok)
  qed (simp_all add: circle_by_node_def del: circle_node_simps)
  moreover have "nc_out_node circle_by_node = ''a''" "nc_in_node circle_by_node = ''b''"
    "nc_amount circle_by_node = 1000" "nc_max_ppm circle_by_node = 10" by (simp_all add: circle_by_node_def)
  ultimately show ?thesis by metis
qed

end
