(* ===== verification/Plugin.thy ===== *)
theory Plugin
  imports Interference
begin

text \<open>
  The surface of the plugin: the methods it registers with lightningd (\<^verbatim>\<open>cmd/circular/methods.go\<close>, and \<^verbatim>\<open>Name\<close> and \<^verbatim>\<open>New\<close> of
  every command), the notifications it subscribes to (\<^verbatim>\<open>cmd/circular/subscriptions.go\<close>), and the node that they reach
  through \<^verbatim>\<open>singleton/node.go\<close>. Reading requests, finding the method and decoding the parameters into the value that
  \<^verbatim>\<open>New\<close> gives is the work of the plugin library.
\<close>

section \<open>The node of the process\<close>

text \<open>\<^verbatim>\<open>GetNode\<close> before \<^verbatim>\<open>SetNode\<close> gives the interface \<^verbatim>\<open>nil\<close>, whose methods panic.\<close>

definition set_node :: "'d node \<Rightarrow> 'd node option" where
  "set_node n = Some n"

definition get_node :: "'d node option \<Rightarrow> 'd node res" where
  "get_node singleton = (case singleton of None \<Rightarrow> Panic | Some n \<Rightarrow> Ok n)"

section \<open>Notifications\<close>

datatype event =
    Send_pay_failed sendpay_failure
  | Send_pay_succeeded sendpay_success
  | Peer_connected string
  | Peer_disconnected string

text \<open>A failure whose update finds the channel of the updates full waits forever, after it has written the database.\<close>

fun on_event :: "'d library \<Rightarrow> event \<Rightarrow> 'd node \<Rightarrow> unit res \<times> 'd node" where
  "on_event B (Send_pay_failed sf) n = (case on_payment_failure B sf n of
     (n', None) \<Rightarrow> (Ok (), n') | (n', Some u) \<Rightarrow> (Hang, n'))"
| "on_event B (Send_pay_succeeded ss) n = (Ok (), on_payment_success B ss n)"
| "on_event B (Peer_connected i) n = (Ok (), on_connect i n)"
| "on_event B (Peer_disconnected i) n = (Ok (), on_disconnect i n)"

section \<open>Commands\<close>

datatype command =
    By_node by_node_command
  | By_scid by_scid_command
  | Pull pull
  | Push push
  | Get_stats
  | Delete_stats
  | Stop_circular
  | Resume_circular

text \<open>\<^verbatim>\<open>Name\<close> of every command.\<close>

definition by_node_name :: string where "by_node_name = ''circular-node''"
definition by_scid_name :: string where "by_scid_name = ''circular''"
definition pull_name :: string where "pull_name = ''circular-pull''"
definition push_name :: string where "push_name = ''circular-push''"
definition stats_name :: string where "stats_name = ''circular-stats''"
definition delete_stats_name :: string where "delete_stats_name = ''circular-delete-stats''"
definition stop_name :: string where "stop_name = ''circular-stop''"
definition resume_name :: string where "resume_name = ''circular-resume''"

lemmas name_defs = by_node_name_def by_scid_name_def pull_name_def push_name_def stats_name_def delete_stats_name_def stop_name_def resume_name_def

fun command_name :: "command \<Rightarrow> string" where
  "command_name (By_node c) = by_node_name"
| "command_name (By_scid c) = by_scid_name"
| "command_name (Pull c) = pull_name"
| "command_name (Push c) = push_name"
| "command_name Get_stats = stats_name"
| "command_name Delete_stats = delete_stats_name"
| "command_name Stop_circular = stop_name"
| "command_name Resume_circular = resume_name"

text \<open>What \<^verbatim>\<open>New\<close> gives: every field has the zero value of its type.\<close>

definition new_by_node :: command where
  "new_by_node = By_node \<lparr>nc_out_node = [], nc_in_node = [], nc_amount = 0, nc_max_ppm = 0, nc_attempts = 0, nc_max_hops = 0\<rparr>"

definition new_by_scid :: command where
  "new_by_scid = By_scid \<lparr>sc_out_scid = [], sc_in_scid = [], sc_amount = 0, sc_max_ppm = 0, sc_attempts = 0, sc_max_hops = 0\<rparr>"

definition new_pull :: command where
  "new_pull = Pull \<lparr>pl_in_scid = [], pl_out_list = None, pl_max_out_ppm = 0, pl_amount = 0, pl_max_ppm = 0, pl_splits = 0,
     pl_split_amount = 0, pl_deplete_percent = F64 0 0, pl_deplete_amount = 0, pl_attempts = 0, pl_max_hops = 0\<rparr>"

definition new_push :: command where
  "new_push = Push \<lparr>ps_out_scid = [], ps_in_list = None, ps_min_out_ppm = 0, ps_amount = 0, ps_max_ppm = 0, ps_splits = 0,
     ps_split_amount = 0, ps_attempts = 0, ps_max_hops = 0, ps_fill_percent = F64 0 0, ps_fill_amount = 0\<rparr>"

record rpc_method =
  rm_command :: command
  rm_desc :: string
  rm_long_desc :: string
  rm_category :: string

definition registered_methods :: "rpc_method list" where
  "registered_methods =
     [\<lparr>rm_command = new_by_node, rm_desc = ''Rebalance by NodeID'',
       rm_long_desc = ''Rebalance the node `innode` from the node `outnode` for amount `amount` for at most `maxppm`'',
       rm_category = ''utility''\<rparr>,
      \<lparr>rm_command = new_by_scid, rm_desc = ''Rebalance by Scid'',
       rm_long_desc = ''Rebalance the channel `inchannel` from the channel `outchannel` for amount `amount` for at most `maxppm`'',
       rm_category = ''utility''\<rparr>,
      \<lparr>rm_command = new_pull, rm_desc = ''Pull liquidity into a channel from many sources in parallel'',
       rm_long_desc = ''Rebalance the channel `inscid` from many channels concurrently'', rm_category = ''utility''\<rparr>,
      \<lparr>rm_command = new_push, rm_desc = ''Push liquidity out of a channel to many destinations in parallel'',
       rm_long_desc = ''Rebalance the channel `outscid` from many channels concurrently'', rm_category = ''utility''\<rparr>,
      \<lparr>rm_command = Get_stats, rm_desc = ''Get stats'',
       rm_long_desc = ''Get the stats of the usage of circular'', rm_category = ''utility''\<rparr>,
      \<lparr>rm_command = Delete_stats, rm_desc = ''Delete Stats'',
       rm_long_desc = ''Delete the stats of the usage of circular'', rm_category = ''utility''\<rparr>,
      \<lparr>rm_command = Stop_circular, rm_desc = ''Stop circular'',
       rm_long_desc = ''Stop future htlcs from being fired'', rm_category = ''utility''\<rparr>,
      \<lparr>rm_command = Resume_circular, rm_desc = ''Resume circular'',
       rm_long_desc = ''Resume activity after a stop command. Allows htlcs to be fired'', rm_category = ''utility''\<rparr>]"

datatype response =
    Rebalance_result result
  | Parallel_result par_result
  | Stats_result node_stats
  | Delete_result string
  | Message_result string

text \<open>No two methods have the same name, so every command is found under its own.\<close>

lemma registered_names: "distinct (map (\<lambda>m. command_name (rm_command m)) registered_methods)"
  by (simp add: registered_methods_def new_by_node_def new_by_scid_def new_pull_def new_push_def name_defs)

lemma command_found:
  "\<exists>m. find (\<lambda>m. command_name (rm_command m) = command_name c) registered_methods = Some m
     \<and> command_name (rm_command m) = command_name c"
  by (cases c) (simp_all add: registered_methods_def new_by_node_def new_by_scid_def new_pull_def new_push_def name_defs)

text \<open>What comes from outside while a command runs.\<close>

record 'd rpc_env =
  re_orders :: "nat \<Rightarrow> string list"
  re_attempts :: "nat \<Rightarrow> attempt_env"
  re_others :: "nat \<Rightarrow> 'd node \<Rightarrow> 'd node"
  re_call :: "'d call_env"
  re_nodes :: "string list"
  re_channels :: "string list"

definition parallel_response :: "'d node \<Rightarrow> (par_result \<times> 'd node) res \<Rightarrow> response res \<times> 'd node" where
  "parallel_response n out = (case out of
     Ok (res, n') \<Rightarrow> (Ok (Parallel_result res), n') | Err e \<Rightarrow> (Err e, n) | Panic \<Rightarrow> (Panic, n) | Hang \<Rightarrow> (Hang, n))"

definition stats_call :: "'d library \<Rightarrow> string list \<Rightarrow> string list \<Rightarrow> 'd node \<Rightarrow> response res \<times> 'd node" where
  "stats_call B ns ks n = (Ok (Stats_result (get_node_stats B ns ks n)), n)"

definition delete_stats_call :: "'d library \<Rightarrow> 'd node \<Rightarrow> response res \<times> 'd node" where
  "delete_stats_call B n = (let (status, n') = delete_stats B n in (Ok (Delete_result status), n'))"

fun call_command :: "'d library \<Rightarrow> 'd rpc_env \<Rightarrow> command \<Rightarrow> 'd node \<Rightarrow> (response res \<times> 'd node) option" where
  "call_command B env (By_node c) n =
     Some (apfst (\<lambda>r. go_bind r (\<lambda>res. Ok (Rebalance_result res)))
       (by_node_call B (re_orders env) (re_attempts env) (re_others env) c n))"
| "call_command B env (By_scid c) n =
     Some (apfst (\<lambda>r. go_bind r (\<lambda>res. Ok (Rebalance_result res)))
       (by_scid_call B (re_orders env) (re_attempts env) (re_others env) c n))"
| "call_command B env (Pull c) n = map_option (parallel_response n) (pull_call B (re_call env) c n)"
| "call_command B env (Push c) n = map_option (parallel_response n) (push_call B (re_call env) c n)"
| "call_command B env Get_stats n = Some (stats_call B (re_nodes env) (re_channels env) n)"
| "call_command B env Delete_stats n = Some (delete_stats_call B n)"
| "call_command B env Stop_circular n = Some (apfst (\<lambda>m. Ok (Message_result m)) (stop_call n))"
| "call_command B env Resume_circular n = Some (apfst (\<lambda>m. Ok (Message_result m)) (resume_call n))"

text \<open>The plugin library finds the method by its name and decodes the parameters, which may fail, into a new command.\<close>

definition serve ::
  "(command \<Rightarrow> 'p \<Rightarrow> command ext) \<Rightarrow> 'd library \<Rightarrow> 'd rpc_env \<Rightarrow> string \<Rightarrow> 'p \<Rightarrow> 'd node
     \<Rightarrow> (response res \<times> 'd node) option" where
  "serve decode B env name params n =
     (case find (\<lambda>m. command_name (rm_command m) = name) registered_methods of
        None \<Rightarrow> Some (Err (ErrForeign ''method not found''), n)
      | Some m \<Rightarrow> (case decode (rm_command m) params of
            Inl e \<Rightarrow> Some (Err e, n)
          | Inr c \<Rightarrow> call_command B env c n))"

lemma failed_step: "on_payment_failure B sf n = (n', u) \<Longrightarrow> plugin_step B ends me n n'"
  using failed [of B ends me n sf] by simp

lemma event_step: "plugin_step B ends me n (snd (on_event B ev n))"
  by (cases ev) (auto intro: plugin_step.intros simp: failed_step split: prod.split option.split)

section \<open>What a request may ask for\<close>

definition request_ok :: "(string \<Rightarrow> string \<times> string \<times> u64) \<Rightarrow> 'd node \<Rightarrow> command \<Rightarrow> bool" where
  "request_ok ends n c = (case c of
     By_node d \<Rightarrow> unat (nc_amount d) \<le> 2 ^ 30 \<and> nc_max_hops d \<le> 12 \<and> (\<forall>p \<in> ran (n_peers n). peer_channels p \<noteq> [])
   | By_scid d \<Rightarrow> unat (sc_amount d) \<le> 2 ^ 30 \<and> sc_max_hops d \<le> 12
       \<and> (\<forall>i. own_scid ends (n_id n) (sc_out_scid d) i \<longrightarrow> \<not> own_scid ends (n_id n) (sc_in_scid d) i)
   | Pull p \<Rightarrow> moderate_amounts (pl_amount p) (pl_split_amount p) (pl_max_hops p)
   | Push p \<Rightarrow> moderate_amounts (ps_amount p) (ps_split_amount p) (ps_max_hops p)
   | _ \<Rightarrow> True)"

text \<open>The other goroutines run the plugin's own operations.\<close>

definition rpc_env_ok ::
  "'d library \<Rightarrow> (string \<Rightarrow> string \<times> string \<times> u64) \<Rightarrow> string \<Rightarrow> 'd rpc_env \<Rightarrow> bool" where
  "rpc_env_ok B ends me env \<longleftrightarrow> plugin_others B ends me (re_others env)
     \<and> (\<forall>k. plugin_others B ends me (wk_others (ce_wakes (re_call env) k)))
     \<and> (\<forall>k n. (plugin_step B ends me)\<^sup>*\<^sup>* n (wk_after (ce_wakes (re_call env) k) n))"

text \<open>A response that answers a command, from node \<open>n\<close> to node \<open>n'\<close>.\<close>

fun answered :: "(string \<Rightarrow> string \<times> string \<times> u64) \<Rightarrow> 'd node \<Rightarrow> command \<Rightarrow> response \<Rightarrow> 'd node \<Rightarrow> bool" where
  "answered ends n (By_node d) (Rebalance_result res) n' \<longleftrightarrow>
     result_between (nc_out_node d) (nc_in_node d) (nc_amount d) (nc_max_ppm d) res"
| "answered ends n (By_scid d) (Rebalance_result res) n' \<longleftrightarrow>
     (\<exists>i j. own_scid ends (n_id n) (sc_out_scid d) i \<and> own_scid ends (n_id n) (sc_in_scid d) j
        \<and> result_between i j (sc_amount d) (sc_max_ppm d) res)"
| "answered ends n (Pull p) (Parallel_result res) n' \<longleftrightarrow>
     pt_target res = or_default (pl_amount p) PAR_AMOUNT \<and> unat (pt_rebalanced res) \<le> unat (pt_target res)
       \<and> success_total res = pt_rebalanced res \<and> rates_within (or_default (pl_max_ppm p) DEFAULT_MAXPPM) res"
| "answered ends n (Push p) (Parallel_result res) n' \<longleftrightarrow>
     pt_target res = or_default (ps_amount p) PAR_AMOUNT \<and> unat (pt_rebalanced res) \<le> unat (pt_target res)
       \<and> success_total res = pt_rebalanced res \<and> rates_within (or_default (ps_max_ppm p) DEFAULT_MAXPPM) res"
| "answered ends n Get_stats (Stats_result s) n' \<longleftrightarrow> n' = n"
| "answered ends n Delete_stats (Delete_result status) n' \<longleftrightarrow> (status = ''success'' \<or> status = ''failure'') \<and> db_only n n'"
| "answered ends n Stop_circular (Message_result m) n' \<longleftrightarrow> n_stopped n'"
| "answered ends n Resume_circular (Message_result m) n' \<longleftrightarrow> \<not> n_stopped n'"
| "answered ends n c r n' \<longleftrightarrow> False"

text \<open>The commands that search for candidates, when a writer of the peers announces itself during the search.\<close>

fun search_hangs :: "'d call_env \<Rightarrow> 'd node \<Rightarrow> command \<Rightarrow> bool" where
  "search_hangs env n (Pull p) \<longleftrightarrow> writer_met (ce_writer env) n"
| "search_hangs env n (Push p) \<longleftrightarrow> writer_met (ce_writer env) n"
| "search_hangs env n c \<longleftrightarrow> False"

section \<open>What a command comes to\<close>

lemma call_returns:
  assumes "net_ok ends (n_id n) (dom (n_peers n)) n" and "rpc_env_ok B ends (n_id n) env" and "request_ok ends n c"
  shows "\<exists>r n'. call_command B env c n = Some (r, n') \<and> net_ok ends (n_id n) (dom (n_peers n)) n'
    \<and> ((\<exists>e. r = Err e \<and> n' = n) \<or> r = Hang \<and> n' = n \<and> search_hangs (re_call env) n c
       \<or> (\<exists>x. r = Ok x \<and> answered ends n c x n'))"
proof -
  let ?keep = "net_ok ends (n_id n) (dom (n_peers n))"
  have others: "others_keep ?keep (re_others env)" and call: "call_ok ends (re_call env) n"
    using assms(1,2) plugin_others_keep plugin_call_ok unfolding rpc_env_ok_def by blast+
  show ?thesis
  proof (cases c)
    case (By_node d)
    have "peer_channels p \<noteq> []" if "n_peers n i = Some p" for i p
      using assms(3) By_node ranI [of "n_peers n" i p] that by (simp add: request_ok_def)
    then show ?thesis
      using by_node_returns [OF assms(1) others, of d B "re_orders env" "re_attempts env"] assms(1,3) By_node
      by (auto simp: request_ok_def)
  next
    case (By_scid d)
    then show ?thesis
      using by_scid_returns [OF assms(1) others, of d B "re_orders env" "re_attempts env"] assms(1,3)
      by (fastforce simp: request_ok_def)
  next
    case (Pull p)
    then show ?thesis
      using pull_outcome [OF call, of p B] assms(1,3) by (auto simp: request_ok_def parallel_response_def)
  next
    case (Push p)
    then show ?thesis
      using push_outcome [OF call, of p B] assms(1,3) by (auto simp: request_ok_def parallel_response_def)
  next
    case Get_stats
    then show ?thesis using assms(1) by (simp add: stats_call_def)
  next
    case Delete_stats
    then show ?thesis
      using net_ok_db [OF assms(1) db_only_delete_stats [of n B]] db_only_delete_stats [of n B] delete_stats_status [of B n]
      by (auto simp: delete_stats_call_def split_def)
  next
    case Stop_circular
    then show ?thesis using net_ok_set_stopped [OF assms(1)] by (simp add: stop_call_def set_stopped_def)
  next
    case Resume_circular
    then show ?thesis using net_ok_set_stopped [OF assms(1)] by (simp add: resume_call_def set_stopped_def)
  qed
qed

section \<open>Properties\<close>

text \<open>C9. What a request comes to, for every name and all parameters, while the rest of the plugin runs any sequence of its
  own operations: an error that leaves the node as it was; or a response of the method that was named, which keeps to the
  parameters (the nodes and channels, the amount and the fee rate that were asked for, or their defaults); or, only for
  a pull or push during whose search for candidates a writer of the peers announces itself, the deadlock of that search
  (C15). In each case the node keeps the invariant. Conditions, without which a request can panic or hang: amounts
  of at most \<open>2 ^ 30\<close> sats by node and by channel, below \<open>2 ^ 50\<close> sats with splits of at most \<open>2 ^ 30\<close> sats for pull and push
  (C36), and at most 12 hops; every peer we know has a channel with us (C40); a rebalance by channel is not between two
  channels of one peer (C35); no other search for candidates is in its deadlock, so that every other lock becomes free
  again (C10). Of the gossip it is assumed that fees fit the u32 of BOLT 7, which they do.\<close>

theorem rpc_answers:
  assumes "net_ok ends (n_id n) (dom (n_peers n)) n" and "rpc_env_ok B ends (n_id n) env"
    and "\<forall>c c'. decode c params = Inr c' \<longrightarrow> command_name c' = command_name c \<and> request_ok ends n c'"
  shows "\<exists>r n'. serve decode B env name params n = Some (r, n') \<and> net_ok ends (n_id n) (dom (n_peers n)) n'
    \<and> ((\<exists>e. r = Err e \<and> n' = n)
       \<or> (\<exists>x c. r = Ok x \<and> command_name c = name \<and> answered ends n c x n')
       \<or> (\<exists>c. r = Hang \<and> n' = n \<and> command_name c = name \<and> search_hangs (re_call env) n c))"
proof (cases "find (\<lambda>m. command_name (rm_command m) = name) registered_methods")
  case None
  then show ?thesis using assms(1) by (simp add: serve_def)
next
  case (Some m)
  then have name: "command_name (rm_command m) = name" using find_SomeD by fast
  show ?thesis
  proof (cases "decode (rm_command m) params")
    case (Inl e)
    then show ?thesis using Some assms(1) by (simp add: serve_def)
  next
    case (Inr c)
    then have "command_name c = name" "request_ok ends n c" using assms(3) name by auto
    then show ?thesis using call_returns [OF assms(1,2)] Some Inr by (fastforce simp: serve_def)
  qed
qed

text \<open>The witness asks the circle of two peers for a rebalance by node and for a pull, while peer b disconnects.\<close>

definition circle_rpc_env :: "(string \<times> string) list rpc_env" where
  "circle_rpc_env = \<lparr>re_orders = \<lambda>_. [''a'', ''b''], re_attempts = circle_env, re_others = circle_others,
     re_call = circle_call_env, re_nodes = [''a'', ''b'', ''u''], re_channels = []\<rparr>"

definition circle_decode :: "command \<Rightarrow> unit \<Rightarrow> command ext" where
  "circle_decode c params = (case c of
     By_node d \<Rightarrow> Inr (By_node circle_by_node) | Pull p \<Rightarrow> Inr (Pull circle_pull) | _ \<Rightarrow> Inl (ErrForeign ''parameters''))"

lemma circle_request:
  "net_ok circle_ends (n_id circle_node) (dom (n_peers circle_node)) circle_node"
  "rpc_env_ok map_library circle_ends (n_id circle_node) circle_rpc_env"
  "circle_decode c params = Inr c' \<Longrightarrow> command_name c' = command_name c \<and> request_ok circle_ends circle_node c'"
proof -
  show "net_ok circle_ends (n_id circle_node) (dom (n_peers circle_node)) circle_node"
    unfolding circle_node_simps(1) circle_dom by (rule circle_net_ok)
  show "rpc_env_ok map_library circle_ends (n_id circle_node) circle_rpc_env"
    by (auto simp: rpc_env_ok_def plugin_others_def circle_rpc_env_def circle_others_def circle_call_env_def intro: disconnected)
  show "command_name c' = command_name c \<and> request_ok circle_ends circle_node c'" if "circle_decode c params = Inr c'"
    using that circle_pull_moderate(1)
    by (auto simp: circle_decode_def request_ok_def circle_by_node_def ran_def circle_peer_def split: command.splits if_splits)
qed

theorem rpc_answers_witness:
  "(\<exists>r n' c. serve circle_decode map_library circle_rpc_env by_node_name () circle_node = Some (r, n')
      \<and> ((\<exists>e. r = Err e \<and> n' = circle_node) \<or> (\<exists>x. r = Ok x \<and> command_name c = by_node_name \<and> answered circle_ends circle_node c x n')))
   \<and> (\<exists>r n' c. serve circle_decode map_library circle_rpc_env pull_name () circle_node = Some (r, n')
      \<and> ((\<exists>e. r = Err e \<and> n' = circle_node) \<or> (\<exists>x. r = Ok x \<and> command_name c = pull_name \<and> answered circle_ends circle_node c x n')))"
proof -
  have "\<forall>c c'. circle_decode c () = Inr c' \<longrightarrow> command_name c' = command_name c \<and> request_ok circle_ends circle_node c'"
    using circle_request(3) by blast
  note answers = rpc_answers [where decode = circle_decode and params = "()", OF circle_request(1,2) this]
  have "\<not> search_hangs (re_call circle_rpc_env) circle_node c" for c
    by (cases c) (simp_all add: circle_rpc_env_def circle_call_env_def writer_met_def)
  then show ?thesis using answers [of by_node_name] answers [of pull_name] by blast
qed

end
