(* ===== verification/Boot.thy ===== *)
theory Boot
  imports GraphFile
begin

text \<open>
  How the plugin comes up: \<^verbatim>\<open>cmd/circular/options.go\<close>, \<^verbatim>\<open>onInit\<close> of \<^verbatim>\<open>cmd/circular/main.go\<close>, the whole of \<^verbatim>\<open>Init\<close> in
  \<^verbatim>\<open>node/node.go\<close>, \<^verbatim>\<open>setupCronJobs\<close> of \<^verbatim>\<open>node/cron.go\<close> and \<^verbatim>\<open>startWebsocket\<close>. The plugin library keeps the options and
  gives them to \<^verbatim>\<open>onInit\<close>; the node looks them up by name and asserts their types, which panics when a name or a
  type differs from the registered one. Which calls into libraries and the operating system fail is an argument.
\<close>

section \<open>Options\<close>

datatype option_value = Int_option int | Bool_option bool | String_option string

record option_decl =
  od_name :: string
  od_description :: string
  od_default :: option_value

definition DEFAULT_GRAPH_REFRESH_INTERVAL :: int where "DEFAULT_GRAPH_REFRESH_INTERVAL = 10"
definition DEFAULT_PEER_REFRESH_INTERVAL :: int where "DEFAULT_PEER_REFRESH_INTERVAL = 30"
definition DEFAULT_LIQUIDITY_RESET_INTERVAL :: int where "DEFAULT_LIQUIDITY_RESET_INTERVAL = 300"
definition OptionWebSocketEndpoint :: string where "OptionWebSocketEndpoint = ''circular-websocket''"
definition DefaultWebSocketEndpoint :: string where "DefaultWebSocketEndpoint = ''0.0.0.0:8222''"
definition LIQUIDITY_REFRESH_INTERVAL :: int where "LIQUIDITY_REFRESH_INTERVAL = 10"

text \<open>Each option with the name that the fatal error of its registration shows: the fourth shows a wrong one, and the third another.\<close>

definition registered_options :: "(option_decl \<times> string) list" where
  "registered_options =
     [(\<lparr>od_name = ''circular-graph-refresh'', od_description = ''How often the gossip graph gets refreshed (minutes)'',
        od_default = Int_option DEFAULT_GRAPH_REFRESH_INTERVAL\<rparr>, ''circular-graph-refresh''),
      (\<lparr>od_name = ''circular-peer-refresh'', od_description = ''How often the peer list gets refreshed (seconds)'',
        od_default = Int_option DEFAULT_PEER_REFRESH_INTERVAL\<rparr>, ''circular-peer-refresh''),
      (\<lparr>od_name = ''circular-liquidity-refresh'',
        od_description = ''The period of time after which the liquidity is reset (minutes)'',
        od_default = Int_option DEFAULT_LIQUIDITY_RESET_INTERVAL\<rparr>, ''circular-liquidity-reset''),
      (\<lparr>od_name = ''circular-save-stats'', od_description = ''Whether circular should save stats in the database'',
        od_default = Bool_option True\<rparr>, ''circular-liquidity-reset''),
      (\<lparr>od_name = OptionWebSocketEndpoint,
        od_description = ''Endpoint on which circular should expose its WebSocket; set empty to disable'',
        od_default = String_option DefaultWebSocketEndpoint\<rparr>, OptionWebSocketEndpoint)]"

text \<open>\<open>fails\<close> gives the error with which the library refuses an option.\<close>

fun register_options :: "(string \<Rightarrow> string option) \<Rightarrow> (option_decl \<times> string) list \<Rightarrow> option_decl list start" where
  "register_options fails [] = Started []"
| "register_options fails ((d, shown) # ds) = (case fails (od_name d) of
     Some e \<Rightarrow> Fatal (''error registering option '' @ shown @ '': '' @ e)
   | None \<Rightarrow> (case register_options fails ds of Fatal m \<Rightarrow> Fatal m | Started l \<Rightarrow> Started (d # l)))"

type_synonym options = "string \<rightharpoonup> option_value"

text \<open>\<^verbatim>\<open>options[name].GetValue().(int)\<close>: a missing option is a nil interface, a value of another type fails the assertion.\<close>

definition int_option :: "options \<Rightarrow> string \<Rightarrow> int res" where
  "int_option opts name = (case opts name of Some (Int_option i) \<Rightarrow> Ok i | _ \<Rightarrow> Panic)"

definition bool_option :: "options \<Rightarrow> string \<Rightarrow> bool res" where
  "bool_option opts name = (case opts name of Some (Bool_option b) \<Rightarrow> Ok b | _ \<Rightarrow> Panic)"

definition string_option :: "options \<Rightarrow> string \<Rightarrow> string res" where
  "string_option opts name = (case opts name of Some (String_option s) \<Rightarrow> Ok s | _ \<Rightarrow> Panic)"

section \<open>The start of the node\<close>

text \<open>The minutes after which liquidity is reset, and whether statistics are saved.\<close>

definition set_options :: "options \<Rightarrow> (int \<times> bool) res" where
  "set_options opts =
     go_bind (int_option opts ''circular-liquidity-refresh'') (\<lambda>minutes.
     go_bind (bool_option opts ''circular-save-stats'') (\<lambda>save. Ok (minutes, save)))"

definition start_bind :: "'a start res \<Rightarrow> ('a \<Rightarrow> 'b start res) \<Rightarrow> 'b start res" where
  "start_bind s f = go_bind s (\<lambda>st. case st of Fatal m \<Rightarrow> Ok (Fatal m) | Started x \<Rightarrow> f x)"

datatype cron_job = Refresh_graph_job | Refresh_peers_job | Refresh_liquidity_job

text \<open>\<open>refused\<close> gives the error of the cron library for a schedule it cannot parse.\<close>

definition add_cron_job :: "(string \<Rightarrow> string option) \<Rightarrow> string \<Rightarrow> cron_job \<Rightarrow> (string \<times> cron_job) start res" where
  "add_cron_job refused interval job = (case refused (''@every '' @ interval) of
     Some e \<Rightarrow> Ok (Fatal (''error adding cron job '' @ e))
   | None \<Rightarrow> Ok (Started (''@every '' @ interval, job)))"

definition setup_cron_jobs :: "(string \<Rightarrow> string option) \<Rightarrow> options \<Rightarrow> (string \<times> cron_job) list start res" where
  "setup_cron_jobs refused opts =
     go_bind (int_option opts ''circular-graph-refresh'') (\<lambda>graph_minutes.
     start_bind (add_cron_job refused (itoa graph_minutes @ ''m'') Refresh_graph_job) (\<lambda>j1.
     go_bind (int_option opts ''circular-peer-refresh'') (\<lambda>peer_seconds.
     start_bind (add_cron_job refused (itoa peer_seconds @ ''s'') Refresh_peers_job) (\<lambda>j2.
     start_bind (add_cron_job refused (itoa LIQUIDITY_REFRESH_INTERVAL @ ''m'') Refresh_liquidity_job) (\<lambda>j3.
       Ok (Started [j1, j2, j3]))))))"

text \<open>The endpoint on which the HTTP server listens, if any.\<close>

definition start_websocket :: "options \<Rightarrow> string option start res" where
  "start_websocket opts =
     go_bind (string_option opts OptionWebSocketEndpoint) (\<lambda>endpoint.
       Ok (Started (if endpoint = [] then None else Some endpoint)))"

text \<open>\<^verbatim>\<open>NewDB\<close>. Until it returns the node has no database, which is the node with a database of type \<^typ>\<open>unit\<close>.\<close>

definition new_db :: "(string \<Rightarrow> 'd ext) \<Rightarrow> string \<Rightarrow> 'd start res" where
  "new_db open_db path = (case open_db path of
     Inl e \<Rightarrow> Ok (Fatal (''Error opening database: '' @ error_text e @ newline))
   | Inr db \<Rightarrow> Ok (Started db))"

definition with_database :: "'d \<Rightarrow> unit node \<Rightarrow> 'd node" where
  "with_database db n =
     \<lparr>n_id = n_id n, n_stopped = n_stopped n, n_save_stats = n_save_stats n, n_liquidity_refresh = n_liquidity_refresh n,
      n_peers = n_peers n, n_graph = n_graph n, n_db = db, n_updates = n_updates n\<rparr>"

record 'd boot_env =
  be_graph :: init_env
  be_open_db :: "string \<Rightarrow> 'd ext"
  be_cron :: "string \<Rightarrow> string option"
  be_mkdir :: "string option"
  be_stderr :: "string option"
  be_startup :: "string option"
  be_unix :: int

record 'd running =
  ru_node :: "'d node"
  ru_files :: files
  ru_jobs :: "(string \<times> cron_job) list"
  ru_endpoint :: "string option"

definition init ::
  "(graph \<Rightarrow> string ext) \<Rightarrow> (string \<Rightarrow> graph ext) \<Rightarrow> (graph \<Rightarrow> string list) \<Rightarrow> options \<Rightarrow> string
     \<Rightarrow> 'd boot_env \<Rightarrow> files \<Rightarrow> 'd running start res" where
  "init enc decode ks opts lightning_dir env fs =
     go_bind (set_options opts) (\<lambda>(minutes, save).
     start_bind (Ok (node_init enc decode ks lightning_dir save minutes () (be_graph env) fs)) (\<lambda>(n, fs).
     start_bind (new_db (be_open_db env) (lightning_dir @ ''/'' @ CIRCULAR_DIR)) (\<lambda>db.
     start_bind (setup_cron_jobs (be_cron env) opts) (\<lambda>jobs.
     start_bind (start_websocket opts) (\<lambda>endpoint.
       Ok (Started \<lparr>ru_node = with_database db n, ru_files = fs, ru_jobs = jobs, ru_endpoint = endpoint\<rparr>))))))"

section \<open>The start of the plugin\<close>

text \<open>\<^verbatim>\<open>os.O_CREATE\<close> without truncation: a file that exists is kept.\<close>

definition create_file :: "string \<Rightarrow> files \<Rightarrow> files" where
  "create_file p fs = (if contents fs p = None then write_file p [] fs else fs)"

definition redirect_stderr :: "'d boot_env \<Rightarrow> string \<Rightarrow> files \<Rightarrow> files start res" where
  "redirect_stderr env dir fs = (case be_stderr env of
     Some e \<Rightarrow> Ok (Fatal e)
   | None \<Rightarrow> Ok (Started (create_file (dir @ ''/'' @ ''stderr-'' @ itoa (be_unix env) @ ''.log'') fs)))"

definition make_dir :: "'d boot_env \<Rightarrow> string \<Rightarrow> files \<Rightarrow> files start res" where
  "make_dir env dir fs =
     (if dir \<in> dirs fs then Ok (Started fs)
      else case be_mkdir env of
             Some e \<Rightarrow> Ok (Fatal e)
           | None \<Rightarrow> Ok (Started (fs\<lparr>dirs := insert dir (dirs fs)\<rparr>)))"

text \<open>\<^verbatim>\<open>Fatalln\<close> puts a space between its operands.\<close>

definition start_up :: "'d boot_env \<Rightarrow> unit start res" where
  "start_up env = (case be_startup env of
     Some e \<Rightarrow> Ok (Fatal (''error starting plugin:  '' @ e))
   | None \<Rightarrow> Ok (Started ()))"

definition on_init ::
  "(graph \<Rightarrow> string ext) \<Rightarrow> (string \<Rightarrow> graph ext) \<Rightarrow> (graph \<Rightarrow> string list) \<Rightarrow> options \<Rightarrow> string
     \<Rightarrow> 'd boot_env \<Rightarrow> files \<Rightarrow> 'd running start res" where
  "on_init enc decode ks opts lightning_dir env fs =
     (let dir = lightning_dir @ ''/'' @ CIRCULAR_DIR
      in start_bind (make_dir env dir fs) (\<lambda>fs.
         start_bind (redirect_stderr env dir fs) (\<lambda>fs.
         start_bind (start_up env) (\<lambda>_.
           init enc decode ks opts lightning_dir env fs))))"

section \<open>Facts about the start\<close>

lemma start_bind_simps [simp]:
  "start_bind (Ok (Started x)) f = f x" "start_bind (Ok (Fatal m)) f = Ok (Fatal m)"
  by (simp_all add: start_bind_def)

lemma start_bind_Started:
  "start_bind s f = Ok (Started y) \<longleftrightarrow> (\<exists>x. s = Ok (Started x) \<and> f x = Ok (Started y))"
  by (cases s) (auto simp: start_bind_def split: start.split)

text \<open>A start that returns, with a node or with a fatal error.\<close>

definition comes_up :: "'a start res \<Rightarrow> bool" where
  "comes_up s \<longleftrightarrow> (\<exists>out. s = Ok out)"

lemma comes_up_Ok [simp]: "comes_up (Ok out)"
  by (simp add: comes_up_def)

lemma comes_up_bind: "comes_up s \<Longrightarrow> (\<And>x. comes_up (f x)) \<Longrightarrow> comes_up (start_bind s f)"
  by (auto simp: comes_up_def start_bind_def split: start.split)

lemma comes_up_steps [simp]:
  "comes_up (make_dir env dir fs)" "comes_up (redirect_stderr env dir fs)" "comes_up (start_up env)"
  "comes_up (new_db open_db path)" "comes_up (add_cron_job refused interval job)"
  by (simp_all add: make_dir_def redirect_stderr_def start_up_def new_db_def add_cron_job_def split: option.split sum.split)

definition scheduled :: "int \<Rightarrow> int \<Rightarrow> (string \<times> cron_job) list" where
  "scheduled graph_minutes peer_seconds =
     [(''@every '' @ itoa graph_minutes @ ''m'', Refresh_graph_job), (''@every '' @ itoa peer_seconds @ ''s'', Refresh_peers_job),
      (''@every '' @ itoa LIQUIDITY_REFRESH_INTERVAL @ ''m'', Refresh_liquidity_job)]"

definition honours :: "options \<Rightarrow> 'd running \<Rightarrow> bool" where
  "honours opts r \<longleftrightarrow> (\<exists>gm ps lm. opts ''circular-graph-refresh'' = Some (Int_option gm)
     \<and> opts ''circular-peer-refresh'' = Some (Int_option ps) \<and> ru_jobs r = scheduled gm ps
     \<and> opts ''circular-liquidity-refresh'' = Some (Int_option lm) \<and> n_liquidity_refresh (ru_node r) = lm * 60
     \<and> opts ''circular-save-stats'' = Some (Bool_option (n_save_stats (ru_node r))))"

text \<open>The values that the library hands over have the types with which the options were registered.\<close>

fun same_type :: "option_value \<Rightarrow> option_value \<Rightarrow> bool" where
  "same_type (Int_option i) (Int_option j) \<longleftrightarrow> True"
| "same_type (Bool_option i) (Bool_option j) \<longleftrightarrow> True"
| "same_type (String_option i) (String_option j) \<longleftrightarrow> True"
| "same_type v w \<longleftrightarrow> False"

definition options_typed :: "option_decl list \<Rightarrow> options \<Rightarrow> bool" where
  "options_typed ds opts \<longleftrightarrow> (\<forall>d \<in> set ds. \<exists>v. opts (od_name d) = Some v \<and> same_type v (od_default d))"

lemma register_options_Started: "register_options fails l = Started ds \<Longrightarrow> ds = map fst l"
  by (induction fails l arbitrary: ds rule: register_options.induct) (auto split: option.splits start.splits)

lemma same_type_cases:
  "same_type v (Int_option j) \<longleftrightarrow> (\<exists>i. v = Int_option i)" "same_type v (Bool_option b) \<longleftrightarrow> (\<exists>b. v = Bool_option b)"
  "same_type v (String_option s) \<longleftrightarrow> (\<exists>s. v = String_option s)"
  by (cases v; simp)+

lemma options_read:
  assumes "options_typed (map fst registered_options) opts"
  obtains gm ps lm ss ep where "opts ''circular-graph-refresh'' = Some (Int_option gm)"
    and "opts ''circular-peer-refresh'' = Some (Int_option ps)" and "opts ''circular-liquidity-refresh'' = Some (Int_option lm)"
    and "opts ''circular-save-stats'' = Some (Bool_option ss)" and "opts OptionWebSocketEndpoint = Some (String_option ep)"
  using assms by (auto simp: options_typed_def registered_options_def same_type_cases)

lemma setup_cron_jobs_jobs:
  "setup_cron_jobs refused opts = Ok (Started jobs) \<Longrightarrow> \<exists>gm ps. opts ''circular-graph-refresh'' = Some (Int_option gm)
     \<and> opts ''circular-peer-refresh'' = Some (Int_option ps) \<and> jobs = scheduled gm ps"
  by (auto simp: setup_cron_jobs_def start_bind_Started add_cron_job_def go_bind_eq_Ok int_option_def scheduled_def
      split: option.splits option_value.splits)

lemma set_options_values:
  "set_options opts = Ok (minutes, save) \<Longrightarrow> opts ''circular-liquidity-refresh'' = Some (Int_option minutes)
     \<and> opts ''circular-save-stats'' = Some (Bool_option save)"
  by (auto simp: set_options_def go_bind_eq_Ok int_option_def bool_option_def split: option.splits option_value.splits)

lemma node_init_settings:
  "node_init enc decode ks dir save minutes db env fs = Started (n, fs') \<Longrightarrow>
     n_save_stats n = save \<and> n_liquidity_refresh n = minutes * 60"
  by (auto simp: node_init_def refresh_graph_def refresh_peers_job_def refresh_peers_def new_node_def Let_def
      split: sum.splits start.splits prod.splits if_splits)

lemma init_honours: "init enc decode ks opts lightning_dir env fs = Ok (Started r) \<Longrightarrow> honours opts r"
  by (auto simp: init_def honours_def start_bind_Started go_bind_eq_Ok with_database_def
      dest!: setup_cron_jobs_jobs set_options_values node_init_settings)

lemma on_init_honours: "on_init enc decode ks opts lightning_dir env fs = Ok (Started r) \<Longrightarrow> honours opts r"
  by (auto simp: on_init_def Let_def start_bind_Started intro: init_honours)

section \<open>Properties\<close>

text \<open>C23. The options are well-typed: the plugin reads only options that it registers, each with the type it was
  registered with. So whatever values the user gives, and whatever fails on the way, the start never panics: it ends
  with a fatal error or with a running node. A running node keeps to the options: its three jobs run at the
  intervals that were asked for, liquidity is reset after the minutes that were asked for, and statistics are saved if
  that was asked for.\<close>

theorem start_type_safe:
  assumes "register_options fails registered_options = Started ds" and "options_typed ds opts"
  shows "\<exists>out. on_init enc decode ks opts lightning_dir env fs = Ok out \<and> (\<forall>r. out = Started r \<longrightarrow> honours opts r)"
proof -
  have "options_typed (map fst registered_options) opts" using assms register_options_Started by blast
  then obtain gm ps lm ss ep where opts: "opts ''circular-graph-refresh'' = Some (Int_option gm)"
    "opts ''circular-peer-refresh'' = Some (Int_option ps)" "opts ''circular-liquidity-refresh'' = Some (Int_option lm)"
    "opts ''circular-save-stats'' = Some (Bool_option ss)" "opts OptionWebSocketEndpoint = Some (String_option ep)"
    by (rule options_read)
  have "comes_up (setup_cron_jobs refused opts)" for refused
    by (simp add: setup_cron_jobs_def int_option_def opts comes_up_bind)
  moreover have "comes_up (start_websocket opts)" by (simp add: start_websocket_def string_option_def opts)
  ultimately have "comes_up (init enc decode ks opts lightning_dir env fs)" for fs
    by (auto simp: init_def set_options_def int_option_def bool_option_def opts intro!: comes_up_bind)
  then have "comes_up (on_init enc decode ks opts lightning_dir env fs)"
    unfolding on_init_def Let_def by (intro comes_up_bind) simp_all
  then obtain out where out: "on_init enc decode ks opts lightning_dir env fs = Ok out" by (auto simp: comes_up_def)
  have "honours opts r" if "out = Started r" for r
    using out that on_init_honours by blast
  then show ?thesis using out by blast
qed

definition default_options :: options where
  "default_options = map_of (map (\<lambda>(d, shown). (od_name d, od_default d)) registered_options)"

definition sample_boot :: "(string \<times> string) list boot_env" where
  "sample_boot = \<lparr>be_graph = \<lparr>ie_info = Inr ''u'', ie_channels = Inr [], ie_nodes = Inr [], ie_peers = Inr [],
       ie_prune = \<lambda>g. [], ie_now = 0, ie_faults = no_faults\<rparr>,
     be_open_db = \<lambda>path. Inr [], be_cron = \<lambda>interval. None, be_mkdir = None, be_stderr = None, be_startup = None, be_unix = 7\<rparr>"

lemma default_options_typed: "options_typed (map fst registered_options) default_options"
  by (simp add: options_typed_def default_options_def registered_options_def OptionWebSocketEndpoint_def)

definition no_files :: files where
  "no_files = \<lparr>dirs = {}, contents = Map.empty\<rparr>"

lemma default_option_values:
  "default_options ''circular-graph-refresh'' = Some (Int_option 10)"
  "default_options ''circular-peer-refresh'' = Some (Int_option 30)"
  "default_options ''circular-liquidity-refresh'' = Some (Int_option 300)"
  "default_options ''circular-save-stats'' = Some (Bool_option True)"
  "default_options ''circular-websocket'' = Some (String_option ''0.0.0.0:8222'')"
  by (simp_all add: default_options_def registered_options_def OptionWebSocketEndpoint_def DefaultWebSocketEndpoint_def
      DEFAULT_GRAPH_REFRESH_INTERVAL_def DEFAULT_PEER_REFRESH_INTERVAL_def DEFAULT_LIQUIDITY_RESET_INTERVAL_def)

lemma sample_boot_starts:
  assumes "enc new_graph = Inr json"
  shows "\<exists>r. on_init enc decode (\<lambda>g. []) default_options ''d'' sample_boot no_files = Ok (Started r)"
proof -
  have "refresh_aliases [] (prune_channels [] 0 (refresh_channels [] new_graph)) = new_graph"
    by (simp add: refresh_aliases_def prune_channels_def refresh_channels_def)
  then show ?thesis
    by (simp add: on_init_def make_dir_def redirect_stderr_def start_up_def init_def set_options_def int_option_def bool_option_def
        string_option_def default_option_values sample_boot_def no_files_def node_init_def load_graph_from_file_def create_file_def write_file_def
        CIRCULAR_DIR_def FILE_def get_graph_from_file_def refresh_graph_def new_node_def save_graph_to_file_def
        serialize_to_file_def no_faults_def refresh_peers_job_def new_db_def setup_cron_jobs_def add_cron_job_def
        start_websocket_def OptionWebSocketEndpoint_def Let_def assms)
qed

theorem start_type_safe_witness:
  "\<exists>r. on_init (\<lambda>g. Inr ''json'') (\<lambda>s. Inl (ErrForeign ''json'')) (\<lambda>g. []) default_options ''d'' sample_boot no_files = Ok (Started r)
    \<and> ru_jobs r = [(''@every 10m'', Refresh_graph_job), (''@every 30s'', Refresh_peers_job), (''@every 10m'', Refresh_liquidity_job)]
    \<and> n_liquidity_refresh (ru_node r) = 18000 \<and> n_save_stats (ru_node r)"
proof -
  let ?boot = "on_init (\<lambda>g. Inr ''json'') (\<lambda>s. Inl (ErrForeign ''json'')) (\<lambda>g. []) default_options ''d'' sample_boot no_files"
  have "register_options (\<lambda>name. None) registered_options = Started (map fst registered_options)"
    by (simp add: registered_options_def)
  from start_type_safe [OF this default_options_typed] obtain out where "?boot = Ok out"
    "\<forall>r. out = Started r \<longrightarrow> honours default_options r"
    by blast
  moreover have "\<exists>r. ?boot = Ok (Started r)" by (rule sample_boot_starts) simp
  ultimately obtain r where "?boot = Ok (Started r)" "honours default_options r" by auto
  moreover have "itoa 10 = ''10''" "itoa 30 = ''30''" by (simp_all add: itoa_def dec.simps digit_chars del: One_nat_def)
  ultimately show ?thesis
    by (intro exI [of _ r])
      (simp add: honours_def default_option_values scheduled_def LIQUIDITY_REFRESH_INTERVAL_def)
qed

end
