(* ===== verification/Lifetimes.thy ===== *)
theory Lifetimes
  imports Plugin Boot
begin

text \<open>
  The plugin over its whole life: it starts, runs its operations in any order, answers requests, saves the graph, may die at any
  moment, also in the middle of a save, and is started again on the files it left. The invariant of the node on which
  the theorems about rebalances, pull and push rest holds in every state of every life. Refreshes of the graph may overlap as
  far as the graph in memory is concerned, but the saves to the file come one after another; \<open>SaveRace\<close> shows what two saves at
  once can do.
\<close>

section \<open>The process\<close>

text \<open>What \<^verbatim>\<open>main\<close> registers before it starts to serve; \<open>refused\<close> and \<open>start\<close> are the errors of the plugin library.\<close>

record manifest =
  mf_options :: "option_decl list"
  mf_methods :: "rpc_method list"
  mf_subscriptions :: "string list"
  mf_hooks :: "string list"

definition registered_subscriptions :: "string list" where
  "registered_subscriptions = [''sendpay_failure'', ''sendpay_success'', ''connect'', ''disconnect'']"

definition registered_hooks :: "string list" where
  "registered_hooks = [''htlc_accepted'']"

definition plugin_main :: "(string \<Rightarrow> string option) \<Rightarrow> string option \<Rightarrow> manifest start" where
  "plugin_main refused start = (case register_options refused registered_options of
     Fatal m \<Rightarrow> Fatal m
   | Started ds \<Rightarrow> (case start of
       Some e \<Rightarrow> Fatal e
     | None \<Rightarrow> Started \<lparr>mf_options = ds, mf_methods = registered_methods, mf_subscriptions = registered_subscriptions,
                         mf_hooks = registered_hooks\<rparr>))"

section \<open>Lives\<close>

text \<open>
  The working directory of a plugin is the directory of lightningd, so the relative path to which the graph is saved and
  the absolute one from which it is loaded name the same file.
\<close>

definition seen_under :: "string \<Rightarrow> files \<Rightarrow> files \<Rightarrow> bool" where
  "seen_under lightning_dir fs fs' \<longleftrightarrow> (\<forall>name \<in> {FILE, FILE @ ''.old''}.
     contents fs' (CIRCULAR_DIR @ ''/'' @ name) = contents fs (CIRCULAR_DIR @ ''/'' @ name) \<and>
     contents fs' ((lightning_dir @ ''/'' @ CIRCULAR_DIR) @ ''/'' @ name) = contents fs (CIRCULAR_DIR @ ''/'' @ name))"

text \<open>The loop of a load visits every channel of the decoded map once.\<close>

definition visits_all :: "(string \<Rightarrow> graph ext) \<Rightarrow> (graph \<Rightarrow> string list) \<Rightarrow> bool" where
  "visits_all decode ks \<longleftrightarrow> (\<forall>json g. decode json = Inr g \<longrightarrow> enumerates (ks g) (channels g))"

definition channels_reported :: "(string \<Rightarrow> string \<times> string \<times> u64) \<Rightarrow> gl_channel list ext \<Rightarrow> bool" where
  "channels_reported ends chans \<longleftrightarrow> (\<forall>cs. chans = Inr cs \<longrightarrow> (\<forall>c \<in> set cs. reported_channel ends c))"

definition env_reports :: "(string \<Rightarrow> string \<times> string \<times> u64) \<Rightarrow> string \<Rightarrow> init_env \<Rightarrow> bool" where
  "env_reports ends me env \<longleftrightarrow> ie_info env = Inr me \<and> channels_reported ends (ie_channels env)
     \<and> (\<forall>ps. ie_peers env = Inr ps \<longrightarrow> (\<forall>p \<in> set ps. reported_peer ends me p))"

definition loaded_graph ::
  "(string \<Rightarrow> graph ext) \<Rightarrow> (graph \<Rightarrow> string list) \<Rightarrow> string \<Rightarrow> files \<Rightarrow> graph start" where
  "loaded_graph decode ks lightning_dir fs =
     get_graph_from_file (load_graph_from_file decode ks (lightning_dir @ ''/'' @ CIRCULAR_DIR) FILE fs)"

inductive lifetime ::
  "(graph \<Rightarrow> string ext) \<Rightarrow> (string \<Rightarrow> graph ext) \<Rightarrow> 'd library \<Rightarrow> (string \<Rightarrow> string \<times> string \<times> u64) \<Rightarrow> string \<Rightarrow> string
     \<Rightarrow> files \<Rightarrow> 'd node option \<Rightarrow> bool"
  for enc :: "graph \<Rightarrow> string ext" and decode :: "string \<Rightarrow> graph ext" and B :: "'d library"
    and ends :: "string \<Rightarrow> string \<times> string \<times> u64" and me :: string and lightning_dir :: string where
  installed: "\<forall>name \<in> {FILE, FILE @ ''.old''}. contents fs (CIRCULAR_DIR @ ''/'' @ name) = None \<Longrightarrow>
    lifetime enc decode B ends me lightning_dir fs None"
| started: "lifetime enc decode B ends me lightning_dir fs None \<Longrightarrow> seen_under lightning_dir fs fs' \<Longrightarrow>
    visits_all decode ks \<Longrightarrow> env_reports ends me (be_graph env) \<Longrightarrow>
    on_init enc decode ks opts lightning_dir env fs' = Ok (Started r) \<Longrightarrow>
    lifetime enc decode B ends me lightning_dir (ru_files r) (Some (ru_node r))"
| died_starting: "lifetime enc decode B ends me lightning_dir fs None \<Longrightarrow> seen_under lightning_dir fs fs' \<Longrightarrow>
    visits_all decode ks \<Longrightarrow> loaded_graph decode ks lightning_dir fs' = Started g \<Longrightarrow> channels_reported ends chans \<Longrightarrow>
    refresh_graph enc io chans prune now nodes (new_node me save minutes g (), fs') = (err, n, states) \<Longrightarrow>
    fs'' \<in> set states \<Longrightarrow> lifetime enc decode B ends me lightning_dir fs'' None"
| runs: "lifetime enc decode B ends me lightning_dir fs (Some n) \<Longrightarrow> plugin_step B ends me n n' \<Longrightarrow>
    lifetime enc decode B ends me lightning_dir fs (Some n')"
| notified: "lifetime enc decode B ends me lightning_dir fs (Some n) \<Longrightarrow> on_event B ev n = (out, n') \<Longrightarrow>
    lifetime enc decode B ends me lightning_dir fs (Some n')"
| served: "lifetime enc decode B ends me lightning_dir fs (Some n) \<Longrightarrow> rpc_env_ok B ends me env \<Longrightarrow> request_ok ends n c \<Longrightarrow>
    call_command B env c n = Some (r, n') \<Longrightarrow> lifetime enc decode B ends me lightning_dir fs (Some n')"
| saved_graph: "lifetime enc decode B ends me lightning_dir fs (Some n) \<Longrightarrow> channels_reported ends chans \<Longrightarrow>
    refresh_graph enc io chans prune now nodes (n, fs) = (err, n', states) \<Longrightarrow>
    lifetime enc decode B ends me lightning_dir (last states) (Some n')"
| died_saving: "lifetime enc decode B ends me lightning_dir fs (Some n) \<Longrightarrow> channels_reported ends chans \<Longrightarrow>
    refresh_graph enc io chans prune now nodes (n, fs) = (err, n', states) \<Longrightarrow> fs' \<in> set states \<Longrightarrow>
    lifetime enc decode B ends me lightning_dir fs' None"
| died: "lifetime enc decode B ends me lightning_dir fs (Some n) \<Longrightarrow> lifetime enc decode B ends me lightning_dir fs None"

section \<open>What the files hold\<close>

definition good_graph :: "(string \<Rightarrow> string \<times> string \<times> u64) \<Rightarrow> graph \<Rightarrow> bool" where
  "good_graph ends g \<longleftrightarrow> graph_reach ends g \<and> gossip_bounded g"

lemma good_node_graph: "good_node ends n \<longleftrightarrow> good_graph ends (n_graph n)"
  by (simp add: good_node_def good_graph_def)

definition good_load :: "(string \<Rightarrow> string \<times> string \<times> u64) \<Rightarrow> graph ext \<Rightarrow> bool" where
  "good_load ends l \<longleftrightarrow> l = Inl ErrNoGraphToLoad \<or> (\<exists>g. l = Inr g \<and> good_graph ends g)"

definition files_good :: "(string \<Rightarrow> graph ext) \<Rightarrow> (string \<Rightarrow> string \<times> string \<times> u64) \<Rightarrow> files \<Rightarrow> bool" where
  "files_good decode ends fs \<longleftrightarrow>
     (\<forall>ks. visits_all decode ks \<longrightarrow> good_load ends (load_graph_from_file decode ks CIRCULAR_DIR FILE fs))"

lemma bolt7_stored [simp]: "bolt7_fees (stored c) = bolt7_fees c" "bolt7_fees (fill_htlc c) = bolt7_fees c"
  by (simp_all add: bolt7_fees_def fill_htlc_def stored_def Let_def)

lemma good_graph_rebuild:
  assumes "good_graph ends g" and "visits_all decode ks" and "decode json = Inr (stored_graph g)"
  shows "good_graph ends (rebuild (ks (stored_graph g)) (stored_graph g))"
proof -
  have e: "enumerates (ks (stored_graph g)) (channels g)"
    using assms(2,3) by (fastforce simp: visits_all_def enumerates_def stored_graph_def dom_def)
  then have "distinct (ks (stored_graph g))" by (simp add: enumerates_def)
  then have "bolt7_fees c" if "channels (rebuild (ks (stored_graph g)) (stored_graph g)) cid = Some c" for cid c
    using that assms(1) enumerates_mem [OF e, of cid]
    by (auto simp: rebuild_channels stored_graph_def good_graph_def gossip_bounded_def split: if_splits)
  then show ?thesis using assms(1) e by (simp add: good_graph_def gossip_bounded_def reach_load)
qed

lemma files_good_refresh:
  assumes "codec_ok enc decode" and "files_good decode ends fs" and "good_node ends n" and "channels_reported ends chans"
    and "refresh_graph enc io chans prune now nodes (n, fs) = (err, n', states)" and "fs' \<in> set states"
  shows "files_good decode ends fs'"
  unfolding files_good_def
proof (intro allI impI)
  fix ks assume ks: "visits_all decode ks"
  have good: "good_graph ends (n_graph n')"
    using good_node_refresh(1) [OF assms(3,5)] assms(4) by (simp add: channels_reported_def good_node_graph)
  have old: "good_load ends (load_graph_from_file decode ks CIRCULAR_DIR FILE fs)"
    using assms(2) ks by (simp add: files_good_def)
  have "fs' = fs \<or> (\<exists>err. save_graph_to_file enc io CIRCULAR_DIR FILE (n_graph n') fs = (states, err))"
    using assms(5,6) by (auto simp: refresh_graph_def Let_def split: sum.splits prod.splits)
  then show "good_load ends (load_graph_from_file decode ks CIRCULAR_DIR FILE fs')"
  proof (elim disjE exE)
    fix err
    assume save: "save_graph_to_file enc io CIRCULAR_DIR FILE (n_graph n') fs = (states, err)"
    show ?thesis using save_loads_encoded [OF assms(1) save assms(6), of ks]
    proof (elim disjE conjE exE)
      fix json
      assume "load_graph_from_file decode ks CIRCULAR_DIR FILE fs' =
          Inr (rebuild (ks (stored_graph (n_graph n'))) (stored_graph (n_graph n')))"
        and "decode json = Inr (stored_graph (n_graph n'))"
      then show ?thesis using good_graph_rebuild [OF good ks] by (simp add: good_load_def)
    qed (use old in simp)
  qed (use old in simp)
qed

lemma seen_load:
  "seen_under lightning_dir fs fs' \<Longrightarrow>
     load_graph_from_file decode ks (lightning_dir @ ''/'' @ CIRCULAR_DIR) FILE fs' =
     load_graph_from_file decode ks CIRCULAR_DIR FILE fs"
  "seen_under lightning_dir fs fs' \<Longrightarrow>
     load_graph_from_file decode ks CIRCULAR_DIR FILE fs' = load_graph_from_file decode ks CIRCULAR_DIR FILE fs"
  unfolding seen_under_def load_graph_from_file_def by (simp_all only: ball_simps insert_iff simp_thms)

lemma files_good_seen: "files_good decode ends fs \<Longrightarrow> seen_under lightning_dir fs fs' \<Longrightarrow> files_good decode ends fs'"
  by (simp add: files_good_def seen_load(2))

lemma loaded_good:
  assumes "files_good decode ends fs" and "seen_under lightning_dir fs fs'" and "visits_all decode ks"
  shows "\<exists>g. loaded_graph decode ks lightning_dir fs' = Started g \<and> good_graph ends g"
proof -
  have "gossip_bounded new_graph" by (simp add: gossip_bounded_def new_graph_def)
  then have "good_graph ends new_graph" using reach_new by (simp add: good_graph_def)
  moreover have "good_load ends (load_graph_from_file decode ks (lightning_dir @ ''/'' @ CIRCULAR_DIR) FILE fs')"
    using assms(1,3) unfolding files_good_def seen_load(1) [OF assms(2)] by blast
  ultimately show ?thesis by (auto simp: loaded_graph_def good_load_def get_graph_from_file_def)
qed

lemma last_state:
  "refresh_graph enc io chans prune now nodes (n, fs) = (err, n', states) \<Longrightarrow> last states \<in> set states"
  by (rule last_in_set)
    (auto simp: refresh_graph_def save_graph_to_file_def Let_def split: sum.splits prod.splits if_splits)

section \<open>The start\<close>

lemma not_stderr:
  "p @ ''stderr-'' @ s @ ''.log'' \<noteq> q @ FILE" "p @ ''stderr-'' @ s @ ''.log'' \<noteq> q @ FILE @ ''.old''"
  by (auto simp: FILE_def dest!: arg_cong [where f = last])

lemma seen_prepared:
  assumes "make_dir env dir fs = Ok (Started fs1)" and "redirect_stderr env dir fs1 = Ok (Started fs2)"
    and "seen_under lightning_dir fs0 fs"
  shows "seen_under lightning_dir fs0 fs2"
proof -
  have "contents fs1 = contents fs" using assms(1) by (auto simp: make_dir_def split: if_splits option.splits)
  moreover have "contents fs2 q = contents fs1 q" if "q \<noteq> dir @ ''/'' @ ''stderr-'' @ itoa (be_unix env) @ ''.log''" for q
    using assms(2) that by (auto simp: redirect_stderr_def create_file_def split: option.splits)
  ultimately have kept: "contents fs2 (p @ ''/'' @ name) = contents fs (p @ ''/'' @ name)"
    if "name \<in> {FILE, FILE @ ''.old''}" for p name
    using that not_stderr [of "dir @ ''/''" "itoa (be_unix env)" "p @ ''/''"] by (metis append_assoc insertE singletonD)
  show ?thesis
    unfolding seen_under_def
  proof
    fix name assume name: "name \<in> {FILE, FILE @ ''.old''}"
    show "contents fs2 (CIRCULAR_DIR @ ''/'' @ name) = contents fs0 (CIRCULAR_DIR @ ''/'' @ name) \<and>
        contents fs2 ((lightning_dir @ ''/'' @ CIRCULAR_DIR) @ ''/'' @ name) = contents fs0 (CIRCULAR_DIR @ ''/'' @ name)"
      unfolding kept [OF name] using assms(3) name unfolding seen_under_def by (rule bspec)
  qed
qed

lemma net_ok_with_database: "net_ok ends me D n \<Longrightarrow> net_ok ends me D (with_database db n)"
  by (simp add: net_ok_reported good_node_def with_database_def)

lemma node_init_good:
  assumes "codec_ok enc decode" and "files_good decode ends fs0" and "seen_under lightning_dir fs0 fs"
    and "visits_all decode ks" and "env_reports ends me env"
    and "node_init enc decode ks lightning_dir save minutes db env fs = Started (n, fs')"
  shows "net_ok ends me {} n" and "files_good decode ends fs'"
proof -
  obtain g where g: "loaded_graph decode ks lightning_dir fs = Started g" "good_graph ends g"
    using loaded_good [OF assms(2-4)] by blast
  let ?n = "new_node me save minutes g db"
  obtain err n1 states where r: "refresh_graph enc (ie_faults env) (ie_channels env) (ie_prune env) (ie_now env)
      (ie_nodes env) (?n, fs) = (err, n1, states)" by (metis prod_cases3)
  have reported: "\<forall>cs. ie_channels env = Inr cs \<longrightarrow> (\<forall>c \<in> set cs. reported_channel ends c)" and me: "ie_info env = Inr me"
    and peers: "\<forall>ps. ie_peers env = Inr ps \<longrightarrow> (\<forall>p \<in> set ps. reported_peer ends me p)"
    using assms(5) by (simp_all add: env_reports_def channels_reported_def)
  have good: "good_node ends ?n" using g(2) by (simp add: good_node_graph new_node_def)
  have out: "n = snd (refresh_peers_job (ie_peers env) n1)" "fs' = last states" "err = None"
    using assms(6) g(1) r me by (auto simp: node_init_def loaded_graph_def Let_def split: if_splits prod.splits)
  have "net_ok ends me {} n1"
    using good_node_refresh [OF good r reported] by (simp add: net_ok_reported new_node_def)
  then show "net_ok ends me {} n"
    using net_ok_refresh_peers peers by (auto simp: out(1) refresh_peers_job_def split: sum.split)
  show "files_good decode ends fs'"
    using files_good_refresh [OF assms(1) files_good_seen [OF assms(2,3)] good _ r last_state [OF r]] assms(5)
    by (simp add: out(2) env_reports_def)
qed

lemma on_init_good:
  assumes "codec_ok enc decode" and "files_good decode ends fs" and "seen_under lightning_dir fs fs'"
    and "visits_all decode ks" and "env_reports ends me (be_graph env)"
    and "on_init enc decode ks opts lightning_dir env fs' = Ok (Started r)"
  shows "net_ok ends me {} (ru_node r)" and "files_good decode ends (ru_files r)"
proof -
  obtain fs1 fs2 where prep: "make_dir env (lightning_dir @ ''/'' @ CIRCULAR_DIR) fs' = Ok (Started fs1)"
    "redirect_stderr env (lightning_dir @ ''/'' @ CIRCULAR_DIR) fs1 = Ok (Started fs2)"
    and init: "init enc decode ks opts lightning_dir env fs2 = Ok (Started r)"
    using assms(6) by (auto simp: on_init_def Let_def start_bind_Started)
  obtain minutes save n db jobs ep where
    node: "node_init enc decode ks lightning_dir save minutes () (be_graph env) fs2 = Started (n, ru_files r)"
    and r: "ru_node r = with_database db n"
    using init by (auto simp: init_def go_bind_eq_Ok start_bind_Started)
  have seen: "seen_under lightning_dir fs fs2" by (rule seen_prepared [OF prep assms(3)])
  from node_init_good [OF assms(1,2) seen assms(4,5) node] r
  show "net_ok ends me {} (ru_node r)" and "files_good decode ends (ru_files r)"
    by (simp_all add: net_ok_with_database)
qed

section \<open>Properties\<close>

lemma lifetime_good:
  assumes "codec_ok enc decode" and "lifetime enc decode B ends me lightning_dir fs st"
  shows "files_good decode ends fs \<and> (\<forall>n. st = Some n \<longrightarrow> net_ok ends me {} n)"
  using assms(2)
proof (induction rule: lifetime.induct)
  case (installed fs)
  then show ?case by (simp add: files_good_def good_load_def load_graph_from_file_def)
next
  case (started fs fs' ks env opts r)
  then show ?case using on_init_good [OF assms(1)] by blast
next
  case (died_starting fs fs' ks g chans io prune now nodes save minutes err n states fs'')
  obtain g' where "loaded_graph decode ks lightning_dir fs' = Started g'" "good_graph ends g'"
    using loaded_good died_starting by blast
  moreover have "loaded_graph decode ks lightning_dir fs' = Started g" using died_starting by blast
  ultimately have "good_node ends (new_node me save minutes g ())" by (simp add: good_node_graph new_node_def)
  with files_good_refresh [OF assms(1) files_good_seen this] died_starting show ?case by blast
next
  case (runs fs n n')
  then show ?case using plugin_step_net_ok by blast
next
  case (notified fs n ev out n')
  then show ?case using plugin_step_net_ok event_step [of B ends me n ev] by fastforce
next
  case (served fs n env c r n')
  then have net: "net_ok ends (n_id n) (dom (n_peers n)) n" and me: "n_id n = me" by (simp_all add: net_ok_reported)
  with served call_returns [OF net] have "net_ok ends me (dom (n_peers n)) n'" by (metis option.inject prod.inject)
  then show ?case using served by (simp add: net_ok_reported)
next
  case (saved_graph fs n chans io prune now nodes err n' states)
  then have good: "good_node ends n" and ok: "net_ok ends me {} n" by (simp_all add: net_ok_def)
  have "last states \<in> set states" using saved_graph(3) by (rule last_state)
  moreover have "plugin_step B ends me n n'"
    using job_graph [OF saved_graph(3)] saved_graph(2) by (simp add: channels_reported_def)
  ultimately show ?case
    using saved_graph files_good_refresh [OF assms(1) _ good] plugin_step_net_ok [OF _ ok] by blast
next
  case (died_saving fs n chans io prune now nodes err n' states fs')
  then show ?case using files_good_refresh [OF assms(1)] by (auto simp: net_ok_def)
next
  case (died fs n)
  then show ?case by simp
qed

text \<open>C7. In every life of the plugin, whatever starts, operations, saves and crashes came before, with whatever the file
  system, the database and the clock answered, and whatever lightningd answered within the format of its answers (channels
  with fees in the u32 of BOLT 7, always between the same two nodes with the same capacity; our peers with our channels):
  the graph of the running node is one that its operations reach, with such fees, and its peers are filed under their ids with
  the channels we have with them. And whenever the plugin died, no later start ends because of the graph file: it loads a
  graph with the same invariant. Conditions: the JSON decoder reads back what the encoder wrote; only the plugin writes the
  graph files; and the saves of the graph come one after another. The last one the code does not ensure, and two that
  overlap can leave a file on which no start succeeds (\<open>SaveRace\<close>, C31).\<close>

theorem every_life_good:
  assumes "codec_ok enc decode" and "lifetime enc decode B ends me lightning_dir fs st"
  shows "(case st of None \<Rightarrow> True | Some n \<Rightarrow> net_ok ends me (dom (n_peers n)) n)
    \<and> (\<forall>fs' ks. seen_under lightning_dir fs fs' \<and> visits_all decode ks \<longrightarrow>
         (\<exists>g. loaded_graph decode ks lightning_dir fs' = Started g \<and> graph_reach ends g \<and> gossip_bounded g))"
proof -
  have "net_ok ends me (dom (n_peers n)) n" if "st = Some n" for n
    using lifetime_good [OF assms] that by (simp add: net_ok_reported)
  moreover have "files_good decode ends fs" using lifetime_good [OF assms] by simp
  ultimately show ?thesis using loaded_good unfolding good_graph_def by (auto split: option.split)
qed

text \<open>The witness starts on an empty directory, loses a peer, dies, and the files that the directory then has are loaded.\<close>

definition empty_codec :: "graph \<Rightarrow> string ext" where
  "empty_codec g = (if g = new_graph then Inr ''{}'' else Inl (ErrForeign ''json''))"

definition empty_decode :: "string \<Rightarrow> graph ext" where
  "empty_decode s = (if s = ''{}'' then Inr new_graph else Inl (ErrForeign ''json''))"

lemma empty_codec_ok: "codec_ok empty_codec empty_decode"
  by (simp add: codec_ok_def empty_codec_def empty_decode_def stored_graph_def new_graph_def)

theorem every_life_good_witness:
  "\<exists>r. on_init empty_codec empty_decode (\<lambda>g. []) default_options ''d'' sample_boot no_files = Ok (Started r)
     \<and> lifetime empty_codec empty_decode map_library circle_ends ''u'' ''d'' (ru_files r) (Some (on_disconnect ''b'' (ru_node r)))
     \<and> net_ok circle_ends ''u'' (dom (n_peers (on_disconnect ''b'' (ru_node r)))) (on_disconnect ''b'' (ru_node r))"
proof -
  let ?life = "lifetime empty_codec empty_decode map_library circle_ends ''u'' ''d''"
  obtain r where r: "on_init empty_codec empty_decode (\<lambda>g. []) default_options ''d'' sample_boot no_files = Ok (Started r)"
    using sample_boot_starts [of empty_codec] by (auto simp: empty_codec_def)
  have "?life no_files None" by (rule installed) (simp add: no_files_def)
  moreover have "seen_under ''d'' no_files no_files" by (simp add: seen_under_def no_files_def)
  moreover have "visits_all empty_decode (\<lambda>g. [])"
    by (simp add: visits_all_def empty_decode_def enumerates_def new_graph_def)
  moreover have "env_reports circle_ends ''u'' (be_graph sample_boot)"
    by (simp add: env_reports_def channels_reported_def sample_boot_def)
  ultimately have "?life (ru_files r) (Some (ru_node r))" using r by (rule started)
  then have life: "?life (ru_files r) (Some (on_disconnect ''b'' (ru_node r)))" by (rule runs) (rule disconnected)
  from every_life_good [OF empty_codec_ok this] r life show ?thesis by auto
qed

end
