(* ===== verification/Stats_Typed.thy ===== *)
theory Stats_Typed
  imports Stats Lifecycle
begin

text \<open>
  The database as a typed store. The statistics live in one key-value store with the preimages and the marks of timed
  out payments, as JSON under keys that are a prefix and a payment hash, and a listing drops everything when it meets a
  value that it cannot decode. Every operation of the plugin keeps the values well-typed, so the listings are exact.
\<close>

section \<open>Types of values\<close>

text \<open>The keys under which \<^verbatim>\<open>OnPaymentSuccess\<close>, \<^verbatim>\<open>OnPaymentFailure\<close> and \<^verbatim>\<open>tryRoute\<close> save.\<close>

definition success_key :: "sendpay_success \<Rightarrow> string" where
  "success_key ss = SuccessPrefix @ ss_hash ss"

definition failure_key :: "sendpay_failure \<Rightarrow> string" where
  "failure_key sf = FailurePrefix @ sf_hash sf"

definition route_key :: "pretty_route \<Rightarrow> string" where
  "route_key p = RoutePrefix @ pr_payment_hash p"

definition encodes :: "('a \<Rightarrow> string ext) \<Rightarrow> ('a \<Rightarrow> string) \<Rightarrow> string \<Rightarrow> string \<Rightarrow> bool" where
  "encodes json key k v \<longleftrightarrow> (\<exists>x. key x = k \<and> json x = Inr v)"

definition well_typed :: "'d library \<Rightarrow> string \<Rightarrow> string \<Rightarrow> bool" where
  "well_typed B k v \<longleftrightarrow>
     (prefix SuccessPrefix k \<longrightarrow> encodes (json_success B) success_key k v)
     \<and> (prefix FailurePrefix k \<longrightarrow> encodes (json_failure B) failure_key k v)
     \<and> (prefix RoutePrefix k \<longrightarrow> encodes (json_route B) route_key k v)"

definition typed :: "'d library \<Rightarrow> 'd \<Rightarrow> bool" where
  "typed B db \<longleftrightarrow> (\<forall>k. stats_key k \<longrightarrow> store_get B k db = absent \<or> (\<exists>v. store_get B k db = Inr v \<and> well_typed B k v))"

text \<open>\<^verbatim>\<open>encoding/json\<close> decodes what it encoded.\<close>

definition stats_codec_ok :: "'d library \<Rightarrow> bool" where
  "stats_codec_ok B \<longleftrightarrow> (\<forall>x v. json_success B x = Inr v \<longrightarrow> unjson_success B v = Inr x)
     \<and> (\<forall>x v. json_failure B x = Inr v \<longrightarrow> unjson_failure B v = Inr x)
     \<and> (\<forall>x v. json_route B x = Inr v \<longrightarrow> unjson_route B v = Inr x)"

text \<open>What the plugin does to the database, and the expiry of entries.\<close>

inductive stats_step :: "'d library \<Rightarrow> 'd node \<Rightarrow> 'd node \<Rightarrow> bool" for B :: "'d library" where
  draws: "stats_step B n (snd (generate_preimage_hash_pair B bytes n))"
| sends: "stats_step B n (snd (send_pay B r h lite (wait :: wait_error + unit) n))"
| fails: "stats_step B n (fst (on_payment_failure B sf n))"
| succeeds: "stats_step B n (on_payment_success B ss n)"
| saves: "stats_step B n (snd (node_save B (RoutePrefix @ pr_payment_hash p) (json_route B p) n))"
| deletes: "stats_step B n (snd (delete_stats B n))"
| expires: "\<forall>k. store_get B k db = store_get B k (n_db n) \<or> store_get B k db = absent \<Longrightarrow> stats_step B n (n\<lparr>n_db := db\<rparr>)"
| elsewhere: "n_db n' = n_db n \<Longrightarrow> stats_step B n n'"

section \<open>Every operation keeps the types\<close>

lemma stats_key_cases:
  "stats_key k \<longleftrightarrow> prefix SuccessPrefix k \<or> prefix FailurePrefix k \<or> prefix RoutePrefix k"
  by (auto simp: stats_key_def stats_prefixes_def)

lemma prefixes_differ [simp]:
  "\<not> prefix FailurePrefix (SuccessPrefix @ h)" "\<not> prefix RoutePrefix (SuccessPrefix @ h)"
  "\<not> prefix SuccessPrefix (FailurePrefix @ h)" "\<not> prefix RoutePrefix (FailurePrefix @ h)"
  "\<not> prefix SuccessPrefix (RoutePrefix @ h)" "\<not> prefix FailurePrefix (RoutePrefix @ h)"
  by (simp_all add: SuccessPrefix_def FailurePrefix_def RoutePrefix_def)

lemma well_typed_saved:
  "json_success B ss = Inr v \<Longrightarrow> well_typed B (SuccessPrefix @ ss_hash ss) v"
  "json_failure B sf = Inr v \<Longrightarrow> well_typed B (FailurePrefix @ sf_hash sf) v"
  "json_route B p = Inr v \<Longrightarrow> well_typed B (RoutePrefix @ pr_payment_hash p) v"
  by (auto simp: well_typed_def encodes_def success_key_def failure_key_def route_key_def)

lemma typed_set:
  assumes "badger_ok B" and "typed B db" and "store_set B k v db = Inr db'" and "stats_key k \<Longrightarrow> well_typed B k v"
  shows "typed B db'"
  using assms(2,4) by (auto simp: typed_def store_get_set [OF assms(1,3)])

lemma typed_delete: "badger_ok B \<Longrightarrow> typed B db \<Longrightarrow> store_delete B k db = Inr db' \<Longrightarrow> typed B db'"
  by (auto simp: typed_def store_get_delete)

lemma typed_with_db:
  "typed B (n_db n) \<Longrightarrow> (\<And>db'. f (n_db n) = Inr db' \<Longrightarrow> typed B db') \<Longrightarrow> typed B (n_db (snd (with_db f n)))"
  by (auto simp: with_db_def split: sum.split)

lemma typed_with_delete: "badger_ok B \<Longrightarrow> typed B (n_db n) \<Longrightarrow> typed B (n_db (snd (with_db (store_delete B k) n)))"
  by (rule typed_with_db) (auto intro: typed_delete)

lemma typed_with_set:
  "badger_ok B \<Longrightarrow> typed B (n_db n) \<Longrightarrow> \<not> stats_key k \<Longrightarrow> typed B (n_db (snd (with_db (store_set B k v) n)))"
  by (rule typed_with_db) (auto intro: typed_set)

lemma typed_node_save:
  assumes "badger_ok B" and "typed B (n_db n)" and "\<And>v. json = Inr v \<Longrightarrow> well_typed B k v"
  shows "typed B (n_db (snd (node_save B k json n)))"
  unfolding node_save_def
  using assms typed_set [OF assms(1,2)]
  by (intro typed_with_db) (auto simp: save_to_db_def ext_bind_eq_Inr split: if_splits)

lemma typed_delete_if_ours: "badger_ok B \<Longrightarrow> typed B (n_db n) \<Longrightarrow> typed B (n_db (snd (delete_if_ours B h n)))"
  by (simp add: delete_if_ours_def Let_def typed_with_delete)

lemma typed_manage_timeout: "badger_ok B \<Longrightarrow> typed B (n_db n) \<Longrightarrow> typed B (n_db (snd (manage_timeout B h n)))"
  by (simp add: manage_timeout_def Let_def typed_with_set typed_with_delete timeout_mark_kept)

lemma typed_send_pay:
  "badger_ok B \<Longrightarrow> typed B (n_db n) \<Longrightarrow> typed B (n_db (snd (send_pay B r h lite wait n)))"
  using typed_manage_timeout [of B n h]
  by (auto simp: send_pay_def Let_def split: option.split sum.split)

lemma typed_generate:
  assumes "badger_ok B" and "typed B (n_db n)"
  shows "typed B (n_db (snd (generate_preimage_hash_pair B bytes n)))"
proof -
  let ?pair = "new_preimage_hash_pair B bytes"
  have "\<not> stats_key (pair_hash ?pair)"
    by (rule hash_not_stats) (simp add: new_preimage_hash_pair_def hex_encode_hash Let_def)
  then have "typed B (n_db (snd (with_db (store_set B (pair_hash ?pair) (pair_preimage ?pair)) n)))"
    by (rule typed_with_set [OF assms])
  then show ?thesis by (auto simp: generate_preimage_hash_pair_def Let_def split: prod.splits option.split)
qed

lemma typed_success: "badger_ok B \<Longrightarrow> typed B (n_db n) \<Longrightarrow> typed B (n_db (on_payment_success B ss n))"
  using typed_delete_if_ours [of B n "ss_hash ss"]
  by (auto simp: on_payment_success_def split: prod.splits option.split intro!: typed_node_save well_typed_saved)

lemma typed_failure: "badger_ok B \<Longrightarrow> typed B (n_db n) \<Longrightarrow> typed B (n_db (fst (on_payment_failure B sf n)))"
  using typed_delete_if_ours [of B n "sf_hash sf"]
  by (auto simp: on_payment_failure_def send_update_def split: prod.splits option.split
      intro!: typed_node_save well_typed_saved)

lemma typed_delete_stats:
  assumes "drop_ok B" and "typed B (n_db n)"
  shows "typed B (n_db (snd (delete_stats B n)))"
  using assms(2) delete_stats_get [OF assms(1), of n]
  by (cases "delete_stats B n") (fastforce simp: typed_def)

lemma stats_step_typed:
  assumes "badger_ok B" and "drop_ok B" and "typed B (n_db n)" and "stats_step B n n'"
  shows "typed B (n_db n')"
  using assms(4)
proof cases
  case (expires db)
  have "typed B db"
    unfolding typed_def
  proof (intro allI impI)
    fix k assume "stats_key k"
    then show "store_get B k db = absent \<or> (\<exists>v. store_get B k db = Inr v \<and> well_typed B k v)"
      using assms(3) expires(2) [rule_format, of k] by (auto simp: typed_def)
  qed
  then show ?thesis by (simp add: expires(1))
qed (simp_all add: assms typed_generate typed_send_pay typed_failure typed_success typed_delete_stats
    typed_node_save [OF assms(1,3)] well_typed_saved)

lemma stats_steps_typed:
  "(stats_step B)\<^sup>*\<^sup>* n n' \<Longrightarrow> badger_ok B \<Longrightarrow> drop_ok B \<Longrightarrow> typed B (n_db n) \<Longrightarrow> typed B (n_db n')"
  by (induction rule: rtranclp_induct) (auto intro: stats_step_typed)

section \<open>Listings of a typed database\<close>

lemma decode_typed:
  assumes "\<forall>k \<in> set ks. \<exists>v. get k = Inr v \<and> encodes json key k v" and "\<forall>x v. json x = Inr v \<longrightarrow> unjson v = Inr x"
  shows "\<exists>xs. decode_items unjson (map get ks) acc = Inr (acc @ xs)
    \<and> set xs = {x. \<exists>v. json x = Inr v \<and> get (key x) = Inr v \<and> key x \<in> set ks}"
  using assms(1)
proof (induction ks arbitrary: acc)
  case (Cons k ks)
  then obtain x v where x: "get k = Inr v" "key x = k" "json x = Inr v" by (auto simp: encodes_def)
  obtain xs where xs: "decode_items unjson (map get ks) (acc @ [x]) = Inr ((acc @ [x]) @ xs)"
    "set xs = {x. \<exists>v. json x = Inr v \<and> get (key x) = Inr v \<and> key x \<in> set ks}"
    using Cons.IH [of "acc @ [x]"] Cons.prems by force
  have v: "unjson v = Inr x" using assms(2) x(3) by blast
  then have same: "y = x" if "json y = Inr v" for y using assms(2) that by (metis sum.inject(2))
  have "y \<in> set (x # xs) \<longleftrightarrow> (\<exists>w. json y = Inr w \<and> get (key y) = Inr w \<and> key y \<in> set (k # ks))" for y
  proof (cases "y = x")
    case True
    then show ?thesis using x by simp
  next
    case False
    then have "json y \<noteq> Inr v" using same by blast
    then have "\<not> (json y = Inr w \<and> get (key y) = Inr w \<and> key y = k)" for w using x(1) by auto
    then show ?thesis using False unfolding xs(2) set_simps by blast
  qed
  then have "set (x # xs) = {y. \<exists>w. json y = Inr w \<and> get (key y) = Inr w \<and> key y \<in> set (k # ks)}" by blast
  then show ?case using x(1) v xs(1) by (intro exI [of _ "x # xs"]) simp
qed simp

text \<open>A listing of a prefix under which every value is typed.\<close>

lemma listing:
  assumes "scan_ok B" and "\<forall>k. prefix pre k \<longrightarrow> bd_get B k db = absent \<or> (\<exists>v. bd_get B k db = Inr v \<and> encodes json key k v)"
    and "\<forall>x v. json x = Inr v \<longrightarrow> unjson v = Inr x" and "\<forall>x. prefix pre (key x)"
  shows "set (or_empty (decode_items unjson (bd_scan B pre db) []))
    = {x. \<exists>v. json x = Inr v \<and> store_get B (key x) db = Inr v}"
proof -
  obtain ks where ks: "bd_scan B pre db = map (\<lambda>k. bd_get B k db) ks"
    and set: "set ks = {k. prefix pre k \<and> bd_get B k db \<noteq> absent}"
    using assms(1) [unfolded scan_ok_def, rule_format, of pre db] by (elim exE conjE)
  have "\<forall>k \<in> set ks. \<exists>v. bd_get B k db = Inr v \<and> encodes json key k v" using set assms(2) by blast
  from decode_typed [OF this assms(3), where acc = "[]"] obtain xs where
    "decode_items unjson (bd_scan B pre db) [] = Inr xs"
    "set xs = {x. \<exists>v. json x = Inr v \<and> bd_get B (key x) db = Inr v \<and> key x \<in> set ks}"
    unfolding ks by auto
  moreover have "key x \<in> set ks" if "bd_get B (key x) db = Inr v" for x v using that set assms(4) by simp
  ultimately show ?thesis by (auto simp: or_empty_def store_get_def)
qed

lemma typed_prefix:
  assumes "typed B db"
  shows "\<forall>k. prefix SuccessPrefix k \<longrightarrow> bd_get B k db = absent \<or> (\<exists>v. bd_get B k db = Inr v \<and> encodes (json_success B) success_key k v)"
    and "\<forall>k. prefix FailurePrefix k \<longrightarrow> bd_get B k db = absent \<or> (\<exists>v. bd_get B k db = Inr v \<and> encodes (json_failure B) failure_key k v)"
    and "\<forall>k. prefix RoutePrefix k \<longrightarrow> bd_get B k db = absent \<or> (\<exists>v. bd_get B k db = Inr v \<and> encodes (json_route B) route_key k v)"
  using assms unfolding typed_def stats_key_cases well_typed_def store_get_def by blast+

section \<open>Properties\<close>

text \<open>C11. Type soundness of the database: whatever payments are made, time out, fail and succeed, whatever is saved,
  deleted and expires, every statistic in the database is the JSON of a record with the payment hash of its key. So no
  listing ever meets a value it cannot decode, and the statistics show exactly the successes, failures and routes
  that are stored, none missing and none made up.\<close>

theorem stats_exact:
  assumes "badger_ok B" and "drop_ok B" and "scan_ok B" and "stats_codec_ok B"
    and "typed B (n_db n)" and "(stats_step B)\<^sup>*\<^sup>* n n'"
  shows "typed B (n_db n')
    \<and> set (ns_successes (get_node_stats B ns ks n')) =
        {x. \<exists>v. json_success B x = Inr v \<and> store_get B (success_key x) (n_db n') = Inr v}
    \<and> set (ns_failures (get_node_stats B ns ks n')) =
        {x. \<exists>v. json_failure B x = Inr v \<and> store_get B (failure_key x) (n_db n') = Inr v}
    \<and> set (ns_routes (get_node_stats B ns ks n')) =
        {x. \<exists>v. json_route B x = Inr v \<and> store_get B (route_key x) (n_db n') = Inr v}"
proof -
  have t: "typed B (n_db n')" by (rule stats_steps_typed [OF assms(6,1,2,5)])
  have "\<forall>x. prefix SuccessPrefix (success_key x)" "\<forall>x. prefix FailurePrefix (failure_key x)"
    "\<forall>x. prefix RoutePrefix (route_key x)" by (simp_all add: success_key_def failure_key_def route_key_def)
  then show ?thesis
    using t listing [OF assms(3) typed_prefix(1) [OF t], of "unjson_success B"]
      listing [OF assms(3) typed_prefix(2) [OF t], of "unjson_failure B"]
      listing [OF assms(3) typed_prefix(3) [OF t], of "unjson_route B"] assms(4)
    by (simp add: get_node_stats_def list_successes_def list_failures_def list_routes_def stats_codec_ok_def)
qed

text \<open>A library that can encode one success, and a payment that succeeds.\<close>

definition typed_success_sample :: sendpay_success where
  "typed_success_sample = \<lparr>ss_hash = ''12ab'', ss_msat = 1000\<rparr>"

definition typed_library :: "(string \<times> string) list library" where
  "typed_library = map_library
     \<lparr>json_success := \<lambda>x. if x = typed_success_sample then Inr ''ok'' else Inl (ErrForeign ''json''),
      unjson_success := \<lambda>v. if v = ''ok'' then Inr typed_success_sample else Inl (ErrForeign ''json''),
      json_failure := \<lambda>x. Inl (ErrForeign ''json''), json_route := \<lambda>x. Inl (ErrForeign ''json'')\<rparr>"

lemma typed_library_ok:
  "badger_ok typed_library" "drop_ok typed_library" "scan_ok typed_library" "stats_codec_ok typed_library"
proof -
  have "bd_drop typed_library = bd_drop map_library" "bd_get typed_library = bd_get map_library"
    by (simp_all add: typed_library_def)
  then show "drop_ok typed_library" using map_library_drop_ok by (simp only: drop_ok_def)
qed (use map_library_ok map_library_scan_ok in
    \<open>simp_all add: typed_library_def badger_ok_def scan_ok_def stats_codec_ok_def\<close>)

theorem stats_exact_witness:
  "set (ns_successes (get_node_stats typed_library [] [] (on_payment_success typed_library typed_success_sample
     (snd (generate_preimage_hash_pair typed_library [171, 18] sample_node))))) = {typed_success_sample}"
proof -
  let ?n1 = "snd (generate_preimage_hash_pair typed_library [171, 18] sample_node)"
  let ?n2 = "on_payment_success typed_library typed_success_sample ?n1"
  have "typed typed_library (n_db sample_node)"
    by (simp add: typed_def typed_library_def map_library_def store_get_def)
  moreover have "(stats_step typed_library)\<^sup>*\<^sup>* sample_node ?n2"
    using draws [of typed_library sample_node "[171, 18]"] succeeds [of typed_library ?n1 typed_success_sample]
    by (meson converse_rtranclp_into_rtranclp r_into_rtranclp)
  ultimately have "set (ns_successes (get_node_stats typed_library [] [] ?n2)) =
      {x. \<exists>v. json_success typed_library x = Inr v \<and> store_get typed_library (success_key x) (n_db ?n2) = Inr v}"
    by (rule stats_exact [OF typed_library_ok, THEN conjunct2, THEN conjunct1])
  moreover have hex: "hex_encode [18, 171] = ''12ab''" "hex_encode [171, 18] = ''ab12''" by code_simp+
  have "n_db ?n2 = [(SuccessPrefix @ ''12ab'', ''ok'')]"
    by (simp add: on_payment_success_def generate_preimage_hash_pair_def new_preimage_hash_pair_def with_db_def store_set_def
        delete_if_ours_def store_get_def store_delete_def node_save_def save_to_db_def typed_library_def map_library_def
        typed_success_sample_def hex Let_def SuccessPrefix_def TimeoutPrefix_def)
  ultimately show ?thesis
    by (auto simp: typed_library_def map_library_def store_get_def success_key_def typed_success_sample_def
        split: if_splits)
qed

end
