(* ===== verification/SaveRace.thy ===== *)
theory SaveRace
  imports GraphFile
begin

text \<open>
  Two saves of the graph at once. The scheduler of \<^verbatim>\<open>node/cron.go\<close> starts every job in a goroutine of its own, also when the
  one before has not ended, so two refreshes of the graph can overlap, and both save through the same temporary file. A
  lock of the graph covers the write in \<^verbatim>\<open>serializeToFile\<close>, but neither the creation of the file nor the renaming.

  What matters here is that an open file is not a name: a goroutine writes to the file it has opened, whatever that is
  called by then. So a disk has names for numbered files, and the model of \<open>GraphFile\<close> is what a save alone sees of it.
\<close>

section \<open>Names and files\<close>

record disk =
  dk_names :: "string \<rightharpoonup> nat"
  dk_data :: "nat \<Rightarrow> string"
  dk_next :: nat

text \<open>No file has two names, and the next number is unused.\<close>

definition disk_ok :: "disk \<Rightarrow> bool" where
  "disk_ok d \<longleftrightarrow> (\<forall>p i. dk_names d p = Some i \<longrightarrow> i < dk_next d \<and> (\<forall>q. dk_names d q = Some i \<longrightarrow> q = p))"

text \<open>\<^verbatim>\<open>os.Create\<close> truncates a file that exists, for everyone who has it open.\<close>

definition os_create :: "string \<Rightarrow> disk \<Rightarrow> nat \<times> disk" where
  "os_create p d = (case dk_names d p of
     Some i \<Rightarrow> (i, d\<lparr>dk_data := (dk_data d)(i := [])\<rparr>)
   | None \<Rightarrow> (dk_next d, d\<lparr>dk_names := (dk_names d)(p \<mapsto> dk_next d), dk_data := (dk_data d)(dk_next d := []),
                             dk_next := Suc (dk_next d)\<rparr>))"

text \<open>A write at the start of the file leaves what is behind its end.\<close>

definition os_write :: "nat \<Rightarrow> string \<Rightarrow> disk \<Rightarrow> disk" where
  "os_write i x d = d\<lparr>dk_data := (dk_data d)(i := x @ drop (length x) (dk_data d i))\<rparr>"

definition os_rename :: "string \<Rightarrow> string \<Rightarrow> disk \<Rightarrow> disk option" where
  "os_rename p q d = (case dk_names d p of
     None \<Rightarrow> None | Some i \<Rightarrow> Some (d\<lparr>dk_names := (dk_names d)(p := None, q \<mapsto> i)\<rparr>))"

definition files_of :: "string set \<Rightarrow> disk \<Rightarrow> files" where
  "files_of ds d = \<lparr>dirs = ds, contents = \<lambda>p. map_option (dk_data d) (dk_names d p)\<rparr>"

section \<open>A save in steps\<close>

text \<open>Where a save is: the next system call of \<^verbatim>\<open>SaveGraphToFile\<close> and \<^verbatim>\<open>serializeToFile\<close>. None of them fails.\<close>

datatype progress = Creating | Writing nat | Checking | Backing_up | Renaming | Finished | Aborted

fun save_step :: "string \<Rightarrow> string \<Rightarrow> progress \<Rightarrow> disk \<Rightarrow> (progress \<times> disk) option" where
  "save_step f json Creating d = (let (i, d') = os_create (f @ ''.tmp'') d in Some (Writing i, d'))"
| "save_step f json (Writing i) d = Some (Checking, os_write i json d)"
| "save_step f json Checking d = Some (if dk_names d f = None then Renaming else Backing_up, d)"
| "save_step f json Backing_up d =
     Some (Renaming, case os_rename f (f @ ''.old'') d of None \<Rightarrow> d | Some d' \<Rightarrow> d')"
| "save_step f json Renaming d = Some (case os_rename (f @ ''.tmp'') f d of
     None \<Rightarrow> (Aborted, d) | Some d' \<Rightarrow> (Finished, d'))"
| "save_step f json Finished d = None"
| "save_step f json Aborted d = None"

text \<open>Any number of saves over one disk, each with the JSON it writes; one of them takes a step.\<close>

type_synonym saves = "(string \<times> progress) list \<times> disk"

inductive race :: "string \<Rightarrow> saves \<Rightarrow> saves \<Rightarrow> bool" for f :: string where
  moves: "k < length ss \<Longrightarrow> ss ! k = (json, p) \<Longrightarrow> save_step f json p d = Some (p', d') \<Longrightarrow>
    race f (ss, d) (ss[k := (json, p')], d')"

lemma first_moves:
  assumes "save_step f json p d = Some (p', d')" and "(race f)\<^sup>*\<^sup>* ((json, p') # ss, d') st"
  shows "(race f)\<^sup>*\<^sup>* ((json, p) # ss, d) st"
proof -
  have "race f ((json, p) # ss, d) (((json, p) # ss)[0 := (json, p')], d')" by (rule moves [OF _ _ assms(1)]) simp_all
  then show ?thesis using assms(2) by (auto intro: converse_rtranclp_into_rtranclp)
qed

lemma second_moves:
  assumes "save_step f json p d = Some (p', d')" and "(race f)\<^sup>*\<^sup>* (s # (json, p') # ss, d') st"
  shows "(race f)\<^sup>*\<^sup>* (s # (json, p) # ss, d) st"
proof -
  have "race f (s # (json, p) # ss, d) ((s # (json, p) # ss)[1 := (json, p')], d')" by (rule moves [OF _ _ assms(1)]) simp_all
  then show ?thesis using assms(2) by (auto intro: converse_rtranclp_into_rtranclp)
qed

section \<open>A save alone\<close>

text \<open>Each system call does to the contents what \<open>GraphFile\<close> says.\<close>

lemma disk_okD:
  assumes "disk_ok d" and "dk_names d p = Some i"
  shows "i < dk_next d" and "dk_names d q = Some i \<Longrightarrow> q = p"
  using assms unfolding disk_ok_def by blast+

lemma contents_changed:
  assumes "disk_ok d" and "dk_names d p = Some i"
  shows "map_option ((dk_data d)(i := x)) (dk_names d q) =
    (if q = p then Some x else map_option (dk_data d) (dk_names d q))"
  using disk_okD(2) [OF assms, of q] assms(2) by (cases "dk_names d q") auto

lemma contents_new:
  assumes "disk_ok d"
  shows "map_option ((dk_data d)(dk_next d := x)) (dk_names d q) = map_option (dk_data d) (dk_names d q)"
  using disk_okD(1) [OF assms, of q] by (cases "dk_names d q") auto

lemma disk_ok_new:
  assumes "disk_ok d"
  shows "disk_ok (d\<lparr>dk_names := (dk_names d)(p \<mapsto> dk_next d), dk_data := x, dk_next := Suc (dk_next d)\<rparr>)"
  unfolding disk_ok_def using disk_okD [OF assms] by (fastforce split: if_splits)

lemma create_alone:
  assumes "disk_ok d" and "os_create p d = (i, d')"
  shows "disk_ok d'" and "dk_names d' p = Some i" and "dk_data d' i = []"
    and "files_of ds d' = write_file p [] (files_of ds d)"
proof -
  have "disk_ok d' \<and> dk_names d' p = Some i \<and> dk_data d' i = [] \<and> files_of ds d' = write_file p [] (files_of ds d)"
  proof (cases "dk_names d p")
    case None
    then have d': "i = dk_next d" "d' = d\<lparr>dk_names := (dk_names d)(p \<mapsto> dk_next d),
        dk_data := (dk_data d)(dk_next d := []), dk_next := Suc (dk_next d)\<rparr>"
      using assms(2) None by (auto simp: os_create_def)
    show ?thesis unfolding d' using disk_ok_new [OF assms(1)] contents_new [OF assms(1)]
      by (simp add: files_of_def write_file_def fun_eq_iff)
  next
    case (Some j)
    then have d': "i = j" "d' = d\<lparr>dk_data := (dk_data d)(j := [])\<rparr>"
      using assms(2) Some by (auto simp: os_create_def)
    show ?thesis unfolding d' using assms(1) Some contents_changed [OF assms(1) Some]
      by (simp add: files_of_def write_file_def fun_eq_iff disk_ok_def)
  qed
  then show "disk_ok d'" and "dk_names d' p = Some i" and "dk_data d' i = []"
    and "files_of ds d' = write_file p [] (files_of ds d)" by simp_all
qed

lemma write_alone:
  assumes "disk_ok d" and "dk_names d p = Some i" and "dk_data d i = []"
  shows "disk_ok (os_write i x d)" and "files_of ds (os_write i x d) = write_file p x (files_of ds d)"
  using assms contents_changed [OF assms(1,2)]
  by (simp_all add: os_write_def disk_ok_def files_of_def write_file_def fun_eq_iff)

lemma rename_alone:
  assumes "disk_ok d" and "os_rename p q d = Some d'" and "p \<noteq> q"
  shows "disk_ok d'" and "files_of ds d' = move p q (files_of ds d)"
proof -
  obtain i where i: "dk_names d p = Some i" "d' = d\<lparr>dk_names := (dk_names d)(p := None, q \<mapsto> i)\<rparr>"
    using assms(2) by (auto simp: os_rename_def split: option.splits)
  show "disk_ok d'" unfolding disk_ok_def using disk_okD [OF assms(1)] i by (fastforce split: if_splits)
  show "files_of ds d' = move p q (files_of ds d)"
    using i assms(3) by (simp add: files_of_def move_def fun_eq_iff)
qed

text \<open>So a save alone ends with the files that \<open>save_graph_to_file\<close> ends with.\<close>

theorem save_alone:
  assumes "disk_ok d" and "enc g = Inr json" and "dir \<in> ds"
  shows "\<exists>d'. (race (dir @ ''/'' @ name))\<^sup>*\<^sup>* ([(json, Creating)], d) ([(json, Finished)], d') \<and> disk_ok d'
    \<and> files_of ds d' = last (fst (save_graph_to_file enc no_faults dir name g (files_of ds d)))"
proof -
  let ?f = "dir @ ''/'' @ name"
  obtain i d1 where c: "os_create (?f @ ''.tmp'') d = (i, d1)" by fastforce
  note d1 = create_alone [OF assms(1) c]
  let ?d2 = "os_write i json d1"
  note d2 = write_alone [OF d1(1-3), where x = json]
  have tmp2: "dk_names ?d2 (?f @ ''.tmp'') = Some i" using d1(2) by (simp add: os_write_def)
  define d3 where "d3 = (case os_rename ?f (?f @ ''.old'') ?d2 of None \<Rightarrow> ?d2 | Some d' \<Rightarrow> d')"
  have d3: "disk_ok d3" "files_of ds d3 = (if contents (files_of ds ?d2) ?f \<noteq> None then move ?f (?f @ ''.old'') (files_of ds ?d2)
      else files_of ds ?d2)"
    using d2(1) rename_alone [OF d2(1), of ?f "?f @ ''.old''"]
    by (auto simp: d3_def os_rename_def files_of_def split: option.split)
  have "dk_names d3 (?f @ ''.tmp'') = Some i" using tmp2 by (simp add: d3_def os_rename_def split: option.split)
  then obtain d4 where r: "os_rename (?f @ ''.tmp'') ?f d3 = Some d4" by (simp add: os_rename_def)
  note d4 = rename_alone [OF d3(1) r]
  have checked: "(race ?f)\<^sup>*\<^sup>* ([(json, Checking)], ?d2) ([(json, Renaming)], d3)"
  proof (cases "dk_names ?d2 ?f")
    case None
    then have "d3 = ?d2" by (simp add: d3_def os_rename_def)
    then show ?thesis using None by (intro first_moves [of ?f json Checking ?d2 Renaming d3]) simp_all
  next
    case (Some j)
    then show ?thesis
      by (intro first_moves [of ?f json Checking ?d2 Backing_up ?d2] first_moves [of ?f json Backing_up ?d2 Renaming d3])
        (simp_all add: d3_def)
  qed
  have "(race ?f)\<^sup>*\<^sup>* ([(json, Renaming)], d3) ([(json, Finished)], d4)"
    using r by (intro first_moves [of ?f json Renaming d3 Finished d4]) simp_all
  with checked have "(race ?f)\<^sup>*\<^sup>* ([(json, Checking)], ?d2) ([(json, Finished)], d4)" by (rule rtranclp_trans)
  then have "(race ?f)\<^sup>*\<^sup>* ([(json, Creating)], d) ([(json, Finished)], d4)"
    using c by (intro first_moves [of ?f json Creating d "Writing i" d1] first_moves [of ?f json "Writing i" d1 Checking ?d2])
      simp_all
  moreover have "files_of ds d4 = last (fst (save_graph_to_file enc no_faults dir name g (files_of ds d)))"
  proof -
    have "(files_of ds d)\<lparr>dirs := insert dir (dirs (files_of ds d))\<rparr> = files_of ds d"
      using assms(3) by (simp add: files_of_def insert_absorb)
    moreover have "write_file (?f @ ''.tmp'') json (write_file (?f @ ''.tmp'') [] (files_of ds d)) = files_of ds ?d2"
      using d2(2) d1(4) by simp
    moreover have "contents (files_of ds ?d2) ?f = contents (files_of ds d) ?f"
      by (simp add: d2(2) d1(4))
    ultimately show ?thesis
      using d3(2) d4(2) assms(2) by (simp add: save_graph_to_file_def serialize_to_file_def no_faults_def Let_def)
  qed
  ultimately show ?thesis using d4(1) by (intro exI [of _ d4]) simp
qed

section \<open>Two saves\<close>

text \<open>The second save opens the temporary file that the first has written, which truncates it; the first gives it the
  name of the graph.\<close>

lemma overlapping_saves:
  assumes "disk_ok d"
  shows "\<exists>d' i. (race f)\<^sup>*\<^sup>* ([(older, Creating), (newer, Creating)], d) ([(older, Finished), (newer, Writing i)], d')
    \<and> dk_names d' f = Some i \<and> dk_data d' i = [] \<and> dk_names d' (f @ ''.tmp'') = None
    \<and> (\<forall>j. dk_names d f = Some j \<longrightarrow> dk_names d' (f @ ''.old'') = Some j \<and> dk_data d' j = dk_data d j)"
proof -
  let ?tmp = "f @ ''.tmp''" and ?old = "f @ ''.old''"
  obtain i d1 where c: "os_create ?tmp d = (i, d1)" by fastforce
  note d1 = create_alone [OF assms c]
  have names1: "dk_names d1 p = dk_names d p" if "p \<noteq> ?tmp" for p
    using c that by (auto simp: os_create_def split: option.splits)
  have data1: "dk_data d1 j = dk_data d j" if "dk_names d f = Some j" for j
    using c disk_okD(1) [OF assms that] disk_okD(2) [OF assms that, of ?tmp]
    by (auto simp: os_create_def split: option.splits)
  let ?d2 = "os_write i older d1" and ?d3 = "d1\<lparr>dk_data := (dk_data d1)(i := [])\<rparr>"
  have c2: "os_create ?tmp ?d2 = (i, ?d3)" using d1(2) by (simp add: os_create_def os_write_def)
  have ne: "j \<noteq> i" if "dk_names d f = Some j" for j
    using disk_okD(2) [OF d1(1,2), of f] names1 [of f] that by auto
  define d4 where "d4 = (case os_rename f ?old ?d3 of None \<Rightarrow> ?d3 | Some d' \<Rightarrow> d')"
  have tmp4: "dk_names d4 ?tmp = Some i" using d1(2) by (simp add: d4_def os_rename_def split: option.split)
  define d5 where "d5 = d4\<lparr>dk_names := (dk_names d4)(?tmp := None, f \<mapsto> i)\<rparr>"
  have rename: "os_rename ?tmp f d4 = Some d5" using tmp4 by (simp add: os_rename_def d5_def)
  let ?B = "[(newer, Writing i)]"
  have "(race f)\<^sup>*\<^sup>* ((older, Checking) # ?B, ?d3) ((older, Renaming) # ?B, d4)"
  proof (cases "dk_names ?d3 f")
    case None
    then have "d4 = ?d3" by (simp add: d4_def os_rename_def)
    then show ?thesis using None by (intro first_moves [of f older Checking ?d3 Renaming d4]) simp_all
  next
    case (Some j)
    then show ?thesis
      by (intro first_moves [of f older Checking ?d3 Backing_up ?d3] first_moves [of f older Backing_up ?d3 Renaming d4])
        (simp_all add: d4_def)
  qed
  moreover have "(race f)\<^sup>*\<^sup>* ((older, Renaming) # ?B, d4) ((older, Finished) # ?B, d5)"
    using rename by (intro first_moves [of f older Renaming d4 Finished d5]) simp_all
  ultimately have "(race f)\<^sup>*\<^sup>* ([(older, Checking), (newer, Writing i)], ?d3) ([(older, Finished), (newer, Writing i)], d5)"
    by (rule rtranclp_trans)
  then have "(race f)\<^sup>*\<^sup>* ([(older, Checking), (newer, Creating)], ?d2) ([(older, Finished), (newer, Writing i)], d5)"
    using c2 by (intro second_moves [of f newer Creating ?d2 "Writing i" ?d3]) simp_all
  then have "(race f)\<^sup>*\<^sup>* ([(older, Creating), (newer, Creating)], d) ([(older, Finished), (newer, Writing i)], d5)"
    using c by (intro first_moves [of f older Creating d "Writing i" d1] first_moves [of f older "Writing i" d1 Checking ?d2])
      simp_all
  moreover have "dk_names d5 f = Some i" "dk_data d5 i = []" "dk_names d5 ?tmp = None"
    by (simp_all add: d5_def d4_def os_rename_def split: option.split)
  moreover have "dk_names d5 ?old = Some j \<and> dk_data d5 j = dk_data d j" if "dk_names d f = Some j" for j
    using that names1 [of f] data1 [OF that] ne [OF that] by (simp add: d5_def d4_def os_rename_def)
  ultimately show ?thesis by (intro exI [of _ d5] exI [of _ i]) simp
qed

section \<open>Properties\<close>

text \<open>C31. Two saves of the graph that overlap can lose it. For any two graphs, and whatever the directory holds, there is an
  order of their system calls, none of which fails, after which the first save has reported success, the second is
  about to write, and \<^verbatim>\<open>graph.json\<close> is empty. When the plugin dies then, every later start ends at once with the error of
  the JSON decoder for an empty file, although the graph of before is still there as \<^verbatim>\<open>graph.json.old\<close>: the load only
  looks for that when there is no \<^verbatim>\<open>graph.json\<close>. A save alone is safe (C12).\<close>

theorem overlapping_saves_corrupt:
  assumes "disk_ok d" and "decode [] = Inl e" and "e \<noteq> ErrNoGraphToLoad"
  shows "\<exists>d' i. (race (dir @ ''/'' @ name))\<^sup>*\<^sup>* ([(older, Creating), (newer, Creating)], d)
        ([(older, Finished), (newer, Writing i)], d')
    \<and> (\<forall>ds ks. get_graph_from_file (load_graph_from_file decode ks dir name (files_of ds d')) = Fatal (error_text e)
         \<and> (\<forall>x. contents (files_of ds d) (dir @ ''/'' @ name) = Some x \<longrightarrow>
              contents (files_of ds d') (dir @ ''/'' @ name @ ''.old'') = Some x))"
proof -
  let ?f = "dir @ ''/'' @ name"
  obtain d' i where race: "(race ?f)\<^sup>*\<^sup>* ([(older, Creating), (newer, Creating)], d) ([(older, Finished), (newer, Writing i)], d')"
    and empty: "dk_names d' ?f = Some i" "dk_data d' i = []"
    and old: "\<forall>j. dk_names d ?f = Some j \<longrightarrow> dk_names d' (?f @ ''.old'') = Some j \<and> dk_data d' j = dk_data d j"
    using overlapping_saves [OF assms(1)] by blast
  have "get_graph_from_file (load_graph_from_file decode ks dir name (files_of ds d')) = Fatal (error_text e)" for ds ks
    using empty assms(2,3) by (simp add: load_graph_from_file_def files_of_def decode_graph_def get_graph_from_file_def)
  moreover have "contents (files_of ds d') (?f @ ''.old'') = Some x" if "contents (files_of ds d) ?f = Some x" for ds x
    using that old by (auto simp: files_of_def)
  ultimately show ?thesis using race by (intro exI [of _ d'] exI [of _ i]) simp
qed

definition sample_disk :: disk where
  "sample_disk = \<lparr>dk_names = [''d/g'' \<mapsto> 0], dk_data = (\<lambda>i. ''sample''), dk_next = 1\<rparr>"

theorem overlapping_saves_corrupt_witness:
  "load_graph_from_file one_decode (\<lambda>g. []) ''d'' ''g'' (files_of {''d''} sample_disk) = Inr (stored_graph sample_graph)
   \<and> (\<exists>d' i. (race ''d/g'')\<^sup>*\<^sup>* ([(''sample'', Creating), (''sample'', Creating)], sample_disk)
        ([(''sample'', Finished), (''sample'', Writing i)], d')
      \<and> get_graph_from_file (load_graph_from_file one_decode (\<lambda>g. []) ''d'' ''g'' (files_of {''d''} d')) = Fatal ''json''
      \<and> contents (files_of {''d''} d') ''d/g.old'' = Some ''sample'')"
proof
  show "load_graph_from_file one_decode (\<lambda>g. []) ''d'' ''g'' (files_of {''d''} sample_disk) = Inr (stored_graph sample_graph)"
    by (simp add: load_graph_from_file_def files_of_def sample_disk_def decode_graph_def one_decode_def rebuild_def)
  have "disk_ok sample_disk" by (simp add: disk_ok_def sample_disk_def)
  moreover have "one_decode [] = Inl (ErrForeign ''json'')" by (simp add: one_decode_def)
  moreover have "ErrForeign ''json'' \<noteq> ErrNoGraphToLoad" by simp
  ultimately obtain d' i where "(race (''d'' @ ''/'' @ ''g''))\<^sup>*\<^sup>* ([(''sample'', Creating), (''sample'', Creating)], sample_disk)
        ([(''sample'', Finished), (''sample'', Writing i)], d')"
    and load: "\<forall>ds ks. get_graph_from_file (load_graph_from_file one_decode ks ''d'' ''g'' (files_of ds d')) =
          Fatal (error_text (ErrForeign ''json''))
         \<and> (\<forall>x. contents (files_of ds sample_disk) (''d'' @ ''/'' @ ''g'') = Some x \<longrightarrow>
              contents (files_of ds d') (''d'' @ ''/'' @ ''g'' @ ''.old'') = Some x)"
    using overlapping_saves_corrupt [where d = sample_disk and decode = one_decode and dir = "''d''" and name = "''g''"
        and older = "''sample''" and newer = "''sample''"] by metis
  moreover have "contents (files_of {''d''} sample_disk) (''d'' @ ''/'' @ ''g'') = Some ''sample''"
    by (simp add: files_of_def sample_disk_def)
  ultimately show "\<exists>d' i. (race ''d/g'')\<^sup>*\<^sup>* ([(''sample'', Creating), (''sample'', Creating)], sample_disk)
        ([(''sample'', Finished), (''sample'', Writing i)], d')
      \<and> get_graph_from_file (load_graph_from_file one_decode (\<lambda>g. []) ''d'' ''g'' (files_of {''d''} d')) = Fatal ''json''
      \<and> contents (files_of {''d''} d') ''d/g.old'' = Some ''sample''"
    by (intro exI [of _ d'] exI [of _ i]) simp
qed

end
