(* ===== verification/Spec2Isabelle.thy ===== *)
theory Spec2Isabelle
  imports Rebalance_Properties PullPush_Properties GraphFile Stats Pathfinder_Optimal Lifecycle
    Websocket Locks Lifetimes Stats_Typed SaveRace
begin

text \<open>
  A model of \<^verbatim>\<open>circular\<close>, a plugin of Core Lightning that rebalances the channels of a node: it pays itself along
  circular routes, out through one channel and back in through another. The development covers the Go code under
  \<^verbatim>\<open>src/\<close> from the gossip graph to the commands. This text says which theory models what, what is proved, and
  what is left out.

  \<^bold>\<open>The program.\<close> The node (\<^verbatim>\<open>node/\<close>) keeps the peers with their channels, the gossip graph, a key-value database and
  the stop flag. Cron jobs refresh peers, graph and liquidity beliefs, and save the graph to a file. A rebalance
  (\<^verbatim>\<open>rebalance/\<close>) checks the two channels, asks the path finder (\<^verbatim>\<open>graph/pathfinder.go\<close>) for a route between their
  peers, closes it to a circle, draws a preimage, sends the payment and waits; it repeats this with more hops. Pull
  and push (\<^verbatim>\<open>rebalance/parallel/\<close>) split an amount over many channels and keep several rebalances running at once.
  lightningd calls back into the node: the HTLC hook that resolves our own payments, and the notifications about
  payments, which maintain the database and pass liquidity updates on. A WebSocket reports the progress.

  \<^bold>\<open>The theories\<close>, each importing those it builds on:
  \<^item> \<open>Prelude\<close>: Go's integers (\<open>u64\<close> is \<open>64 word\<close>; \<open>int\<close> with \<open>go_int\<close> where it wraps), the outcome of a call
    (\<open>Ok\<close>, \<open>Err\<close>, \<open>Panic\<close>, \<open>Hang\<close>), \<^verbatim>\<open>range\<close> over a map in an order that is an argument, \<^verbatim>\<open>strconv\<close>; the arithmetic
    lemmas \<open>no_wrap\<close>.
  \<^item> \<open>Util\<close>: \<^verbatim>\<open>util/\<close>, \<^verbatim>\<open>consts/\<close>; errors with their texts. \<open>GoFloat\<close>: the \<^verbatim>\<open>float64\<close> products the program computes, with
    their rounding. \<open>Format\<close>: the verbs of \<^verbatim>\<open>fmt\<close> that pad or round. \<open>Types\<close>: \<^verbatim>\<open>types/node.go\<close>.
  \<^item> \<open>Channel\<close>: \<^verbatim>\<open>graph/channel.go\<close>. \<open>PQueue\<close>: \<^verbatim>\<open>graph/pq.go\<close> under \<^verbatim>\<open>container/heap\<close>; the locale \<open>min_queue\<close> is what the
    path finder needs of it. \<open>Graph\<close>: \<^verbatim>\<open>graph/graph.go\<close>, \<^verbatim>\<open>graph/stats.go\<close>. \<open>Route\<close>: \<^verbatim>\<open>graph/route.go\<close>,
    \<^verbatim>\<open>graph/prettyRoute.go\<close>. \<open>Pathfinder\<close>: \<^verbatim>\<open>graph/pathfinder.go\<close>, with its correctness in \<open>Pathfinder_Sound\<close> and its
    optimality in \<open>Pathfinder_Optimal\<close>.
  \<^item> \<open>Store\<close>: \<^verbatim>\<open>node/db.go\<close>. \<open>Node\<close>: the state of the node, \<^verbatim>\<open>node/node.go\<close>, \<^verbatim>\<open>node/peers.go\<close>, \<^verbatim>\<open>node/control.go\<close>.
    \<open>Payment\<close>: \<^verbatim>\<open>node/payment.go\<close>, \<^verbatim>\<open>node/preimage.go\<close>, \<^verbatim>\<open>node/liquidity.go\<close>, \<^verbatim>\<open>cmd/circular/hooks.go\<close>; \<open>Lifecycle\<close>
    is the abstract life of a payment that they refine, with the writes that fail. \<open>GraphFile\<close>: \<^verbatim>\<open>node/file.go\<close>, the jobs
    of \<^verbatim>\<open>node/cron.go\<close>, \<^verbatim>\<open>Init\<close> up to the database; \<open>SaveRace\<close>: several saves at once, call by call. \<open>Stats\<close>: \<^verbatim>\<open>node/stats.go\<close>, \<^verbatim>\<open>node/deletestats.go\<close>; \<open>Stats_Typed\<close>: what the database holds
    under which keys. \<open>Websocket\<close>: \<^verbatim>\<open>node/websocket.go\<close>.
  \<^item> \<open>Rebalance\<close>: the files of \<^verbatim>\<open>rebalance/\<close> and \<^verbatim>\<open>types/result.go\<close>; \<open>Rebalance_Sound\<close> with the locale
    \<open>node_invariant\<close> (what a rebalance relies on, and keeps, of the node), \<open>Rebalance_Properties\<close>, and \<open>Commands\<close>, the
    command by node and by channel from their parameters to the answer. \<open>Interference\<close>: what the rest of the plugin
    may do while a rebalance, a pull or a push runs.
  \<^item> \<open>Parallel\<close>: what pull and push share, over the record \<open>methods\<close> for the interface \<^verbatim>\<open>RebalanceMethods\<close>;
    \<open>Parallel_Sound\<close> proves it once in the locale \<open>split_methods\<close>. \<open>PullPush\<close>: \<^verbatim>\<open>pull.go\<close> and \<^verbatim>\<open>push.go\<close>;
    \<open>PullPush_Sound\<close> interprets the contract (\<open>candidate_methods\<close>) for both; \<open>PullPush_Properties\<close>.
  \<^item> \<open>Boot\<close>: the options, \<^verbatim>\<open>onInit\<close> and the whole of \<^verbatim>\<open>Init\<close>. \<open>Plugin\<close>: the methods, the notifications and the singleton
    (\<^verbatim>\<open>cmd/circular/\<close>, \<^verbatim>\<open>singleton/\<close>). \<open>Lifetimes\<close>: \<^verbatim>\<open>main\<close> and the step relation of the whole plugin, with its crashes and
    restarts.
  \<^item> \<open>Locks\<close>: the locks that every operation takes, and their interleaving.
  \<^item> \<open>Circle\<close>, \<open>Circle_Pull\<close>: a small network on which the theorems are applied.

  \<^bold>\<open>How code becomes definitions.\<close> A struct is a record, a method a function that returns its result and the changed
  state. Every error return, panic and endless wait is a value. Go leaves the order of a \<^verbatim>\<open>range\<close> over a map open: the
  order is an argument, and the theorems hold for every order. What comes from outside (the answers of lightningd,
  random bytes, the clock, which system calls fail, which writes to a socket fail) is an argument as well, so a
  theorem speaks of every behaviour of the outside. A rebalance of pull or push that runs in a goroutine is one step
  of the loop over the results; what the other goroutines do to the node meanwhile is a function that has to keep the
  invariant of the node; \<open>Interference\<close> proves that any sequence of the plugin's own operations does. Inside one
  operation the other theories assume no interference, apart from the search for the candidates of pull and push, which can hang; \<open>Locks\<close> shows that no other
  operation waits for good.

  \<^bold>\<open>What is proved.\<close>
  \<^item> Path finder: the search returns, neither panics nor loops; every route is a simple path through usable channels,
    priced backwards with the fees of the channels, within the hop limit. Without a binding hop limit it misses no route
    whose channels all have a minimum of at most the amount, and what it returns is not dearer than any such route. A
    binding hop limit, or a minimum above the amount, can hide a route that exists.
  \<^item> Graph: the adjacency lists hold exactly the known channels; a refresh keeps learned liquidity; pruning and the
    liquidity refresh touch exactly the stale channels; beliefs stay within capacities. The heap pops a least
    item. The fee is never below that of BOLT 7 up to 1001 ppm, and can be above.
  \<^item> Rebalance: routes are circles through both channels with the right amounts within both limits; an attempt only
    reaches the database after all checks; the loop and the command end with an answer within the parameters, when the
    two peers differ and have channels with us. With both channels at one peer it panics.
  \<^item> Pull and push: at every moment the rebalances in flight are over different channels and with what was moved
    do not exceed the target, if no peer is listed twice. Within the bounds below a command returns an error or a result,
    or its search for candidates deadlocks, which takes a writer of the peers in the middle of it. It ends only when
    the amount is moved, no candidate is left, or the number of splits is negative; no success is above the fee rate that
    was asked for. The candidates of a pull are the channels strictly below \<^verbatim>\<open>maxoutppm\<close>.
  \<^item> Payments and database: the handlers refine the life cycle of each hash, also when writes fail, which can leave a
    payment that timed out resolvable; liquidity beliefs are never updated since the loop is never started, and after
    sixteen failures the handlers block. Deleting the statistics deletes exactly them, or only some of them when it
    fails; they show exactly what is stored, since every value has the type of its key. Booking a rebalance moves the
    amount between exactly its two channels.
  \<^item> Graph file: a crash at any moment of a save that runs alone leaves the old or the new graph; saving and loading
    brings the channels back, with what was learned, and loses the aliases. Two saves that overlap, which nothing prevents, can leave an empty file on which no start succeeds.
  \<^item> The whole: the start never panics, since every option is read with its registered type, and a running node keeps to
    the options; every request is answered within its parameters, or hangs in the search for candidates, as long as it
    avoids the panics that are proved elsewhere; and the invariant of the node on which the other theorems rest holds in
    every life of the plugin, whatever starts, requests, jobs and crashes came before, with saves one after another. The
    fees that messages show are exact.
  \<^item> WebSocket: the register holds exactly the connections that are served; a broken connection silences the broadcast;
    an empty message repeats the last request.
  \<^item> Locks: operations take their locks in one order, so they never deadlock, except for the search for candidates, which
    can deadlock with a writer of the peers.

  \<^bold>\<open>Bounds.\<close> Arithmetic is on words and wraps. Theorems that exclude wrap-around say so by hypotheses: at most \<open>2 ^ 40\<close> msat for
  one rebalance (about 11 BTC) and 12 hops, below \<open>2 ^ 50\<close> sats for a pull or push with splits of at most \<open>2 ^ 30\<close> sats. Of
  the gossip they assume that both fees of a channel fit the u32 that BOLT 7 gives them (\<open>bolt7_fees\<close>), nothing about
  their size: a route costs less than the distance limit of the search, \<open>2 ^ 31\<close> msat, so dearer channels drop out.
  The two loops whose end is not evident, \<open>build_hops\<close> and \<open>wait_loop\<close>, are partial functions with the value \<open>None\<close> or \<open>Hang\<close> when they do not end, and are proved to return.

  \<^bold>\<open>Not modelled.\<close> Logging, with \<^verbatim>\<open>GetCallInfo\<close> and \<^verbatim>\<open>TimeTrack\<close>. The plugin library, which reads requests and decodes their
  parameters, the scheduler of cron and the HTTP server: what they are given is modelled, and that they run the handlers
  and jobs in some order is part of the step relations. lightningd, badger, JSON, \<^verbatim>\<open>mapstructure\<close> and SHA-256 are
  parameters; where a theorem needs something of them it is a hypothesis, which holds for the concrete library of the
  witnesses: of badger that a write that succeeds is read back and touches no other key, and that a transaction that fails
  changes nothing (\<open>badger_ok\<close>); that \<^verbatim>\<open>DropPrefix\<close> touches no key without the prefixes, removes the others when it
  succeeds, and any of them when it fails (\<open>drop_ok\<close>); that an iteration lists the keys with a prefix (\<open>scan_ok\<close>); and of
  JSON the round trip. Any write may fail; where a theorem is about a run in which they succeed it
  says so (\<open>badger_total\<close>), as for the panic with one peer (C35) and the handlers that block (C29). \<open>Lifetimes\<close> takes the saves of
  the graph one after another, and the theorems about single commands take it that locks become free again, which C10
  shows unless a search for candidates is in its deadlock. \<^verbatim>\<open>strings.ToLower\<close> is the one of ASCII. Of the peers of the plugin
  library only the fields that the program reads are there. The refresh interval of the liquidity is a number of seconds that
  does not wrap, which it does in Go above 292 years. The graph is saved under a path relative to the working directory
  of lightningd and loaded from an absolute one: both are taken to name the same file. \<^verbatim>\<open>RefreshChannel\<close> is never called. The
  flag \<^verbatim>\<open>stopped\<close> and the fields that Go code reads without a lock are read atomically.
\<close>

end
